(* ===== verification/Prelude.thy ===== *)
theory Prelude
  imports Main "HOL-Library.AList" "HOL-Library.Char_ord" "HOL-Library.List_Lexorder"
    "HOL-Library.Product_Lexorder"
begin

text \<open>
  Shared vocabulary of the development: how Go values are represented.

  \<^item> A Go \<^verbatim>\<open>string\<close> is a byte sequence, here \<^typ>\<open>string\<close> (a list of 8-bit characters).
  \<^item> \<^verbatim>\<open>int\<close> and \<^verbatim>\<open>int64\<close> are \<^typ>\<open>int\<close>; where the code adds to one, \<open>wrap64\<close> writes the
    two's-complement wrap-around out.
  \<^item> A Go map is an association list with distinct keys. The order of the list is one iteration
    order of \<^verbatim>\<open>range\<close>; Go leaves that order open, so results are shown not to depend on it.
  \<^item> A slice whose \<^verbatim>\<open>nil\<close> value is told apart from an empty one is an option of a list.
  \<^item> A function that returns \<^verbatim>\<open>error\<close> returns \<open>goerr option\<close> (\<^const>\<open>None\<close> is nil); one that returns a
    value and an error returns \<open>goerr + 'a\<close>.
\<close>

section \<open>Errors\<close>

text \<open>
  The sentinel errors the code compares against are constructors of their own; an error made by
  \<^verbatim>\<open>errors.New\<close> or \<^verbatim>\<open>fmt.Errorf\<close> carries its message text without the formatted operands. A panic is an error of its own.
\<close>

datatype goerr =
    ErrMsg string
  | ErrWrap string goerr
  | ErrJoin "goerr list"
  | ErrBlock string "string list"
  | ErrCanceled
  | ErrDeadlineExceeded
  | ErrEpochMismatch
  | ErrFenced
  | ErrLeaseExpired
  | ErrEpochConflict
  | ErrPositionRegression
  | ErrPositionIncomparable
  | ErrIncompleteCoverage
  | ErrMembershipChanged
  | ErrTakeoverBlocked
  | ErrContinuousDisabled
  | ErrNotFound
  | ErrVersionConflict
  | ErrPipelineClosed
  | ErrBuilderClosed
  | ErrBoundaryClosed
  | ErrUnknownCodec
  | ErrInvalidEnvelope
  | ErrState
  | ErrInvalidToken
  | ErrBadPattern
  | ErrBusClosed
  | ErrPanic string

type_synonym 'a res = "goerr + 'a"

text \<open>\<^verbatim>\<open>errors.Join\<close> drops nil errors and is nil when nothing is left.\<close>

definition errors_join :: "goerr option list \<Rightarrow> goerr option" where
  "errors_join es = (case List.map_filter id es of [] \<Rightarrow> None | xs \<Rightarrow> Some (ErrJoin xs))"

lemma errors_join_Nil [simp]: "errors_join [] = None"
  by (simp add: errors_join_def map_filter_simps)

lemma errors_join_None [simp]: "errors_join (None # es) = errors_join es"
  by (simp add: errors_join_def map_filter_simps)

lemma errors_join_Some [simp]: "errors_join (Some e # es) \<noteq> None"
  by (simp add: errors_join_def map_filter_simps)

text \<open>Sequencing of fallible steps: the first error is the result.\<close>

definition bind_res :: "'a res \<Rightarrow> ('a \<Rightarrow> 'b res) \<Rightarrow> 'b res" where
  "bind_res r f = (case r of Inl e \<Rightarrow> Inl e | Inr a \<Rightarrow> f a)"

definition check_err :: "goerr option \<Rightarrow> 'a res \<Rightarrow> 'a res" where
  "check_err c k = (case c of Some e \<Rightarrow> Inl e | None \<Rightarrow> k)"

lemma bind_res_simps [simp]:
  "bind_res (Inl e) f = Inl e" "bind_res (Inr a) f = f a"
  by (simp_all add: bind_res_def)

lemma bind_res_Inr: "bind_res r f = Inr b \<longleftrightarrow> (\<exists>a. r = Inr a \<and> f a = Inr b)"
  by (simp add: bind_res_def split: sum.split)

lemma check_err_simps [simp]:
  "check_err None k = k" "check_err (Some e) k = Inl e"
  by (simp_all add: check_err_def)

lemma check_err_Inr: "check_err c k = Inr b \<longleftrightarrow> c = None \<and> k = Inr b"
  by (simp add: check_err_def split: option.split)

text \<open>A chain of checks: the first error found, if any.\<close>

definition orelse_err :: "goerr option \<Rightarrow> goerr option \<Rightarrow> goerr option" where
  "orelse_err c k = (case c of Some e \<Rightarrow> Some e | None \<Rightarrow> k)"

lemma orelse_err_simps [simp]:
  "orelse_err None k = k" "orelse_err (Some e) k = Some e"
  by (simp_all add: orelse_err_def)

lemma orelse_err_None: "orelse_err c k = None \<longleftrightarrow> c = None \<and> k = None"
  by (simp add: orelse_err_def split: option.split)

primrec first_err :: "('a \<Rightarrow> goerr option) \<Rightarrow> 'a list \<Rightarrow> goerr option" where
  "first_err f [] = None"
| "first_err f (x # xs) = orelse_err (f x) (first_err f xs)"

lemma first_err_None: "first_err f xs = None \<longleftrightarrow> (\<forall>x \<in> set xs. f x = None)"
  by (induction xs) (auto simp: orelse_err_None)

named_theorems err_simps \<open>rewrite rules that open a chain of error checks\<close>

lemmas [err_simps] = bind_res_Inr check_err_Inr orelse_err_None first_err_None

section \<open>Integers\<close>

definition wrap32 :: "int \<Rightarrow> int" where
  "wrap32 x = (x + 2 ^ 31) mod 2 ^ 32 - 2 ^ 31"

definition wrap64 :: "int \<Rightarrow> int" where
  "wrap64 x = (x + 2 ^ 63) mod 2 ^ 64 - 2 ^ 63"

abbreviation max_int64 :: int where "max_int64 \<equiv> 2 ^ 63 - 1"

definition int64 :: "int \<Rightarrow> bool" where
  "int64 x \<longleftrightarrow> - (2 ^ 63) \<le> x \<and> x < 2 ^ 63"

lemma wrap64_id [simp]: "int64 x \<Longrightarrow> wrap64 x = x"
  by (simp add: wrap64_def int64_def)

lemma wrap64_int64 [simp, intro]: "int64 (wrap64 x)"
  by (simp add: wrap64_def int64_def)

lemma wrap64_over: "2 ^ 63 \<le> x \<Longrightarrow> x < 3 * 2 ^ 63 \<Longrightarrow> wrap64 x = x - 2 ^ 64"
proof -
  assume x: "2 ^ 63 \<le> x" "x < 3 * 2 ^ 63"
  have "(x + 2 ^ 63) mod 2 ^ 64 = (x + 2 ^ 63 - 2 ^ 64) mod 2 ^ 64"
    by (simp only: minus_mod_self2)
  also have "\<dots> = x + 2 ^ 63 - 2 ^ 64"
    using x by (intro mod_pos_pos_trivial) simp_all
  finally show ?thesis by (simp add: wrap64_def)
qed

lemma wrap64_add_left [simp]: "wrap64 (wrap64 x + y) = wrap64 (x + y)"
proof -
  have "(wrap64 x + y + 2 ^ 63) mod 2 ^ 64 = ((x + 2 ^ 63) mod 2 ^ 64 + y) mod 2 ^ 64"
    by (simp add: wrap64_def algebra_simps)
  also have "\<dots> = (x + y + 2 ^ 63) mod 2 ^ 64"
    by (simp add: mod_simps algebra_simps)
  finally show ?thesis by (simp add: wrap64_def)
qed

end
