(* ===== verification/GoStrings.thy ===== *)
theory GoStrings
  imports Prelude "HOL-Library.Sublist"
begin

text \<open>
  The parts of Go's string, \<^verbatim>\<open>unicode/utf8\<close> and \<^verbatim>\<open>strconv\<close> libraries the code relies on: UTF-8
  validity, ASCII case folding, decimal conversion and splitting. Strings are byte lists.
\<close>

section \<open>Bytes and UTF-8\<close>

definition byte :: "char \<Rightarrow> nat" where
  "byte c = of_char c"

lemma byte_less [simp]: "byte c < 256"
  using nat_of_char_less_256 [of c] by (simp add: byte_def)

lemma byte_inject [simp]: "byte c = byte d \<longleftrightarrow> c = d"
  by (simp add: byte_def)

lemma byte_char_of [simp]: "n < 256 \<Longrightarrow> byte (char_of n) = n"
  by (simp add: byte_def)

definition in_range :: "nat \<Rightarrow> nat \<Rightarrow> char \<Rightarrow> bool" where
  "in_range lo hi c \<longleftrightarrow> lo \<le> byte c \<and> byte c \<le> hi"

abbreviation is_cont :: "char \<Rightarrow> bool" where "is_cont \<equiv> in_range 128 191"

text \<open>
  The length of the well-formed UTF-8 sequence at the head of a byte string, 0 when there is none.
  The second byte's range depends on the first (no overlong forms, no surrogates, at most U+10FFFF).
\<close>

definition rune_len :: "string \<Rightarrow> nat" where
  "rune_len s = (case s of
     [] \<Rightarrow> 0
   | a # s1 \<Rightarrow>
       if byte a < 128 then 1
       else if in_range 194 223 a then
         (case s1 of b # _ \<Rightarrow> if is_cont b then 2 else 0 | _ \<Rightarrow> 0)
       else if in_range 224 239 a then
         (case s1 of b # c # _ \<Rightarrow>
            if in_range (if byte a = 224 then 160 else 128) (if byte a = 237 then 159 else 191) b
               \<and> is_cont c then 3 else 0
          | _ \<Rightarrow> 0)
       else if in_range 240 244 a then
         (case s1 of b # c # d # _ \<Rightarrow>
            if in_range (if byte a = 240 then 144 else 128) (if byte a = 244 then 143 else 191) b
               \<and> is_cont c \<and> is_cont d then 4 else 0
          | _ \<Rightarrow> 0)
       else 0)"

function utf8_valid :: "string \<Rightarrow> bool" where
  "utf8_valid s =
     (if s = [] then True
      else if rune_len s = 0 then False
      else utf8_valid (drop (rune_len s) s))"
  by pat_completeness auto
termination
  by (relation "measure length") auto

declare utf8_valid.simps [simp del]

lemma utf8_valid_Nil [simp]: "utf8_valid []"
  by (simp add: utf8_valid.simps)

lemma utf8_valid_ascii [simp]: "byte a < 128 \<Longrightarrow> utf8_valid (a # s) = utf8_valid s"
  by (subst utf8_valid.simps) (simp add: rune_len_def)

lemma utf8_valid_all_ascii: "\<forall>c \<in> set s. byte c < 128 \<Longrightarrow> utf8_valid s"
  by (induction s) auto

section \<open>Case folding\<close>

definition ascii_lower :: "char \<Rightarrow> char" where
  "ascii_lower c = (if 65 \<le> byte c \<and> byte c \<le> 90 then char_of (byte c + 32) else c)"

text \<open>
  \<^verbatim>\<open>strings.ToLower\<close> folds a pure ASCII string byte by byte and any other string through the
  Unicode case tables. Those tables are the parameter \<open>uni\<close>: it stands for
  \<^verbatim>\<open>strings.Map(unicode.ToLower, s)\<close> on strings that are not ASCII, and nothing is assumed of it.
\<close>

definition to_lower :: "(string \<Rightarrow> string) \<Rightarrow> string \<Rightarrow> string" where
  "to_lower uni s = (if \<forall>c \<in> set s. byte c < 128 then map ascii_lower s else uni s)"

section \<open>Decimal numbers\<close>

definition is_digit :: "char \<Rightarrow> bool" where
  "is_digit = in_range 48 57"

definition digit_char :: "nat \<Rightarrow> char" where
  "digit_char d = char_of (48 + d)"

definition digit_val :: "char \<Rightarrow> nat" where
  "digit_val c = byte c - 48"

lemma digit_char [simp]: "d < 10 \<Longrightarrow> is_digit (digit_char d)" "d < 10 \<Longrightarrow> digit_val (digit_char d) = d"
  by (simp_all add: is_digit_def digit_char_def digit_val_def in_range_def)

definition dec_val :: "string \<Rightarrow> nat" where
  "dec_val s = foldl (\<lambda>n c. 10 * n + digit_val c) 0 s"

lemma dec_val_snoc [simp]: "dec_val (s @ [c]) = 10 * dec_val s + digit_val c"
  by (simp add: dec_val_def)

lemma dec_val_Nil [simp]: "dec_val [] = 0"
  by (simp add: dec_val_def)

text \<open>\<^verbatim>\<open>strconv.FormatUint(n, 10)\<close>: no leading zero, at least one digit.\<close>

fun format_uint :: "nat \<Rightarrow> string" where
  "format_uint n = (if n < 10 then [digit_char n] else format_uint (n div 10) @ [digit_char (n mod 10)])"

declare format_uint.simps [simp del]

lemma format_uint_nonempty [simp]: "format_uint n \<noteq> []"
  by (subst format_uint.simps) simp

lemma format_uint_digits: "list_all is_digit (format_uint n)"
  by (induction n rule: format_uint.induct) (subst format_uint.simps, simp)

lemma dec_val_format_uint [simp]: "dec_val (format_uint n) = n"
proof (induction n rule: format_uint.induct)
  case (1 n)
  then show ?case
    by (subst format_uint.simps) (simp add: dec_val_def)
qed

lemma format_uint_inject [simp]: "format_uint m = format_uint n \<longleftrightarrow> m = n"
  by (metis dec_val_format_uint)

text \<open>\<^verbatim>\<open>strconv.Itoa\<close>.\<close>

definition itoa :: "int \<Rightarrow> string" where
  "itoa n = (if n < 0 then CHR ''-'' # format_uint (nat (- n)) else format_uint (nat n))"

lemma itoa_inject [simp]: "itoa m = itoa n \<longleftrightarrow> m = n"
proof -
  have "hd (format_uint k) \<noteq> CHR ''-''" for k
    using format_uint_digits [of k] by (cases "format_uint k") (auto simp: is_digit_def in_range_def byte_def)
  then have "format_uint k \<noteq> CHR ''-'' # s" "CHR ''-'' # s \<noteq> format_uint k" for k s
    by (metis list.sel(1))+
  then show ?thesis
    by (auto simp: itoa_def nat_eq_iff)
qed

text \<open>\<^verbatim>\<open>strconv.ParseUint(s, 10, 64)\<close>: digits only, in range.\<close>

definition parse_uint :: "string \<Rightarrow> nat option" where
  "parse_uint s = (if s \<noteq> [] \<and> list_all is_digit s \<and> dec_val s < 2 ^ 64 then Some (dec_val s) else None)"

lemma parse_format_uint [simp]: "n < 2 ^ 64 \<Longrightarrow> parse_uint (format_uint n) = Some n"
  by (simp add: parse_uint_def format_uint_digits)

text \<open>\<^verbatim>\<open>strconv.Atoi\<close>: an optional sign, digits, the range of a 64-bit \<^verbatim>\<open>int\<close>.\<close>

definition atoi :: "string \<Rightarrow> int option" where
  "atoi s =
     (let neg = (case s of c # _ \<Rightarrow> c = CHR ''-'' | [] \<Rightarrow> False);
          body = (case s of c # r \<Rightarrow> if c = CHR ''-'' \<or> c = CHR ''+'' then r else s | [] \<Rightarrow> s);
          v = (if neg then - int (dec_val body) else int (dec_val body))
      in if body \<noteq> [] \<and> list_all is_digit body \<and> int64 v then Some v else None)"

lemma atoi_int64: "atoi s = Some v \<Longrightarrow> int64 v"
  by (auto simp: atoi_def Let_def split: if_splits)

section \<open>Splitting\<close>

text \<open>\<^verbatim>\<open>strings.Split(s, sep)\<close> for a one-byte separator: never an empty list.\<close>

fun split_on :: "char \<Rightarrow> string \<Rightarrow> string list" where
  "split_on sep [] = [[]]"
| "split_on sep (c # s) =
     (if c = sep then [] # split_on sep s
      else (case split_on sep s of [] \<Rightarrow> [[c]] | p # ps \<Rightarrow> (c # p) # ps))"

lemma split_on_nonempty [simp]: "split_on sep s \<noteq> []"
  by (cases s) (auto split: list.split)

text \<open>\<^verbatim>\<open>strings.Join(parts, sep)\<close> for a one-byte separator.\<close>

fun join_on :: "char \<Rightarrow> string list \<Rightarrow> string" where
  "join_on sep [] = []"
| "join_on sep [p] = p"
| "join_on sep (p # q # ps) = p @ sep # join_on sep (q # ps)"

lemma split_on_free: "sep \<notin> set p \<Longrightarrow> split_on sep p = [p]"
  by (induction p) auto

lemma split_on_append: "sep \<notin> set p \<Longrightarrow> split_on sep (p @ sep # s) = p # split_on sep s"
  by (induction p) auto

lemma split_join [simp]:
  "ps \<noteq> [] \<Longrightarrow> \<forall>p \<in> set ps. sep \<notin> set p \<Longrightarrow> split_on sep (join_on sep ps) = ps"
  by (induction sep ps rule: join_on.induct) (auto simp: split_on_free split_on_append)

lemma join_split [simp]: "join_on sep (split_on sep s) = s"
proof (induction s)
  case (Cons c s)
  obtain p ps where "split_on sep s = p # ps"
    by (meson split_on_nonempty neq_Nil_conv)
  with Cons show ?case
    by (cases ps) auto
qed simp

lemma split_on_tokens: "p \<in> set (split_on sep s) \<Longrightarrow> sep \<notin> set p"
  by (induction s arbitrary: p) (auto split: if_splits list.splits)

text \<open>The text before and after the first occurrence of a byte; None when there is none.\<close>

definition cut_at :: "char \<Rightarrow> string \<Rightarrow> (string \<times> string) option" where
  "cut_at sep s =
     (if sep \<in> set s then Some (takeWhile (\<lambda>c. c \<noteq> sep) s, tl (dropWhile (\<lambda>c. c \<noteq> sep) s)) else None)"

text \<open>
  The number of bytes of a leading Unicode white space character (\<^verbatim>\<open>unicode.IsSpace\<close>), 0 when the
  string does not start with one. No byte of another well-formed character is a lead byte of these
  sequences, so scanning byte by byte finds the same places as scanning rune by rune.
\<close>

definition space_len :: "string \<Rightarrow> nat" where
  "space_len s = (case map byte (take 3 s) of
     [] \<Rightarrow> 0
   | a # r \<Rightarrow>
       if (9 \<le> a \<and> a \<le> 13) \<or> a = 32 then 1
       else (case r of
          [] \<Rightarrow> 0
        | b # r' \<Rightarrow>
            if a = 194 \<and> (b = 133 \<or> b = 160) then 2
            else (case r' of
               [] \<Rightarrow> 0
             | c # _ \<Rightarrow>
                 if (a = 225 \<and> b = 154 \<and> c = 128)
                    \<or> (a = 226 \<and> b = 128 \<and> (c \<le> 138 \<and> 128 \<le> c \<or> c = 168 \<or> c = 169 \<or> c = 175))
                    \<or> (a = 226 \<and> b = 129 \<and> c = 159)
                    \<or> (a = 227 \<and> b = 128 \<and> c = 128)
                 then 3 else 0)))"

text \<open>\<^verbatim>\<open>strings.Fields\<close>: the maximal runs of bytes outside white space.\<close>

function fields_from :: "string \<Rightarrow> string \<Rightarrow> string list" where
  "fields_from cur [] = (if cur = [] then [] else [cur])"
| "fields_from cur (c # s) =
     (if 0 < space_len (c # s)
      then (if cur = [] then [] else [cur]) @ fields_from [] (drop (space_len (c # s)) (c # s))
      else fields_from (cur @ [c]) s)"
  by pat_completeness auto
termination
  by (relation "measure (\<lambda>(cur, s). length s)") auto

definition string_fields :: "string \<Rightarrow> string list" where
  "string_fields s = fields_from [] s"

lemma fields_from_nonempty: "[] \<notin> set (fields_from cur s)"
  by (induction cur s rule: fields_from.induct) auto

end
