(* ===== verification/EventBus.thy ===== *)
theory EventBus
  imports GoStrings "HOL-Library.Multiset"
begin

text \<open>
  The event bus (\<^verbatim>\<open>eventbus\<close>, \<^verbatim>\<open>eventbus/inproc\<close>) and the subjects facts travel under
  (\<^verbatim>\<open>events/subject.go\<close>): the token grammar, pattern compilation and matching, the resolvers that
  push part of a pattern to a broker, and the in-process bus as a step relation whose steps are the
  regions the code runs under one lock.
\<close>

section \<open>Subjects and patterns\<close>

abbreviation Separator :: char where "Separator \<equiv> CHR ''.''"
abbreviation TokenWildcard :: string where "TokenWildcard \<equiv> ''*''"
abbreviation TailWildcard :: string where "TailWildcard \<equiv> ''>''"

text \<open>
  The scan over runes, byte by byte: the separator and the wildcards are ASCII, and a white space
  character is recognised at its lead byte.
\<close>

fun token_scan :: "string \<Rightarrow> goerr option" where
  "token_scan [] = None"
| "token_scan (c # s) =
     (if c = Separator then Some (ErrWrap ''contains separator'' ErrInvalidToken)
      else if c = CHR ''*'' \<or> c = CHR ''>'' then Some (ErrWrap ''contains wildcard'' ErrInvalidToken)
      else if 0 < space_len (c # s) then Some (ErrWrap ''contains whitespace'' ErrInvalidToken)
      else token_scan s)"

definition ValidToken :: "string \<Rightarrow> goerr option" where
  "ValidToken s = (if s = [] then Some (ErrWrap ''empty'' ErrInvalidToken) else token_scan s)"

definition IsValidToken :: "string \<Rightarrow> bool" where
  "IsValidToken s = (ValidToken s = None)"

record bus_filter =
  fl_pattern :: string
  fl_tokens :: "string list"
  fl_tail :: bool

text \<open>The loop of \<^verbatim>\<open>Compile\<close>: None when the tail wildcard is not the final token.\<close>

fun compile_tail :: "string list \<Rightarrow> bool option" where
  "compile_tail [] = Some False"
| "compile_tail [t] = Some (t = TailWildcard)"
| "compile_tail (t # u # ts) = (if t = TailWildcard then None else compile_tail (u # ts))"

definition Compile :: "string \<Rightarrow> bus_filter res" where
  "Compile pattern =
     (if pattern = [] then Inl (ErrWrap ''empty'' ErrBadPattern)
      else let toks = split_on Separator pattern in
        case compile_tail toks of
          None \<Rightarrow> Inl (ErrWrap ''tail wildcard must be the final token'' ErrBadPattern)
        | Some tail \<Rightarrow> Inr \<lparr>fl_pattern = pattern, fl_tokens = toks, fl_tail = tail\<rparr>)"

text \<open>The loop over the pattern's tokens, from index \<^verbatim>\<open>i\<close> on.\<close>

fun match_from :: "nat \<Rightarrow> string list \<Rightarrow> string list \<Rightarrow> nat \<Rightarrow> bool" where
  "match_from i [] subj n = (n = length subj)"
| "match_from i (tok # toks) subj n =
     (if tok = TailWildcard then i < length subj
      else if tok = TokenWildcard then (if i \<ge> length subj then False else match_from (i + 1) toks subj n)
      else (if i \<ge> length subj \<or> tok \<noteq> subj ! i then False else match_from (i + 1) toks subj n))"

definition Match :: "bus_filter \<Rightarrow> string list \<Rightarrow> bool" where
  "Match f subjectTokens = match_from 0 (fl_tokens f) subjectTokens (length (fl_tokens f))"

definition MatchSubject :: "bus_filter \<Rightarrow> string \<Rightarrow> bool" where
  "MatchSubject f subject = Match f (split_on Separator subject)"

definition SubjectMatch :: "string \<Rightarrow> string \<Rightarrow> bool" where
  "SubjectMatch pattern subject =
     (let p = split_on Separator pattern; s = split_on Separator subject in match_from 0 p s (length p))"

text \<open>What the grammar says: a specification without indices.\<close>

fun pattern_spec :: "string list \<Rightarrow> string list \<Rightarrow> bool" where
  "pattern_spec [] s = (s = [])"
| "pattern_spec (t # p) [] = False"
| "pattern_spec (t # p) (x # s) = (t = TailWildcard \<or> ((t = TokenWildcard \<or> t = x) \<and> pattern_spec p s))"

lemma match_from_spec:
  "i \<le> length s \<Longrightarrow> match_from i p s (i + length p) = pattern_spec p (drop i s)"
proof (induction p arbitrary: i)
  case (Cons t p)
  show ?case
  proof (cases "i < length s")
    case True
    then have "drop i s = s ! i # drop (Suc i) s" by (simp add: Cons_nth_drop_Suc)
    with True Cons.IH [of "Suc i"] show ?thesis by auto
  qed (use Cons.prems in simp)
qed auto

lemma match_spec: "match_from 0 p s (length p) = pattern_spec p s"
  using match_from_spec [of 0 s p] by simp

lemma Match_spec: "Compile pattern = Inr f \<Longrightarrow> Match f s = pattern_spec (split_on Separator pattern) s"
  by (auto simp: Compile_def Match_def match_spec Let_def split: if_splits option.splits)

section \<open>Resolvers\<close>

definition LiteralPrefix :: "string \<Rightarrow> string \<times> bool" where
  "LiteralPrefix pattern =
     (let toks = split_on Separator pattern;
          n = length (takeWhile (\<lambda>t. \<not> (t = TokenWildcard \<or> t = TailWildcard)) toks)
      in (join_on Separator (take n toks), n = length toks))"

record route =
  rt_Target :: string
  rt_ClientFilter :: bus_filter
  rt_Exact :: bool

definition Passthrough_Resolve :: "string \<Rightarrow> route res" where
  "Passthrough_Resolve pattern =
     bind_res (Compile pattern) (\<lambda>f. Inr \<lparr>rt_Target = pattern, rt_ClientFilter = f, rt_Exact = True\<rparr>)"

definition PrefixTopic_Resolve :: "string \<Rightarrow> route res" where
  "PrefixTopic_Resolve pattern =
     bind_res (Compile pattern) (\<lambda>f.
       let (target, exact) = LiteralPrefix pattern in
       Inr \<lparr>rt_Target = target, rt_ClientFilter = f, rt_Exact = exact\<rparr>)"

definition Inproc_Resolve :: "string \<Rightarrow> route res" where
  "Inproc_Resolve pattern =
     bind_res (Compile pattern) (\<lambda>f. Inr \<lparr>rt_Target = [], rt_ClientFilter = f, rt_Exact = False\<rparr>)"

section \<open>Fact subjects\<close>

text \<open>An event type has an entity and a name.\<close>

definition subject_join :: "string \<Rightarrow> string \<Rightarrow> string \<Rightarrow> string \<Rightarrow> string" where
  "subject_join entity tenant run event =
     join_on Separator [''ingestion'', ''v1'', entity, tenant, run, event]"

definition Subject :: "string \<times> string \<Rightarrow> string \<Rightarrow> string \<Rightarrow> string" where
  "Subject t tenant run = subject_join (fst t) tenant run (snd t)"

definition SubjectPattern :: "string \<times> string \<Rightarrow> string" where
  "SubjectPattern t = subject_join (fst t) TokenWildcard TokenWildcard (snd t)"

definition RunPattern :: "string \<Rightarrow> string \<Rightarrow> string" where
  "RunPattern tenant run = subject_join TokenWildcard tenant run TokenWildcard"

definition AllPattern :: string where
  "AllPattern = join_on Separator [''ingestion'', ''v1'', TailWildcard]"

lemma token_scan_None: "token_scan s = None \<Longrightarrow> set s \<inter> {Separator, CHR ''*'', CHR ''>''} = {}"
  by (induction s) (auto split: if_splits)

lemma ValidToken_literal:
  assumes "IsValidToken s"
  shows "Separator \<notin> set s" "s \<noteq> TokenWildcard" "s \<noteq> TailWildcard"
  using assms token_scan_None [of s] by (auto simp: IsValidToken_def ValidToken_def split: if_splits)

lemma subject_tokens:
  assumes "\<forall>t \<in> {entity, tenant, run, event}. Separator \<notin> set t"
  shows "split_on Separator (subject_join entity tenant run event) =
    [''ingestion'', ''v1'', entity, tenant, run, event]"
  using assms unfolding subject_join_def by (intro split_join) auto

text \<open>
  C32: subscriptions isolate runs and event kinds. When tenant, run, entity and event names are valid
  tokens, the pattern of one run matches exactly the facts of that tenant's run, and the pattern of
  one event type matches exactly the facts of that type, whoever they belong to.
\<close>

theorem subscriptions_isolate:
  assumes "\<forall>x \<in> {tenant, run, tenant', run', fst t, snd t, fst t', snd t'}. IsValidToken x"
  shows "(SubjectMatch (RunPattern tenant run) (Subject t tenant' run') \<longleftrightarrow> tenant = tenant' \<and> run = run') \<and>
    (SubjectMatch (SubjectPattern t) (Subject t' tenant run) \<longleftrightarrow> t = t') \<and>
    SubjectMatch AllPattern (Subject t tenant run)"
proof (intro conjI)
  have lit: "Separator \<notin> set x \<and> x \<noteq> TokenWildcard \<and> x \<noteq> TailWildcard"
    if "x \<in> {tenant, run, tenant', run', fst t, snd t, fst t', snd t'}" for x
    using assms that ValidToken_literal by blast
  then show "SubjectMatch (RunPattern tenant run) (Subject t tenant' run') \<longleftrightarrow> tenant = tenant' \<and> run = run'"
    by (simp add: SubjectMatch_def match_spec RunPattern_def Subject_def subject_tokens)
  show "SubjectMatch (SubjectPattern t) (Subject t' tenant run) \<longleftrightarrow> t = t'"
    using lit
    by (simp add: SubjectMatch_def match_spec SubjectPattern_def Subject_def subject_tokens prod_eq_iff)
  have "split_on Separator AllPattern = [''ingestion'', ''v1'', TailWildcard]"
    by (simp add: AllPattern_def)
  then show "SubjectMatch AllPattern (Subject t tenant run)"
    using lit by (simp add: SubjectMatch_def match_spec Subject_def subject_tokens)
qed

theorem subscriptions_isolate_witness:
  "\<not> SubjectMatch (RunPattern ''T1'' ''R1'') (Subject (''run'', ''started'') ''T1'' ''R2'')"
  by (subst subscriptions_isolate [of _ _ _ _ "(''run'', ''started'')" "(''run'', ''started'')", THEN conjunct1])
    (simp_all add: IsValidToken_def ValidToken_def space_len_def byte_def)

lemma pattern_spec_literal:
  "list_all (\<lambda>t. t \<noteq> TokenWildcard \<and> t \<noteq> TailWildcard) p \<Longrightarrow> pattern_spec p s \<longleftrightarrow> p = s"
  by (induction p s rule: pattern_spec.induct) auto

lemma pattern_spec_prefix:
  "pattern_spec p s \<Longrightarrow> prefix (takeWhile (\<lambda>t. t \<noteq> TokenWildcard \<and> t \<noteq> TailWildcard) p) s"
  by (induction p s rule: pattern_spec.induct) auto

text \<open>
  C33: routing through a broker with flat topics loses nothing. The resolved target is the literal
  token run that starts the pattern: every subject the client filter accepts extends it, and when
  the route calls itself exact the filter accepts the target and nothing else.
\<close>

theorem prefix_route_sound:
  assumes "PrefixTopic_Resolve pattern = Inr r"
  shows "(MatchSubject (rt_ClientFilter r) s \<longrightarrow>
      rt_Target r = [] \<or> prefix (split_on Separator (rt_Target r)) (split_on Separator s)) \<and>
    (rt_Exact r \<longrightarrow> (MatchSubject (rt_ClientFilter r) s \<longleftrightarrow> s = rt_Target r))"
proof (intro conjI impI)
  let ?toks = "split_on Separator pattern"
  let ?lit = "takeWhile (\<lambda>t. t \<noteq> TokenWildcard \<and> t \<noteq> TailWildcard) ?toks"
  from assms obtain f where f: "Compile pattern = Inr f" and r: "rt_ClientFilter r = f"
    "rt_Target r = join_on Separator ?lit" "rt_Exact r \<longleftrightarrow> length ?lit = length ?toks"
    by (auto simp: PrefixTopic_Resolve_def bind_res_Inr LiteralPrefix_def Let_def takeWhile_eq_take [symmetric])
  have match: "MatchSubject f s = pattern_spec ?toks (split_on Separator s)"
    using Match_spec [OF f] by (simp add: MatchSubject_def)
  have free: "\<forall>t \<in> set ?lit. Separator \<notin> set t"
    by (auto dest!: set_takeWhileD split_on_tokens)
  show "rt_Target r = [] \<or> prefix (split_on Separator (rt_Target r)) (split_on Separator s)"
    if that: "MatchSubject (rt_ClientFilter r) s"
    using that pattern_spec_prefix [of ?toks] free by (cases "?lit = []") (auto simp: r match)
  show "MatchSubject (rt_ClientFilter r) s \<longleftrightarrow> s = rt_Target r" if "rt_Exact r"
  proof -
    have "?lit = take (length ?lit) ?toks"
      by (rule takeWhile_eq_take)
    also have "\<dots> = ?toks"
      using that r(3) by simp
    finally have all: "?lit = ?toks" .
    then have "list_all (\<lambda>t. t \<noteq> TokenWildcard \<and> t \<noteq> TailWildcard) ?toks"
      by (simp add: list_all_iff)
    then have "MatchSubject f s \<longleftrightarrow> ?toks = split_on Separator s"
      by (simp add: match pattern_spec_literal)
    also have "\<dots> \<longleftrightarrow> s = pattern"
      by (metis join_split)
    finally show ?thesis
      unfolding r(1,2) all by simp
  qed
qed

theorem prefix_route_sound_witness:
  "\<exists>r. PrefixTopic_Resolve ''a.b'' = Inr r \<and> rt_Exact r \<and>
    (MatchSubject (rt_ClientFilter r) ''a.b'' \<longleftrightarrow> ''a.b'' = rt_Target r)"
proof -
  define r where "r = projr (PrefixTopic_Resolve ''a.b'')"
  have r: "PrefixTopic_Resolve ''a.b'' = Inr r" "rt_Exact r"
    by (simp_all add: r_def PrefixTopic_Resolve_def Compile_def LiteralPrefix_def)
  with prefix_route_sound [OF r(1), of "''a.b''"] show ?thesis
    by blast
qed

section \<open>The in-process bus\<close>

text \<open>
  Payloads are any type. A subscription's fields are the struct's; \<open>sub_registered\<close> is its membership
  in \<^verbatim>\<open>Bus.subs\<close>, \<open>sub_held\<close> the message its drain goroutine has taken off the queue, \<open>sub_ch\<close> what was
  handed to the consumer so far, and \<open>sub_from\<close>, \<open>sub_start\<close> record its replay start and the bus
  sequence at the moment it was registered. A subscription's identity is its index.
\<close>

record 'p bus_record =
  br_seq :: nat
  br_tokens :: "string list"
  br_subject :: string
  br_payload :: 'p

record 'p bus_message =
  bm_rec :: "'p bus_record"
  bm_tries :: nat

record 'p subscription =
  sub_filter :: bus_filter
  sub_registered :: bool
  sub_closed :: bool
  sub_queue :: "'p bus_message list"
  sub_held :: "'p bus_message option"
  sub_ch :: "'p bus_message list"
  sub_from :: nat
  sub_start :: nat

type_synonym 'p fanout = "(nat \<times> 'p bus_message) list"

text \<open>\<open>bus_fanouts\<close> holds, for each call of Publish or Subscribe past its locked region, the messages it
  has yet to enqueue.\<close>

record 'p bus =
  bus_seq :: nat
  bus_log :: "'p bus_record list"
  bus_subs :: "'p subscription list"
  bus_closed :: bool
  bus_maxLog :: nat
  bus_maxDeliveries :: nat
  bus_fanouts :: "'p fanout list"

definition newMessage :: "'p bus_record \<Rightarrow> 'p bus_message" where
  "newMessage rec = \<lparr>bm_rec = rec, bm_tries = 1\<rparr>"

definition evict :: "nat \<Rightarrow> 'a list \<Rightarrow> 'a list" where
  "evict maxLog log =
     (if maxLog > 0 \<and> length log \<ge> 2 * maxLog then drop (length log - maxLog) log else log)"

definition matchingLocked :: "'p bus \<Rightarrow> 'p bus_record \<Rightarrow> nat list" where
  "matchingLocked b rec =
     filter (\<lambda>i. sub_registered (bus_subs b ! i) \<and> Match (sub_filter (bus_subs b ! i)) (br_tokens rec))
       [0 ..< length (bus_subs b)]"

definition next_record :: "'p bus \<Rightarrow> string \<Rightarrow> 'p \<Rightarrow> 'p bus_record" where
  "next_record b subject payload =
     \<lparr>br_seq = bus_seq b + 1, br_tokens = split_on Separator subject, br_subject = subject, br_payload = payload\<rparr>"

text \<open>The locked region of \<^verbatim>\<open>Publish\<close>; the targets come in the iteration order of a Go map.\<close>

definition Publish_check :: "goerr option \<Rightarrow> 'p bus \<Rightarrow> string \<Rightarrow> goerr option" where
  "Publish_check ctx_err b subject =
     orelse_err ctx_err
       (if subject = [] then Some (ErrWrap ''empty subject'' ErrInvalidToken)
        else if bus_closed b then Some ErrBusClosed else None)"

definition Publish_locked :: "nat list \<Rightarrow> string \<Rightarrow> 'p \<Rightarrow> 'p bus \<Rightarrow> 'p bus" where
  "Publish_locked targets subject payload b =
     (let rec = next_record b subject payload in
      b\<lparr>bus_seq := br_seq rec,
        bus_log := evict (bus_maxLog b) (bus_log b @ [rec]),
        bus_fanouts := bus_fanouts b @ [map (\<lambda>i. (i, newMessage rec)) targets]\<rparr>)"

definition history :: "'p bus \<Rightarrow> bus_filter \<Rightarrow> nat \<Rightarrow> 'p bus_record list" where
  "history b f fromSeq =
     (if fromSeq > 0 then filter (\<lambda>rec. br_seq rec \<ge> fromSeq \<and> Match f (br_tokens rec)) (bus_log b) else [])"

definition newSubscription :: "bus_filter \<Rightarrow> nat \<Rightarrow> nat \<Rightarrow> 'p subscription" where
  "newSubscription f fromSeq start =
     \<lparr>sub_filter = f, sub_registered = True, sub_closed = False, sub_queue = [], sub_held = None, sub_ch = [],
      sub_from = fromSeq, sub_start = start\<rparr>"

definition subscribe :: "string \<Rightarrow> nat \<Rightarrow> 'p bus \<Rightarrow> 'p bus \<times> goerr option" where
  "subscribe pattern fromSeq b =
     (case Inproc_Resolve pattern of
        Inl e \<Rightarrow> (b, Some e)
      | Inr route \<Rightarrow>
          if bus_closed b then (b, Some ErrBusClosed)
          else
            (let f = rt_ClientFilter route in
             (b\<lparr>bus_subs := bus_subs b @ [newSubscription f fromSeq (bus_seq b)],
                bus_fanouts := bus_fanouts b @
                  [map (\<lambda>rec. (length (bus_subs b), newMessage rec)) (history b f fromSeq)]\<rparr>, None)))"

definition Replay_from :: "nat \<Rightarrow> nat" where
  "Replay_from fromSeq = (if fromSeq = 0 then 1 else fromSeq)"

definition enqueue :: "'p bus_message \<Rightarrow> 'p subscription \<Rightarrow> 'p subscription" where
  "enqueue m s = (if sub_closed s then s else s\<lparr>sub_queue := sub_queue s @ [m]\<rparr>)"

definition drain_take :: "'p subscription \<Rightarrow> 'p subscription" where
  "drain_take s =
     (case sub_queue s of [] \<Rightarrow> s | m # q \<Rightarrow> s\<lparr>sub_queue := q, sub_held := Some m\<rparr>)"

definition drain_send :: "'p subscription \<Rightarrow> 'p subscription" where
  "drain_send s =
     (case sub_held s of None \<Rightarrow> s | Some m \<Rightarrow> s\<lparr>sub_held := None, sub_ch := sub_ch s @ [m]\<rparr>)"

definition sub_msgs :: "'p subscription \<Rightarrow> 'p bus_message list" where
  "sub_msgs s = sub_ch s @ (case sub_held s of None \<Rightarrow> [] | Some m \<Rightarrow> [m]) @ sub_queue s"

text \<open>
  A redelivery puts the same message object in the queue again, so its \<^verbatim>\<open>tries\<close> field counts for every
  occurrence. An occurrence here carries the number of its own delivery, and the field of the object
  is the number of its latest one; a subscription has one message object per record.
\<close>

definition msg_tries :: "'p bus_message \<Rightarrow> 'p subscription \<Rightarrow> nat" where
  "msg_tries m s = foldr max (map bm_tries (filter (\<lambda>x. br_seq (bm_rec x) = br_seq (bm_rec m)) (sub_msgs s))) 0"

definition Nak :: "nat \<Rightarrow> 'p bus_message \<Rightarrow> 'p subscription \<Rightarrow> 'p subscription" where
  "Nak maxDeliveries m s =
     (if maxDeliveries > 0 \<and> msg_tries m s \<ge> maxDeliveries then s
      else enqueue (m\<lparr>bm_tries := msg_tries m s + 1\<rparr>) s)"

definition sub_update :: "nat \<Rightarrow> ('p subscription \<Rightarrow> 'p subscription) \<Rightarrow> 'p bus \<Rightarrow> 'p bus" where
  "sub_update i f b = b\<lparr>bus_subs := (bus_subs b)[i := f (bus_subs b ! i)]\<rparr>"

text \<open>
  Closing a subscription: its locked region, then its removal from the bus. Closing the bus gives the
  subscriptions it goes on to close; a subscription may be closed at any moment, by the bus or by its
  consumer.
\<close>

definition sub_Close :: "'p subscription \<Rightarrow> 'p subscription" where
  "sub_Close s = (if sub_closed s then s else s\<lparr>sub_closed := True\<rparr>)"

definition bus_remove :: "'p subscription \<Rightarrow> 'p subscription" where
  "bus_remove s = s\<lparr>sub_registered := False\<rparr>"

definition Bus_Close :: "'p bus \<Rightarrow> 'p bus \<times> nat list" where
  "Bus_Close b =
     (if bus_closed b then (b, [])
      else (b\<lparr>bus_closed := True\<rparr>, filter (\<lambda>i. sub_registered (bus_subs b ! i)) [0 ..< length (bus_subs b)]))"

text \<open>One locked region, or one hand-over, of any goroutine.\<close>

inductive bus_step :: "'p bus \<Rightarrow> 'p bus \<Rightarrow> bool" where
  publish: "Publish_check ctx_err b subject = None \<Longrightarrow> mset targets = mset (matchingLocked b (next_record b subject payload)) \<Longrightarrow>
    bus_step b (Publish_locked targets subject payload b)"
| subscribe: "bus_step b (fst (subscribe pattern fromSeq b))"
| fanout: "k < length (bus_fanouts b) \<Longrightarrow> bus_fanouts b ! k = (i, m) # rest \<Longrightarrow> i < length (bus_subs b) \<Longrightarrow>
    bus_step b (sub_update i (enqueue m) (b\<lparr>bus_fanouts := (bus_fanouts b)[k := rest]\<rparr>))"
| take: "i < length (bus_subs b) \<Longrightarrow> sub_held (bus_subs b ! i) = None \<Longrightarrow> bus_step b (sub_update i drain_take b)"
| send: "i < length (bus_subs b) \<Longrightarrow> \<not> sub_closed (bus_subs b ! i) \<Longrightarrow> bus_step b (sub_update i drain_send b)"
| nak: "i < length (bus_subs b) \<Longrightarrow> m \<in> set (sub_ch (bus_subs b ! i)) \<Longrightarrow>
    bus_step b (sub_update i (Nak (bus_maxDeliveries b) m) b)"
| close_sub: "i < length (bus_subs b) \<Longrightarrow> bus_step b (sub_update i sub_Close b)"
| remove: "i < length (bus_subs b) \<Longrightarrow> sub_closed (bus_subs b ! i) \<Longrightarrow>
    bus_step b (sub_update i bus_remove b)"
| close_bus: "bus_step b (fst (Bus_Close b))"

definition bus_new :: "nat \<Rightarrow> nat \<Rightarrow> 'p bus" where
  "bus_new maxLog maxDeliveries =
     \<lparr>bus_seq = 0, bus_log = [], bus_subs = [], bus_closed = False, bus_maxLog = maxLog,
      bus_maxDeliveries = maxDeliveries, bus_fanouts = []\<rparr>"

subsection \<open>Exactly one first delivery\<close>

definition first_tries :: "'p bus_message list \<Rightarrow> 'p bus_record list" where
  "first_tries ms = map bm_rec (filter (\<lambda>m. bm_tries m = 1) ms)"

definition pending :: "'p bus \<Rightarrow> nat \<Rightarrow> 'p bus_message list" where
  "pending b i = map snd (filter (\<lambda>p. fst p = i) (concat (bus_fanouts b)))"

definition wanted :: "'p subscription \<Rightarrow> 'p bus_record \<Rightarrow> bool" where
  "wanted s rec = (Match (sub_filter s) (br_tokens rec) \<and>
     (br_seq rec > sub_start s \<or> (sub_from s > 0 \<and> br_seq rec \<ge> sub_from s)))"

definition sub_inv :: "'p bus \<Rightarrow> nat \<Rightarrow> bool" where
  "sub_inv b i = (let s = bus_subs b ! i in
     sub_start s \<le> bus_seq b \<and> (\<forall>m \<in> set (sub_msgs s). bm_tries m \<ge> 1) \<and>
     (\<not> sub_closed s \<longrightarrow> sub_registered s \<and>
        mset (first_tries (sub_msgs s)) + mset (first_tries (pending b i)) = mset (filter (wanted s) (bus_log b))))"

definition bus_inv :: "'p bus \<Rightarrow> bool" where
  "bus_inv b = (bus_maxLog b = 0 \<and> map br_seq (bus_log b) = [1 ..< bus_seq b + 1] \<and>
     (\<forall>(i, m) \<in> set (concat (bus_fanouts b)). i < length (bus_subs b) \<and> bm_tries m \<ge> 1) \<and>
     (\<forall>i < length (bus_subs b). sub_inv b i))"

lemma first_tries_simps [simp]:
  "first_tries [] = []" "first_tries (xs @ ys) = first_tries xs @ first_tries ys"
  "first_tries (m # xs) = (if bm_tries m = 1 then bm_rec m # first_tries xs else first_tries xs)"
  by (simp_all add: first_tries_def)

lemma seqs_bounded: "map br_seq log = [1 ..< n + 1] \<Longrightarrow> r \<in> set log \<Longrightarrow> br_seq r \<le> n"
  by (metis atLeastLessThan_iff image_eqI list.set_map set_upt less_Suc_eq_le Suc_eq_plus1)

lemma concat_update:
  "k < length xss \<Longrightarrow> xss ! k = x # rest \<Longrightarrow> mset (concat xss) = add_mset x (mset (concat (xss[k := rest])))"
  by (subst (1) id_take_nth_drop [of k xss]) (simp_all add: upd_conv_take_nth_drop)

lemma mset_first_tries: "mset xs = mset ys \<Longrightarrow> mset (first_tries xs) = mset (first_tries ys)"
  by (simp add: first_tries_def)

lemma matching_mset:
  assumes "mset targets = mset (matchingLocked b rec)" "i < length (bus_subs b)"
  shows "filter (\<lambda>j. j = i) targets =
    (if sub_registered (bus_subs b ! i) \<and> Match (sub_filter (bus_subs b ! i)) (br_tokens rec) then [i] else [])"
proof -
  have "distinct targets" "set targets = set (matchingLocked b rec)"
    using mset_eq_imp_distinct_iff [OF assms(1)] mset_eq_setD [OF assms(1)] by (simp_all add: matchingLocked_def)
  moreover have "filter (\<lambda>j. j = i) xs = (if i \<in> set xs then [i] else [])" if "distinct xs" for xs
    using that by (induction xs) auto
  ultimately show ?thesis
    using assms(2) by (simp add: matchingLocked_def)
qed

text \<open>A step that only rearranges one subscription's own messages keeps the invariant.\<close>

lemma sub_update_inv:
  assumes inv: "bus_inv b" and i: "i < length (bus_subs b)"
    and keep: "sub_filter (f s) = sub_filter s" "sub_start (f s) = sub_start s" "sub_from (f s) = sub_from s"
    and tries: "\<forall>m \<in> set (sub_msgs (f s)). bm_tries m \<ge> 1"
    and count: "\<not> sub_closed (f s) \<Longrightarrow> \<not> sub_closed s \<and> sub_registered (f s) = sub_registered s \<and>
      mset (first_tries (sub_msgs (f s))) = mset (first_tries (sub_msgs s))"
    and s: "s = bus_subs b ! i"
  shows "bus_inv (sub_update i f b)"
proof -
  have "wanted (f s) = wanted s"
    by (intro ext) (simp add: wanted_def keep)
  moreover have "sub_inv b i"
    using inv i by (simp add: bus_inv_def)
  ultimately have "sub_inv (sub_update i f b) i"
    using i tries count keep unfolding s by (auto simp: sub_inv_def Let_def sub_update_def pending_def)
  moreover have "sub_inv (sub_update i f b) j" if "sub_inv b j" "j \<noteq> i" for j
    using that by (simp add: sub_inv_def Let_def sub_update_def pending_def)
  ultimately show ?thesis
    using inv unfolding bus_inv_def by (auto simp: sub_update_def)
qed

lemma publish_inv:
  assumes inv: "bus_inv b" and targets: "mset targets = mset (matchingLocked b (next_record b subject payload))"
  shows "bus_inv (Publish_locked targets subject payload b)"
proof -
  define rec where "rec = next_record b subject payload"
  define b' where "b' = Publish_locked targets subject payload b"
  have b': "bus_log b' = bus_log b @ [rec]" "bus_seq b' = bus_seq b + 1" "bus_subs b' = bus_subs b"
    "bus_maxLog b' = 0" "bus_fanouts b' = bus_fanouts b @ [map (\<lambda>i. (i, newMessage rec)) targets]"
    using inv by (simp_all add: b'_def Publish_locked_def Let_def rec_def evict_def bus_inv_def next_record_def)
  have seq: "br_seq rec = bus_seq b + 1"
    by (simp add: rec_def next_record_def)
  have "sub_inv b' i" if i: "i < length (bus_subs b)" for i
  proof -
    have "pending b' i = pending b i @ map (\<lambda>_. newMessage rec) (filter (\<lambda>j. j = i) targets)"
      by (simp add: pending_def b' filter_map comp_def)
    moreover have "filter (\<lambda>j. j = i) targets =
        (if sub_registered (bus_subs b ! i) \<and> Match (sub_filter (bus_subs b ! i)) (br_tokens rec) then [i] else [])"
      using matching_mset [OF targets i] by (simp add: rec_def)
    moreover have "wanted (bus_subs b ! i) rec = Match (sub_filter (bus_subs b ! i)) (br_tokens rec)"
      if "sub_start (bus_subs b ! i) \<le> bus_seq b"
      using that by (auto simp: wanted_def seq)
    moreover have "sub_inv b i"
      using inv i by (simp add: bus_inv_def)
    ultimately show ?thesis
      by (auto simp: sub_inv_def Let_def b' newMessage_def)
  qed
  moreover have "set targets \<subseteq> {..< length (bus_subs b)}"
    using mset_eq_setD [OF targets] by (auto simp: matchingLocked_def)
  ultimately show ?thesis
    using inv unfolding b'_def [symmetric] bus_inv_def
    by (auto simp: b' seq newMessage_def)
qed

lemma subscribe_inv:
  assumes inv: "bus_inv b"
  shows "bus_inv (fst (subscribe pattern fromSeq b))"
proof (cases "\<exists>r. Inproc_Resolve pattern = Inr r \<and> \<not> bus_closed b")
  case True
  then obtain r where r: "Inproc_Resolve pattern = Inr r" "\<not> bus_closed b" by blast
  define f where "f = rt_ClientFilter r"
  define b' where "b' = fst (subscribe pattern fromSeq b)"
  let ?n = "length (bus_subs b)" let ?s = "newSubscription f fromSeq (bus_seq b) :: 'a subscription"
  have b': "bus_log b' = bus_log b" "bus_seq b' = bus_seq b" "bus_subs b' = bus_subs b @ [?s]"
    "bus_maxLog b' = bus_maxLog b"
    "bus_fanouts b' = bus_fanouts b @ [map (\<lambda>rec. (?n, newMessage rec)) (history b f fromSeq)]"
    using r by (simp_all add: b'_def subscribe_def Let_def f_def)
  have old: "\<forall>(i, m) \<in> set (concat (bus_fanouts b)). i < ?n"
    using inv by (auto simp: bus_inv_def)
  have pend: "pending b' i = pending b i @ (if i = ?n then map newMessage (history b f fromSeq) else [])" for i
    by (simp add: pending_def b' filter_map comp_def)
  have "pending b ?n = []"
    using old by (fastforce simp: pending_def filter_empty_conv)
  moreover have "filter (wanted ?s) (bus_log b) = history b f fromSeq"
  proof -
    have "br_seq r \<le> bus_seq b" if "r \<in> set (bus_log b)" for r
      using inv that by (intro seqs_bounded) (simp_all add: bus_inv_def)
    then have "wanted ?s r \<longleftrightarrow> Match f (br_tokens r) \<and> fromSeq > 0 \<and> br_seq r \<ge> fromSeq" if "r \<in> set (bus_log b)" for r
      using that by (fastforce simp: wanted_def newSubscription_def)
    then show ?thesis
      by (auto simp: history_def filter_empty_conv intro!: filter_cong)
  qed
  moreover have "first_tries (map newMessage rs) = rs" for rs :: "'a bus_record list"
    by (induction rs) (auto simp: newMessage_def)
  ultimately have "sub_inv b' ?n"
    by (simp add: sub_inv_def Let_def b' pend newSubscription_def sub_msgs_def del: mset_filter)
  moreover have "sub_inv b' i" if "i < ?n" for i
    using that inv by (simp add: bus_inv_def sub_inv_def Let_def b' pend nth_append)
  ultimately show ?thesis
    using inv unfolding b'_def [symmetric] bus_inv_def
    by (auto simp: b' newMessage_def less_Suc_eq)
next
  case False
  then have "fst (subscribe pattern fromSeq b) = b"
    by (auto simp: subscribe_def split: sum.splits)
  with inv show ?thesis by simp
qed

lemma fanout_inv:
  assumes inv: "bus_inv b" and k: "k < length (bus_fanouts b)" "bus_fanouts b ! k = (i, m) # rest"
    and i: "i < length (bus_subs b)"
  shows "bus_inv (sub_update i (enqueue m) (b\<lparr>bus_fanouts := (bus_fanouts b)[k := rest]\<rparr>))"
proof -
  define b' where "b' = sub_update i (enqueue m) (b\<lparr>bus_fanouts := (bus_fanouts b)[k := rest]\<rparr>)"
  have split: "mset (concat (bus_fanouts b)) = add_mset (i, m) (mset (concat ((bus_fanouts b)[k := rest])))"
    using concat_update [OF k] .
  have b': "bus_log b' = bus_log b" "bus_seq b' = bus_seq b" "bus_maxLog b' = bus_maxLog b"
    "bus_subs b' = (bus_subs b)[i := enqueue m (bus_subs b ! i)]" "bus_fanouts b' = (bus_fanouts b)[k := rest]"
    by (simp_all add: b'_def sub_update_def)
  have "mset (pending b j) = mset (if j = i then m # pending b' j else pending b' j)" for j
    by (simp add: pending_def split b' del: mset_concat)
  then have pend: "mset (first_tries (pending b j)) = mset (first_tries (if j = i then m # pending b' j else pending b' j))" for j
    by (rule mset_first_tries)
  have fan: "\<forall>(j, x) \<in> set (concat (bus_fanouts b)). j < length (bus_subs b) \<and> bm_tries x \<ge> 1"
    using inv by (simp add: bus_inv_def)
  have sub: "set (concat (bus_fanouts b)) = insert (i, m) (set (concat (bus_fanouts b')))"
    using arg_cong [OF split, of set_mset] by (simp add: b' del: set_concat mset_concat)
  have "bm_tries m \<ge> 1"
    using fan unfolding sub by auto
  moreover have "wanted (enqueue m s) = wanted s" for s :: "'a subscription"
    by (intro ext) (simp add: wanted_def enqueue_def)
  moreover have "sub_inv b i"
    using inv i by (simp add: bus_inv_def)
  ultimately have "sub_inv b' i"
    using i pend [of i] by (auto simp: sub_inv_def Let_def b' enqueue_def sub_msgs_def ac_simps)
  moreover have "sub_inv b' j" if "j < length (bus_subs b)" "j \<noteq> i" for j
  proof -
    have "sub_inv b j"
      using inv that by (simp add: bus_inv_def)
    then show ?thesis
      using that pend [of j] by (simp add: sub_inv_def Let_def b')
  qed
  ultimately show ?thesis
    using inv fan unfolding b'_def [symmetric] bus_inv_def sub by (auto simp: b')
qed

lemma drain_take_inv:
  assumes inv: "bus_inv b" and i: "i < length (bus_subs b)" and held: "sub_held (bus_subs b ! i) = None"
  shows "bus_inv (sub_update i drain_take b)"
proof (rule sub_update_inv [OF inv i])
  have "sub_msgs (drain_take (bus_subs b ! i)) = sub_msgs (bus_subs b ! i)"
    using held by (simp add: drain_take_def sub_msgs_def split: list.split)
  then show "\<forall>m \<in> set (sub_msgs (drain_take (bus_subs b ! i))). bm_tries m \<ge> 1"
    "\<not> sub_closed (drain_take (bus_subs b ! i)) \<Longrightarrow> \<not> sub_closed (bus_subs b ! i) \<and>
      sub_registered (drain_take (bus_subs b ! i)) = sub_registered (bus_subs b ! i) \<and>
      mset (first_tries (sub_msgs (drain_take (bus_subs b ! i)))) = mset (first_tries (sub_msgs (bus_subs b ! i)))"
    using inv i by (auto simp: bus_inv_def sub_inv_def Let_def drain_take_def split: list.splits)
qed (simp_all add: drain_take_def split: list.split)

lemma drain_send_inv:
  assumes inv: "bus_inv b" and i: "i < length (bus_subs b)"
  shows "bus_inv (sub_update i drain_send b)"
proof (rule sub_update_inv [OF inv i])
  have "sub_msgs (drain_send (bus_subs b ! i)) = sub_msgs (bus_subs b ! i)"
    by (simp add: drain_send_def sub_msgs_def split: option.split)
  then show "\<forall>m \<in> set (sub_msgs (drain_send (bus_subs b ! i))). bm_tries m \<ge> 1"
    "\<not> sub_closed (drain_send (bus_subs b ! i)) \<Longrightarrow> \<not> sub_closed (bus_subs b ! i) \<and>
      sub_registered (drain_send (bus_subs b ! i)) = sub_registered (bus_subs b ! i) \<and>
      mset (first_tries (sub_msgs (drain_send (bus_subs b ! i)))) = mset (first_tries (sub_msgs (bus_subs b ! i)))"
    using inv i by (auto simp: bus_inv_def sub_inv_def Let_def drain_send_def split: option.splits)
qed (simp_all add: drain_send_def split: option.split)

lemma msg_tries_ge: "m \<in> set (sub_msgs s) \<Longrightarrow> bm_tries m \<le> msg_tries m s"
proof -
  have "x \<in> set xs \<Longrightarrow> x \<le> foldr max xs 0" for x :: nat and xs
    by (induction xs) auto
  then show "m \<in> set (sub_msgs s) \<Longrightarrow> bm_tries m \<le> msg_tries m s"
    by (simp add: msg_tries_def)
qed

lemma nak_inv:
  assumes inv: "bus_inv b" and i: "i < length (bus_subs b)" and m: "m \<in> set (sub_ch (bus_subs b ! i))"
  shows "bus_inv (sub_update i (Nak d m) b)"
proof (rule sub_update_inv [OF inv i])
  have "\<forall>m \<in> set (sub_msgs (bus_subs b ! i)). bm_tries m \<ge> 1"
    using inv i by (simp add: bus_inv_def sub_inv_def Let_def)
  moreover from this have "msg_tries m (bus_subs b ! i) \<ge> 1"
    using m msg_tries_ge [of m "bus_subs b ! i"] by (force simp: sub_msgs_def)
  ultimately show "\<forall>x \<in> set (sub_msgs (Nak d m (bus_subs b ! i))). bm_tries x \<ge> 1"
    "\<not> sub_closed (Nak d m (bus_subs b ! i)) \<Longrightarrow> \<not> sub_closed (bus_subs b ! i) \<and>
      sub_registered (Nak d m (bus_subs b ! i)) = sub_registered (bus_subs b ! i) \<and>
      mset (first_tries (sub_msgs (Nak d m (bus_subs b ! i)))) = mset (first_tries (sub_msgs (bus_subs b ! i)))"
    by (auto simp: Nak_def enqueue_def sub_msgs_def split: if_splits)
qed (simp_all add: Nak_def enqueue_def)

lemma bus_step_inv: "bus_step b b' \<Longrightarrow> bus_inv b \<Longrightarrow> bus_inv b'"
proof (induction rule: bus_step.induct)
  case (close_sub i b)
  then show ?case
    by (intro sub_update_inv) (auto simp: sub_Close_def bus_inv_def sub_inv_def Let_def sub_msgs_def)
next
  case (remove i b)
  then show ?case
    by (intro sub_update_inv) (auto simp: bus_remove_def bus_inv_def sub_inv_def Let_def sub_msgs_def)
next
  case (close_bus b)
  then show ?case
    by (simp add: Bus_Close_def) (simp add: bus_inv_def sub_inv_def Let_def pending_def)
qed (auto intro: publish_inv subscribe_inv fanout_inv drain_take_inv drain_send_inv nak_inv)

lemma bus_new_inv: "bus_inv (bus_new 0 d)"
  by (simp add: bus_inv_def bus_new_def)

text \<open>
  C16: the in-process bus loses and duplicates nothing. Take any interleaving of publishers,
  subscribers, drains, redeliveries and closes on a bus with an unbounded log, the default, and an open
  subscription whose fan-out is complete. The first deliveries it was handed, holds or has queued
  are exactly the logged records that match its pattern and were published after it registered or
  belong to the backlog it asked for, each once; and the log holds every sequence number up to the
  last one assigned.
\<close>

theorem bus_delivers_exactly_once:
  assumes "bus_step\<^sup>*\<^sup>* (bus_new 0 maxDeliveries) b" "i < length (bus_subs b)"
    "\<not> sub_closed (bus_subs b ! i)" "pending b i = []"
  shows "mset (first_tries (sub_msgs (bus_subs b ! i))) = mset (filter (wanted (bus_subs b ! i)) (bus_log b)) \<and>
    map br_seq (bus_log b) = [1 ..< bus_seq b + 1]"
proof -
  have "bus_inv b"
    using assms(1) by (induction rule: rtranclp_induct) (auto intro: bus_new_inv bus_step_inv)
  then show ?thesis
    using assms(2-4) by (auto simp: bus_inv_def sub_inv_def Let_def)
qed

text \<open>Two publishers to one subscription: both pass their locked region, then the second enqueues first.\<close>

definition race_filter :: bus_filter where
  "race_filter = \<lparr>fl_pattern = ''a'', fl_tokens = [''a''], fl_tail = False\<rparr>"

definition race_rec :: "nat \<Rightarrow> unit bus_record" where
  "race_rec n = \<lparr>br_seq = n, br_tokens = [''a''], br_subject = ''a'', br_payload = ()\<rparr>"

definition race_bus :: "nat \<Rightarrow> nat list \<Rightarrow> nat list list \<Rightarrow> unit bus" where
  "race_bus n queue fans =
     \<lparr>bus_seq = n, bus_log = map race_rec [1 ..< n + 1],
      bus_subs = [(newSubscription race_filter 0 0)\<lparr>sub_queue := map (newMessage \<circ> race_rec) queue\<rparr>],
      bus_closed = False, bus_maxLog = 0, bus_maxDeliveries = 16,
      bus_fanouts = map (map (\<lambda>k. (0, newMessage (race_rec k)))) fans\<rparr>"

lemmas race_defs = race_bus_def race_rec_def race_filter_def bus_new_def newSubscription_def newMessage_def

lemma race_subscribe: "bus_step (bus_new 0 16) (race_bus 0 [] [[]])"
proof -
  have "fst (subscribe ''a'' 0 (bus_new 0 16)) = race_bus 0 [] [[]]"
    by (simp add: subscribe_def Inproc_Resolve_def Compile_def history_def race_defs)
  then show ?thesis by (metis bus_step.subscribe)
qed

lemma race_publish: "bus_step (race_bus n q fans) (race_bus (Suc n) q (fans @ [[Suc n]]))"
proof -
  have "Match race_filter [''a'']" by (simp add: Match_def race_filter_def)
  then have "matchingLocked (race_bus n q fans) (next_record (race_bus n q fans) ''a'' ()) = [0]"
    by (simp add: matchingLocked_def race_bus_def next_record_def newSubscription_def)
  moreover have "Publish_locked [0] ''a'' () (race_bus n q fans) = race_bus (Suc n) q (fans @ [[Suc n]])"
    by (simp add: Publish_locked_def race_bus_def next_record_def race_rec_def evict_def Let_def)
  moreover have "Publish_check None (race_bus n q fans) ''a'' = None"
    by (simp add: Publish_check_def race_bus_def)
  ultimately show ?thesis
    using bus_step.publish [of None "race_bus n q fans" "''a''" "[0]" "()"] by simp
qed

lemma race_fanout:
  assumes "k < length fans" "fans ! k = x # rest"
  shows "bus_step (race_bus n q fans) (race_bus n (q @ [x]) (fans[k := rest]))"
proof -
  have "sub_update 0 (enqueue (newMessage (race_rec x)))
      ((race_bus n q fans)\<lparr>bus_fanouts := (bus_fanouts (race_bus n q fans))[k := map (\<lambda>k. (0, newMessage (race_rec k))) rest]\<rparr>)
    = race_bus n (q @ [x]) (fans[k := rest])"
    by (simp add: sub_update_def race_bus_def enqueue_def newSubscription_def map_update)
  then show ?thesis
    using assms bus_step.fanout [of k "race_bus n q fans" 0 "newMessage (race_rec x)"
      "map (\<lambda>k. (0, newMessage (race_rec k))) rest"]
    by (simp add: race_bus_def)
qed

lemma race_both_published: "bus_step\<^sup>*\<^sup>* (bus_new 0 16) (race_bus 2 [] [[], [1], [2]])"
  using race_publish [of 0 "[]" "[[]]"] race_publish [of 1 "[]" "[[], [1]]"] race_subscribe
  by (auto simp: numeral_2_eq_2 intro: rtranclp.intros)

lemma race_done: "bus_step\<^sup>*\<^sup>* (bus_new 0 16) (race_bus 2 [2, 1] [[], [], []])"
  using race_both_published race_fanout [of 2 "[[], [1], [2]]" 2 "[]" 2 "[]"]
    race_fanout [of 1 "[[], [1], []]" 1 "[]" 2 "[2]"]
  by (auto intro: rtranclp.rtrancl_into_rtrancl)

theorem bus_delivers_exactly_once_witness:
  "mset (first_tries (sub_msgs (bus_subs (race_bus 2 [2, 1] [[], [], []]) ! 0))) =
    mset (filter (wanted (bus_subs (race_bus 2 [2, 1] [[], [], []]) ! 0)) (bus_log (race_bus 2 [2, 1] [[], [], []])))"
  by (rule bus_delivers_exactly_once [OF race_done, THEN conjunct1])
    (simp_all add: race_bus_def newSubscription_def pending_def)

text \<open>
  C36: the bus does not keep publish order between concurrent publishers. Sequence numbers are assigned
  under the bus lock but messages are queued after it is released, so a subscription's queue can
  hold the record with sequence 2 ahead of the one with sequence 1.
\<close>

theorem bus_can_reorder:
  "\<exists>b. bus_step\<^sup>*\<^sup>* (bus_new 0 16 :: unit bus) b \<and>
    map (br_seq \<circ> bm_rec) (sub_queue (bus_subs b ! 0)) = [2, 1]"
  by (intro exI conjI, rule race_done)
    (simp add: race_bus_def newSubscription_def newMessage_def race_rec_def)

end
