(* ===== verification/Cron.thy ===== *)
theory Cron
  imports EventBus "HOL-Library.Word"
begin

text \<open>
  Cron expressions and schedules (\<^verbatim>\<open>internal/cron\<close>, \<^verbatim>\<open>internal/schedule\<close>). A field is a 64-bit set,
  an instant is a number of nanoseconds since Go's zero time (1 January of year 1, UTC). The time
  zone database is the parameter \<open>off\<close>, the offset from UTC in seconds that a location has at an
  instant; the calendar is the proleptic Gregorian one of package \<^verbatim>\<open>time\<close>.
\<close>

unbundle bit_operations_syntax

section \<open>Calendar\<close>

type_synonym gotime = int

abbreviation ns_per_minute :: int where "ns_per_minute \<equiv> 60000000000"

definition leap :: "int \<Rightarrow> bool" where
  "leap y = (y mod 4 = 0 \<and> (y mod 100 \<noteq> 0 \<or> y mod 400 = 0))"

text \<open>The year and the day of the year (from 0) of a day count since 1 January of year 1.\<close>

definition year_yday :: "int \<Rightarrow> int \<times> int" where
  "year_yday d =
     (let n400 = d div 146097; d1 = d mod 146097;
          n100 = min 3 (d1 div 36524); d2 = d1 - 36524 * n100;
          n4 = d2 div 1461; d3 = d2 mod 1461;
          n1 = min 3 (d3 div 365)
      in (400 * n400 + 100 * n100 + 4 * n4 + n1 + 1, d3 - 365 * n1))"

definition month_lengths :: "int \<Rightarrow> int list" where
  "month_lengths y = [31, if leap y then 29 else 28, 31, 30, 31, 30, 31, 31, 30, 31, 30, 31]"

fun month_day :: "int list \<Rightarrow> int \<Rightarrow> int \<Rightarrow> int \<times> int" where
  "month_day [] m d = (m, d + 1)"
| "month_day (n # ns) m d = (if d < n then (m, d + 1) else month_day ns (m + 1) (d - n))"

definition local_seconds :: "(gotime \<Rightarrow> int) \<Rightarrow> gotime \<Rightarrow> int" where
  "local_seconds off t = t div 1000000000 + off t"

definition time_Minute :: "(gotime \<Rightarrow> int) \<Rightarrow> gotime \<Rightarrow> int" where
  "time_Minute off t = local_seconds off t div 60 mod 60"

definition time_Hour :: "(gotime \<Rightarrow> int) \<Rightarrow> gotime \<Rightarrow> int" where
  "time_Hour off t = local_seconds off t div 3600 mod 24"

definition time_Date :: "(gotime \<Rightarrow> int) \<Rightarrow> gotime \<Rightarrow> int \<times> int" where
  "time_Date off t =
     (let (y, yd) = year_yday (local_seconds off t div 86400) in month_day (month_lengths y) 1 yd)"

definition time_Month :: "(gotime \<Rightarrow> int) \<Rightarrow> gotime \<Rightarrow> int" where
  "time_Month off t = fst (time_Date off t)"

definition time_Day :: "(gotime \<Rightarrow> int) \<Rightarrow> gotime \<Rightarrow> int" where
  "time_Day off t = snd (time_Date off t)"

definition time_Weekday :: "(gotime \<Rightarrow> int) \<Rightarrow> gotime \<Rightarrow> int" where
  "time_Weekday off t = (local_seconds off t div 86400 + 1) mod 7"

definition Truncate :: "gotime \<Rightarrow> int \<Rightarrow> gotime" where
  "Truncate t d = t - t mod d"

section \<open>Parsing\<close>

record cron_schedule =
  minute :: "64 word"
  hour :: "64 word"
  dom :: "64 word"
  month :: "64 word"
  dow :: "64 word"
  domRestricted :: bool
  dowRestricted :: bool

text \<open>\<^verbatim>\<open>1 << uint(v)\<close>: a negative \<^verbatim>\<open>v\<close> converts to a shift count of at least 64, which gives 0.\<close>

definition bit_at :: "int \<Rightarrow> 64 word" where
  "bit_at v = (if 0 \<le> v \<and> v < 64 then push_bit (nat v) 1 else 0)"

text \<open>
  The loop \<^verbatim>\<open>for v := lo; v <= hi; v += step\<close>, whose addition wraps. None is the loop still running
  when the fuel is used up; \<open>step_bits_total\<close> shows 256 rounds are enough for every field.
\<close>

fun step_bits :: "nat \<Rightarrow> int \<Rightarrow> int \<Rightarrow> int \<Rightarrow> 64 word \<Rightarrow> 64 word option" where
  "step_bits n v hi step bits =
     (if \<not> v \<le> hi then Some bits
      else if n = 0 then None
      else step_bits (n - 1) (wrap64 (v + step)) hi step (bits OR bit_at v))"

declare step_bits.simps [simp del]

definition part_range :: "string \<Rightarrow> bool \<Rightarrow> int \<Rightarrow> int \<Rightarrow> (int \<times> int) res" where
  "part_range rng hasStep minVal maxVal =
     (if rng = ''*'' then Inr (minVal, maxVal)
      else case cut_at (CHR ''-'') rng of
        Some (x, y) \<Rightarrow>
          (case (atoi x, atoi y) of
             (Some a, Some b) \<Rightarrow> Inr (a, b)
           | _ \<Rightarrow> Inl (ErrMsg ''invalid range''))
      | None \<Rightarrow>
          (case atoi rng of
             None \<Rightarrow> Inl (ErrMsg ''invalid value'')
           | Some n \<Rightarrow> Inr (n, if hasStep then maxVal else n)))"

definition part_step :: "string \<Rightarrow> (string \<times> bool \<times> int) res" where
  "part_step part =
     (case cut_at (CHR ''/'') part of
        None \<Rightarrow> Inr (part, False, 1)
      | Some (rng, st) \<Rightarrow>
          (case atoi st of
             None \<Rightarrow> Inl (ErrMsg ''invalid step'')
           | Some n \<Rightarrow> if n \<le> 0 then Inl (ErrMsg ''invalid step'') else Inr (rng, True, n)))"

definition parsePart :: "string \<Rightarrow> int \<Rightarrow> int \<Rightarrow> (64 word) res" where
  "parsePart part minVal maxVal =
     bind_res (part_step part) (\<lambda>(rng, hasStep, step).
     bind_res (part_range rng hasStep minVal maxVal) (\<lambda>(lo, hi).
       if lo < minVal \<or> hi > maxVal \<or> lo > hi then Inl (ErrMsg ''value out of range'')
       else case step_bits 256 lo hi step 0 of
         None \<Rightarrow> Inl (ErrMsg ''loop still running'')
       | Some bits \<Rightarrow> Inr bits))"

fun parse_parts :: "string list \<Rightarrow> int \<Rightarrow> int \<Rightarrow> 64 word \<Rightarrow> (64 word) res" where
  "parse_parts [] minVal maxVal bits = Inr bits"
| "parse_parts (p # ps) minVal maxVal bits =
     bind_res (parsePart p minVal maxVal) (\<lambda>b. parse_parts ps minVal maxVal (bits OR b))"

definition parseField :: "string \<Rightarrow> int \<Rightarrow> int \<Rightarrow> (64 word) res" where
  "parseField spec minVal maxVal = parse_parts (split_on (CHR '','') spec) minVal maxVal 0"

definition wrap_err :: "string \<Rightarrow> 'a res \<Rightarrow> 'a res" where
  "wrap_err what r = (case r of Inl e \<Rightarrow> Inl (ErrWrap what e) | Inr a \<Rightarrow> Inr a)"

definition fold_sunday :: "64 word \<Rightarrow> 64 word" where
  "fold_sunday d = (if d AND push_bit 7 1 \<noteq> 0 then (d AND NOT (push_bit 7 1)) OR 1 else d)"

definition Parse :: "string \<Rightarrow> cron_schedule res" where
  "Parse expr =
     (case string_fields expr of
        [f0, f1, f2, f3, f4] \<Rightarrow>
          bind_res (wrap_err ''cron: minute'' (parseField f0 0 59)) (\<lambda>mi.
          bind_res (wrap_err ''cron: hour'' (parseField f1 0 23)) (\<lambda>ho.
          bind_res (wrap_err ''cron: day-of-month'' (parseField f2 1 31)) (\<lambda>dm.
          bind_res (wrap_err ''cron: month'' (parseField f3 1 12)) (\<lambda>mo.
          bind_res (wrap_err ''cron: day-of-week'' (parseField f4 0 7)) (\<lambda>dw.
          Inr \<lparr>minute = mi, hour = ho, dom = dm, month = mo, dow = fold_sunday dw,
               domRestricted = f2 \<noteq> ''*'', dowRestricted = f4 \<noteq> ''*''\<rparr>)))))
      | _ \<Rightarrow> Inl (ErrMsg ''cron: expected 5 fields''))"

section \<open>Matching and searching\<close>

definition matches :: "(gotime \<Rightarrow> int) \<Rightarrow> cron_schedule \<Rightarrow> gotime \<Rightarrow> bool" where
  "matches off s t =
     (if minute s AND bit_at (time_Minute off t) = 0 then False
      else if hour s AND bit_at (time_Hour off t) = 0 then False
      else if month s AND bit_at (time_Month off t) = 0 then False
      else
        (let domMatch = (dom s AND bit_at (time_Day off t) \<noteq> 0);
             dowMatch = (dow s AND bit_at (time_Weekday off t) \<noteq> 0)
         in if domRestricted s \<and> dowRestricted s then domMatch \<or> dowMatch else domMatch \<and> dowMatch))"

definition maxSearch :: nat where
  "maxSearch = 5 * 366 * 24 * 60"

fun next_scan :: "(gotime \<Rightarrow> int) \<Rightarrow> cron_schedule \<Rightarrow> nat \<Rightarrow> gotime \<Rightarrow> gotime option" where
  "next_scan off s n t =
     (if n = 0 then None
      else if matches off s t then Some t
      else next_scan off s (n - 1) (t + ns_per_minute))"

declare next_scan.simps [simp del]

definition Next :: "(gotime \<Rightarrow> int) \<Rightarrow> cron_schedule \<Rightarrow> gotime \<Rightarrow> gotime option" where
  "Next off s t = next_scan off s maxSearch (Truncate t ns_per_minute + ns_per_minute)"

section \<open>Bit sets\<close>

lemma bit_bit_at [simp]: "bit (bit_at v) k \<longleftrightarrow> k < 64 \<and> int k = v"
  by (auto simp: bit_at_def bit_simps)

lemma and_bit_at [simp]: "w AND bit_at v = 0 \<longleftrightarrow> \<not> (0 \<le> v \<and> v < 64 \<and> bit w (nat v))"
proof -
  have "w AND bit_at v = 0 \<longleftrightarrow> (\<forall>k. \<not> (bit w k \<and> bit (bit_at v) k))"
    by (auto simp: bit_eq_iff bit_and_iff)
  also have "\<dots> \<longleftrightarrow> \<not> (0 \<le> v \<and> v < 64 \<and> bit w (nat v))"
    by (cases "0 \<le> v \<and> v < 64") (auto simp: nat_less_iff dest: spec [of _ "nat v"])
  finally show ?thesis .
qed

lemma bit_at_eq_0 [simp]: "bit_at v = 0 \<longleftrightarrow> \<not> (0 \<le> v \<and> v < 64)"
  using and_bit_at [of "-1" v] by (auto simp: nat_less_iff)

lemma step_bits_done: "hi < v \<Longrightarrow> step_bits n v hi step bits = Some bits"
  by (subst step_bits.simps) simp

lemma step_bits_next:
  "v \<le> hi \<Longrightarrow> step_bits (Suc n) v hi step bits = step_bits n (wrap64 (v + step)) hi step (bits OR bit_at v)"
  by (subst step_bits.simps) simp

lemma step_reach:
  assumes "0 < (step::int)" "v \<le> hi" "hi < 64"
  shows "(v \<le> int k \<and> int k \<le> hi \<and> step dvd (int k - v)) \<longleftrightarrow>
    (k < 64 \<and> int k = v) \<or> (v + step \<le> int k \<and> int k \<le> hi \<and> step dvd (int k - (v + step)))"
proof -
  have "int k - v = (int k - (v + step)) + step" by simp
  then have "step dvd (int k - v) \<longleftrightarrow> step dvd (int k - (v + step))"
    by (metis dvd_add_left_iff dvd_refl)
  moreover have "v + step \<le> int k" if "step dvd (int k - v)" "v < int k"
    using zdvd_imp_le [OF that(1)] that(2) by simp
  ultimately show ?thesis
    using assms by (cases "int k = v") auto
qed

text \<open>With a step that cannot carry the loop variable past the 64-bit range, the loop visits exactly
  the values of the range that the step reaches.\<close>

lemma step_bits_exact:
  assumes "0 < step" "hi + step < 2 ^ 63" "0 \<le> v" "hi < 64" "hi < v + int n"
  shows "\<exists>r. step_bits n v hi step bits = Some r \<and>
    (\<forall>k. bit r k \<longleftrightarrow> bit bits k \<or> (v \<le> int k \<and> int k \<le> hi \<and> step dvd (int k - v)))"
  using assms
proof (induction n arbitrary: v bits)
  case 0
  then show ?case by (auto simp: step_bits_done)
next
  case (Suc n)
  show ?case
  proof (cases "v \<le> hi")
    case False
    then show ?thesis by (auto simp: step_bits_done)
  next
    case True
    have w: "wrap64 (v + step) = v + step"
      using Suc.prems True by (intro wrap64_id) (simp add: int64_def)
    have reach: "(v \<le> int k \<and> int k \<le> hi \<and> step dvd (int k - v)) \<longleftrightarrow>
        (k < 64 \<and> int k = v) \<or> (v + step \<le> int k \<and> int k \<le> hi \<and> step dvd (int k - (v + step)))" for k
      using Suc.prems True by (intro step_reach) simp_all
    obtain r where r: "step_bits n (v + step) hi step (bits OR bit_at v) = Some r"
      "\<forall>k. bit r k \<longleftrightarrow> bit (bits OR bit_at v) k \<or>
        (v + step \<le> int k \<and> int k \<le> hi \<and> step dvd (int k - (v + step)))"
      using Suc.IH [of "v + step" "bits OR bit_at v"] Suc.prems True by auto
    have "bit r k \<longleftrightarrow> bit bits k \<or> (v \<le> int k \<and> int k \<le> hi \<and> step dvd (int k - v))" for k
      unfolding reach using r(2) by (simp add: bit_or_iff disj_assoc)
    with r(1) show ?thesis
      by (simp add: step_bits_next [OF True] w)
  qed
qed

text \<open>With a larger step the addition wraps; two rounds then lower the variable, and the loop ends.\<close>

lemma step_bits_wraps:
  assumes "2 ^ 63 - 64 \<le> step" "step < 2 ^ 63" "0 \<le> v" "hi < 64" "v < int n" "v \<le> hi"
  shows "step_bits (n + 4) v hi step bits \<noteq> None"
  using assms
proof (induction n arbitrary: v bits rule: less_induct)
  case (less n)
  let ?w = "v + step" let ?u = "v + 2 * step - 2 ^ 64"
  have n4: "n + 4 = Suc (Suc (n + 2))" by simp
  show ?case
  proof (cases "?w < 2 ^ 63")
    case True
    then have "wrap64 ?w = ?w" "hi < ?w"
      using less.prems by (simp_all add: int64_def)
    with less.prems show ?thesis by (simp add: n4 step_bits_next step_bits_done)
  next
    case False
    have w: "wrap64 ?w = ?w - 2 ^ 64"
      using less.prems False by (intro wrap64_over) simp_all
    have u: "wrap64 (?w - 2 ^ 64 + step) = ?u"
      using less.prems by (subst wrap64_id) (simp_all add: int64_def)
    have "step_bits (n + 2) ?u hi step b \<noteq> None" for b
    proof (cases "?u < 0")
      case True
      have "wrap64 (?u + step) = ?u + step" "hi < ?u + step" "?u \<le> hi"
        using less.prems True by (simp_all add: int64_def)
      then show ?thesis
        using step_bits_next [of ?u hi "n + 1"] by (simp add: step_bits_done)
    next
      case False
      then have "2 < int n" "?u < int n - 2" "?u \<le> hi"
        using less.prems by simp_all
      then have "n + 2 = (n - 2) + 4" "?u < int (n - 2)" "n - 2 < n" "?u \<le> hi"
        by (simp_all add: of_nat_diff)
      then show ?thesis
        using less.IH [of "n - 2" ?u b] less.prems False by simp
    qed
    moreover have "step_bits (n + 4) v hi step bits =
        step_bits (n + 2) ?u hi step ((bits OR bit_at v) OR bit_at (?w - 2 ^ 64))"
      unfolding n4 step_bits_next [OF less.prems(6)] w
      by (subst step_bits_next) (use less.prems u in simp_all)
    ultimately show ?thesis
      by (simp only:) blast
  qed
qed

lemma step_bits_total:
  assumes "0 < step" "step < 2 ^ 63" "0 \<le> v" "v \<le> hi" "hi < 64"
  shows "step_bits 256 v hi step bits \<noteq> None"
proof (cases "hi + step < 2 ^ 63")
  case True
  then show ?thesis using step_bits_exact [of step hi v 256 bits] assms by auto
next
  case False
  then show ?thesis using step_bits_wraps [of step v hi 252 bits] assms by auto
qed

text \<open>
  C31: a cron term \<^verbatim>\<open>range/step\<close> compiles to exactly the bits from the start of its range to its end in
  jumps of the step, and is accepted exactly when its range is numeric and lies inside the field.
  Fields lie within 0 to 63, and the step is at most \<open>2 ^ 63 - 65\<close>: a larger one can carry the 64-bit
  loop variable past its range and round to negative values.
\<close>

theorem parsePart_bits:
  assumes "0 \<le> minVal" "maxVal < 64" "part_step part = Inr (rng, hasStep, step)"
    "step \<le> max_int64 - 64"
  shows "parsePart part minVal maxVal = Inr bits \<longleftrightarrow>
    (\<exists>lo hi. part_range rng hasStep minVal maxVal = Inr (lo, hi) \<and> minVal \<le> lo \<and> lo \<le> hi \<and> hi \<le> maxVal \<and>
      (\<forall>k. bit bits k \<longleftrightarrow> lo \<le> int k \<and> int k \<le> hi \<and> step dvd (int k - lo)))"
proof -
  have pos: "0 < step"
    using assms(3) by (auto simp: part_step_def split: option.splits if_splits)
  have loop: "step_bits 256 lo hi step 0 = Some bits \<longleftrightarrow>
      (\<forall>k. bit bits k \<longleftrightarrow> lo \<le> int k \<and> int k \<le> hi \<and> step dvd (int k - lo))"
    if range: "minVal \<le> lo" "lo \<le> hi" "hi \<le> maxVal" for lo hi
  proof -
    obtain r where "step_bits 256 lo hi step 0 = Some r"
      "\<forall>k. bit r k \<longleftrightarrow> lo \<le> int k \<and> int k \<le> hi \<and> step dvd (int k - lo)"
      using step_bits_exact [of step hi lo 256 0] range assms pos by auto
    then show ?thesis by (auto intro!: bit_word_eqI)
  qed
  have ended: "(case m of None \<Rightarrow> Inl e | Some b \<Rightarrow> Inr b) = Inr bits \<longleftrightarrow> m = Some bits" for m and e :: goerr
    by (simp split: option.split)
  show ?thesis
  proof (cases "part_range rng hasStep minVal maxVal")
    case (Inr r)
    obtain lo hi where r: "r = (lo, hi)" by fastforce
    show ?thesis
      by (cases "minVal \<le> lo \<and> lo \<le> hi \<and> hi \<le> maxVal")
        (auto simp: parsePart_def assms(3) Inr r ended loop)
  qed (simp add: parsePart_def assms(3))
qed

theorem parsePart_bits_witness:
  "parsePart ''10-59/25'' 0 59 = Inr (2 ^ 10 + 2 ^ 35) \<longleftrightarrow>
    (\<exists>lo hi. part_range ''10-59'' True 0 59 = Inr (lo, hi) \<and> 0 \<le> lo \<and> lo \<le> hi \<and> hi \<le> 59 \<and>
      (\<forall>k. bit (2 ^ 10 + 2 ^ 35 :: 64 word) k \<longleftrightarrow> lo \<le> int k \<and> int k \<le> hi \<and> 25 dvd (int k - lo)))"
  by (rule parsePart_bits)
    (simp_all add: part_step_def cut_at_def atoi_def dec_val_def digit_val_def byte_def is_digit_def
      in_range_def int64_def)

text \<open>
  A step near the largest 64-bit integer carries the loop variable of a term past its range and
  round to small values: \<^verbatim>\<open>2-59/9223372036854775807\<close> also selects minute 0, which its range excludes.
\<close>

lemma parsePart_step_overflow:
  "parsePart ''2-59/9223372036854775807'' 0 59 = Inr (bit_at 2 OR bit_at 0)"
proof -
  have range: "part_step ''2-59/9223372036854775807'' = Inr (''2-59'', True, max_int64)"
    "part_range ''2-59'' True 0 59 = Inr (2, 59)"
    by (simp_all add: part_step_def part_range_def cut_at_def atoi_def dec_val_def digit_val_def
      byte_def is_digit_def in_range_def int64_def)
  have "step_bits 256 2 59 max_int64 0 = Some (bit_at 2 OR bit_at 0)"
    by (simp add: step_bits.simps wrap64_def bit_at_def)
  then show ?thesis
    by (simp add: parsePart_def range del: power_numeral)
qed

section \<open>The search for the next occurrence\<close>

lemma next_scan_Some:
  "next_scan off s n t = Some u \<longleftrightarrow>
    (\<exists>k < n. u = t + int k * ns_per_minute \<and> matches off s u \<and>
       (\<forall>j < k. \<not> matches off s (t + int j * ns_per_minute)))"
proof (induction n arbitrary: t)
  case 0
  then show ?case by (simp add: next_scan.simps)
next
  case (Suc n)
  have unfold: "next_scan off s (Suc n) t =
      (if matches off s t then Some t else next_scan off s n (t + ns_per_minute))"
    by (subst next_scan.simps) simp
  have shift: "t + ns_per_minute + int j * ns_per_minute = t + int (Suc j) * ns_per_minute" for j
    by simp
  show ?case
  proof (cases "matches off s t")
    case True
    then have "(\<forall>j < k. \<not> matches off s (t + int j * ns_per_minute)) \<Longrightarrow> k = 0" for k
      by (cases k) (auto dest: spec [of _ 0])
    with True show ?thesis
      by (auto simp: unfold)
  next
    case False
    then show ?thesis
      using Suc.IH [of "t + ns_per_minute"] unfolding unfold shift
      by (auto simp: Ex_less_Suc2 All_less_Suc2 simp del: of_nat_Suc)
  qed
qed

text \<open>
  C30: \<^verbatim>\<open>Next\<close> returns exactly the first whole minute strictly after the given instant that satisfies the
  schedule, provided one lies within the search bound of five years of minutes.
\<close>

theorem Next_first_match:
  "Next off s t = Some u \<longleftrightarrow>
    t < u \<and> u mod ns_per_minute = 0 \<and> u \<le> Truncate t ns_per_minute + int maxSearch * ns_per_minute \<and>
    matches off s u \<and> (\<forall>v. t < v \<and> v < u \<and> v mod ns_per_minute = 0 \<longrightarrow> \<not> matches off s v)"
  (is "_ \<longleftrightarrow> ?R")
proof -
  define b where "b = Truncate t ns_per_minute"
  have b: "b mod ns_per_minute = 0" "b \<le> t" "t < b + ns_per_minute"
    by (simp_all add: b_def Truncate_def)
  define f where "f k = b + ns_per_minute + int k * ns_per_minute" for k
  have minute: "t < v \<and> v mod ns_per_minute = 0 \<longleftrightarrow> (\<exists>k. v = f k)" for v
  proof
    assume v: "t < v \<and> v mod ns_per_minute = 0"
    then obtain q where q: "v - b = ns_per_minute * q"
      using b(1) by (meson dvdE mod_0_imp_dvd dvd_diff)
    then have "v = f (nat (q - 1))"
      using v b by (simp add: f_def)
    then show "\<exists>k. v = f k" ..
  qed (use b in \<open>auto simp: f_def\<close>)
  have less: "f j < f k \<longleftrightarrow> j < k" for j k
    by (simp add: f_def)
  have bound: "f k \<le> b + int maxSearch * ns_per_minute \<longleftrightarrow> k < maxSearch" for k
    by (auto simp: f_def)
  have "Next off s t = Some u \<longleftrightarrow> (\<exists>k < maxSearch. u = f k \<and> matches off s u \<and> (\<forall>j < k. \<not> matches off s (f j)))"
    by (simp add: Next_def next_scan_Some f_def b_def)
  also have "\<dots> \<longleftrightarrow> ?R"
  proof (cases "\<exists>k. u = f k")
    case True
    then obtain k where k: "u = f k" ..
    have earlier: "(\<forall>v. t < v \<and> v < u \<and> v mod ns_per_minute = 0 \<longrightarrow> \<not> matches off s v) \<longleftrightarrow>
        (\<forall>j < k. \<not> matches off s (f j))"
      unfolding k
    proof (intro iffI allI impI)
      fix v assume "\<forall>j < k. \<not> matches off s (f j)" "t < v \<and> v < f k \<and> v mod ns_per_minute = 0"
      then show "\<not> matches off s v" using minute [of v] less by auto
    next
      fix j assume none: "\<forall>v. t < v \<and> v < f k \<and> v mod ns_per_minute = 0 \<longrightarrow> \<not> matches off s v"
        and "j < k"
      then show "\<not> matches off s (f j)"
        using none [rule_format, of "f j"] minute [of "f j"] less [of j k] exI [of "\<lambda>i. f j = f i" j]
        by simp
    qed
    have "f i = f j \<longleftrightarrow> i = j" for i j
      by (simp add: f_def)
    then show ?thesis
      using minute [of u] bound [of k] earlier unfolding b_def [symmetric] k by auto
  next
    case False
    then show ?thesis using minute [of u] by auto
  qed
  finally show ?thesis .
qed

text \<open>Every second minute, at any hour of any day.\<close>

definition even_minutes :: cron_schedule where
  "even_minutes = \<lparr>minute = bit_at 0 OR bit_at 2 OR bit_at 4, hour = -1, dom = -1, month = -1, dow = -1,
     domRestricted = False, dowRestricted = False\<rparr>"

theorem Next_first_match_witness:
  "Next (\<lambda>_. 0) even_minutes 1 = Some (2 * ns_per_minute) \<and> \<not> matches (\<lambda>_. 0) even_minutes ns_per_minute"
proof -
  have "Next (\<lambda>_. 0) even_minutes 1 = Some (2 * ns_per_minute)"
    unfolding Next_def maxSearch_def Truncate_def
    by (subst next_scan.simps, subst next_scan.simps)
      (simp add: matches_def even_minutes_def time_Minute_def time_Hour_def time_Month_def time_Day_def
        time_Weekday_def time_Date_def local_seconds_def year_yday_def month_lengths_def bit_or_iff)
  then show ?thesis
    using Next_first_match [of "\<lambda>_. 0" even_minutes 1 "2 * ns_per_minute"] by (auto dest: spec [of _ ns_per_minute])
qed

section \<open>Schedules\<close>

record schedule_spec =
  ss_PipelineID :: string
  ss_Tenant :: string
  ss_Cron :: string
  ss_Timezone :: string

text \<open>
  \<open>LoadLocation\<close> is the time zone database: its answer is the location's offset function.
\<close>

definition NextFire ::
  "(string \<Rightarrow> (gotime \<Rightarrow> int) res) \<Rightarrow> schedule_spec \<Rightarrow> gotime \<Rightarrow> gotime res" where
  "NextFire LoadLocation spec after =
     (if ss_PipelineID spec = [] then Inl (ErrMsg ''schedule: pipeline id is required'')
      else case ValidToken (ss_Tenant spec) of
        Some e \<Rightarrow> Inl (ErrWrap ''schedule: tenant'' e)
      | None \<Rightarrow>
          bind_res (Parse (ss_Cron spec)) (\<lambda>sched.
          bind_res (if ss_Timezone spec \<noteq> [] then wrap_err ''schedule: timezone'' (LoadLocation (ss_Timezone spec))
                    else Inr (\<lambda>_. 0)) (\<lambda>loc.
          case Next loc sched after of
            None \<Rightarrow> Inl (ErrMsg ''schedule: cron has no next fire'')
          | Some next \<Rightarrow> Inr next)))"

text \<open>\<^verbatim>\<open>fmt.Sprintf("%d", n)\<close> for a signed integer.\<close>

definition format_int :: "int \<Rightarrow> string" where
  "format_int n = (if n < 0 then CHR ''-'' # format_uint (nat (- n)) else format_uint (nat n))"

text \<open>Seconds between Go's zero time and the Unix epoch.\<close>

definition unix_epoch :: int where "unix_epoch = 62135596800"

definition OccurrenceToken :: "string \<Rightarrow> gotime \<Rightarrow> string" where
  "OccurrenceToken sid occurrence = sid @ '':'' @ format_int (occurrence div 1000000000 - unix_epoch)"

end
