(* ===== verification/Naming.thy ===== *)
theory Naming
  imports GoStrings
begin

text \<open>
  Destination identifiers (\<^verbatim>\<open>internal/naming\<close>). The scan runs over bytes: only ASCII letters and digits
  are kept, and every byte of a longer character is outside that set, as the character is.
\<close>

definition keep_char :: "char \<Rightarrow> bool" where
  "keep_char r = (\<not> ((byte r < 97 \<or> byte r > 122) \<and> (byte r < 48 \<or> byte r > 57)))"

fun norm_scan :: "string \<Rightarrow> bool \<Rightarrow> string \<Rightarrow> string" where
  "norm_scan b pending [] = b"
| "norm_scan b pending (r # rs) =
     (if \<not> keep_char r then norm_scan b True rs
      else norm_scan ((if pending \<and> b \<noteq> [] then b @ ''_'' else b) @ [r]) False rs)"

definition trim_right :: "char \<Rightarrow> string \<Rightarrow> string" where
  "trim_right c s = rev (dropWhile (\<lambda>x. x = c) (rev s))"

definition Normalize :: "(string \<Rightarrow> string) \<Rightarrow> string \<Rightarrow> string" where
  "Normalize uni name =
     (let s = norm_scan [] False (to_lower uni name) in
      if s = [] then []
      else
        (let s = (if 48 \<le> byte (hd s) \<and> byte (hd s) \<le> 57 then CHR ''_'' # s else s) in
         if length s > 63 then trim_right (CHR ''_'') (take 63 s) else s))"

section \<open>The shape of a scanned name\<close>

text \<open>
  Kept characters with single underscores between them. The flag says that the text before ends in
  an underscore, or is empty; \<open>lax\<close> allows an underscore at the end.
\<close>

fun words_ok :: "bool \<Rightarrow> bool \<Rightarrow> string \<Rightarrow> bool" where
  "words_ok lax u [] = (lax \<or> \<not> u)"
| "words_ok lax u (c # s) = (if c = CHR ''_'' then \<not> u \<and> words_ok lax True s else keep_char c \<and> words_ok lax False s)"

lemma keep_underscore [simp]: "\<not> keep_char (CHR ''_'')"
  by (simp add: keep_char_def byte_def)

lemma norm_scan_id:
  "words_ok False p s \<Longrightarrow> b \<noteq> [] \<Longrightarrow> norm_scan b p s = b @ (if p then CHR ''_'' # s else s)"
  by (induction False p s arbitrary: b rule: words_ok.induct) (auto split: if_splits)

lemma norm_scan_words [simp]: "words_ok False True s \<Longrightarrow> norm_scan [] p s = s"
  by (cases s) (auto simp: norm_scan_id split: if_splits)

lemma words_ok_append:
  "words_ok False u b \<Longrightarrow> keep_char c \<Longrightarrow> words_ok False u (b @ [c]) \<and> words_ok False u (b @ [CHR ''_'', c])"
  by (induction False u b rule: words_ok.induct) (auto split: if_splits)

lemma norm_scan_shape: "b = [] \<or> words_ok False True b \<Longrightarrow> norm_scan b p s = [] \<or> words_ok False True (norm_scan b p s)"
proof (induction s arbitrary: b p)
  case (Cons r s)
  then show ?case
    using words_ok_append [of True b r] by (auto intro!: Cons.IH split: if_splits)
qed simp

lemma words_ok_lax: "words_ok False u s \<Longrightarrow> words_ok True u (take n s)"
proof (induction s arbitrary: u n)
  case (Cons c s)
  then show ?case by (cases n) (auto split: if_splits)
qed simp

lemma words_ok_strict: "words_ok True u s \<Longrightarrow> s \<noteq> [] \<Longrightarrow> last s \<noteq> CHR ''_'' \<Longrightarrow> words_ok False u s"
  by (induction True u s rule: words_ok.induct) (auto split: if_splits)

lemma trim_right_append: "\<exists>t. s = trim_right c s @ t"
proof -
  have "rev s = takeWhile (\<lambda>x. x = c) (rev s) @ dropWhile (\<lambda>x. x = c) (rev s)" by simp
  then have "s = trim_right c s @ rev (takeWhile (\<lambda>x. x = c) (rev s))"
    unfolding trim_right_def by (metis rev_append rev_rev_ident)
  then show ?thesis ..
qed

lemma words_ok_prefix: "words_ok True u (s @ t) \<Longrightarrow> words_ok True u s"
  by (induction True u s rule: words_ok.induct) (auto split: if_splits)

lemma trim_right_last: "trim_right c s \<noteq> [] \<Longrightarrow> last (trim_right c s) \<noteq> c"
  unfolding trim_right_def by (metis (full_types) hd_dropWhile last_rev rev_is_Nil_conv)

lemma trim_right_Cons: "x \<noteq> c \<Longrightarrow> trim_right c (x # s) = x # trim_right c s"
  by (auto simp: trim_right_def dropWhile_append dest: dropWhile_eq_Nil_conv [THEN iffD1])

lemma trim_take_words:
  assumes "words_ok False True s" "0 < n"
  shows "words_ok False True (trim_right (CHR ''_'') (take n s))" "hd (trim_right (CHR ''_'') (take n s)) = hd s"
proof -
  obtain c r where s: "s = c # r" "c \<noteq> CHR ''_''"
    using assms(1) by (cases s) (auto split: if_splits)
  obtain m where n: "n = Suc m"
    using assms(2) by (cases n) auto
  have cons: "trim_right (CHR ''_'') (take n s) = c # trim_right (CHR ''_'') (take m r)"
    by (simp add: s n trim_right_Cons)
  have "words_ok True True (trim_right (CHR ''_'') (take n s))"
    using words_ok_lax [OF assms(1), of n] trim_right_append [of "take n s" "CHR ''_''"]
    by (metis words_ok_prefix)
  then show "words_ok False True (trim_right (CHR ''_'') (take n s))"
    using trim_right_last [of "CHR ''_''" "take n s"] by (intro words_ok_strict) (simp_all add: cons)
  show "hd (trim_right (CHR ''_'') (take n s)) = hd s"
    by (subst cons) (simp add: s)
qed

definition starts_digit :: "string \<Rightarrow> bool" where
  "starts_digit s = (48 \<le> byte (hd s) \<and> byte (hd s) \<le> 57)"

text \<open>What a normalized name is: empty, or at most 63 bytes of words, behind an underscore when the
  first character is a digit.\<close>

definition is_ident :: "string \<Rightarrow> bool" where
  "is_ident s = (s = [] \<or> (length s \<le> 63 \<and>
     (words_ok False True s \<and> \<not> starts_digit s \<or>
      hd s = CHR ''_'' \<and> words_ok False True (tl s) \<and> starts_digit (tl s))))"

lemma trim_take_63:
  assumes "words_ok False True s"
  shows "is_ident (let s = (if starts_digit s then CHR ''_'' # s else s) in
    if length s > 63 then trim_right (CHR ''_'') (take 63 s) else s)"
proof -
  have len: "length (trim_right c t) \<le> length t" for c t
    using trim_right_append [of t c] by (metis length_append le_add1)
  have under: "trim_right (CHR ''_'') (CHR ''_'' # t) = CHR ''_'' # trim_right (CHR ''_'') t"
    if "trim_right (CHR ''_'') t \<noteq> []" for t
    using that by (auto simp: trim_right_def dropWhile_append)
  have take: "words_ok False True (trim_right (CHR ''_'') (take n s))"
    "starts_digit (trim_right (CHR ''_'') (take n s)) = starts_digit s"
    "trim_right (CHR ''_'') (take n s) \<noteq> []" if "0 < n" for n
    using trim_take_words [OF assms that] by (auto simp: starts_digit_def)
  have "length (trim_right (CHR ''_'') (take 62 s)) \<le> 62" "length (trim_right (CHR ''_'') (take 63 s)) \<le> 63"
    using len [of "CHR ''_''" "take 62 s"] len [of "CHR ''_''" "take 63 s"] by simp_all
  then show ?thesis
    using assms take [of 62] take [of 63] under [of "take 62 s"]
    by (auto simp: is_ident_def Let_def)
qed

lemma ident_fixed:
  assumes "is_ident s"
  shows "Normalize uni s = s"
proof -
  have lower: "to_lower uni s = s"
  proof -
    let ?P = "\<lambda>c. byte c < 128 \<and> ascii_lower c = c"
    have keep: "?P c" if "keep_char c" for c
      using that by (auto simp: keep_char_def ascii_lower_def)
    have under: "?P (CHR ''_'')"
      by (simp add: ascii_lower_def byte_def)
    have words: "words_ok lax u t \<Longrightarrow> list_all ?P t" for lax u t
      using keep under by (induction lax u t rule: words_ok.induct) (auto split: if_splits)
    have "\<forall>c \<in> set s. ?P c"
      using assms under words [of False True s] words [of False True "tl s"]
      by (cases s) (auto simp: is_ident_def list_all_iff simp del: words_ok.simps)
    then show ?thesis by (simp add: to_lower_def map_idI)
  qed
  show ?thesis
  proof (cases "s \<noteq> [] \<and> hd s = CHR ''_''")
    case True
    then obtain t where "s = CHR ''_'' # t" "words_ok False True t" "starts_digit t" "length s \<le> 63"
      using assms by (cases s) (auto simp: is_ident_def)
    then show ?thesis
      unfolding Normalize_def lower by (auto simp: Let_def starts_digit_def)
  next
    case False
    then show ?thesis
      using assms unfolding Normalize_def lower by (auto simp: Let_def starts_digit_def is_ident_def)
  qed
qed

text \<open>
  C35: whatever the display name and the Unicode case tables, \<^verbatim>\<open>Normalize\<close> gives a destination identifier
  (lower case letters, digits and single inner underscores, at most 63 bytes, not starting with a
  digit) or nothing, and normalizing it again changes nothing.
\<close>

theorem Normalize_idempotent:
  "is_ident (Normalize uni name) \<and> Normalize uni' (Normalize uni name) = Normalize uni name"
proof -
  let ?s = "norm_scan [] False (to_lower uni name)"
  have "?s = [] \<or> words_ok False True ?s"
    by (rule norm_scan_shape) simp
  then have "is_ident (Normalize uni name)"
    using trim_take_63 [of ?s] unfolding Normalize_def starts_digit_def
    by (cases "?s = []") (simp_all add: Let_def is_ident_def)
  then show ?thesis
    by (simp add: ident_fixed)
qed

end
