(* ===== verification/SinkState.thy ===== *)
theory SinkState
  imports Prelude
begin

text \<open>
  The write lifecycle every sink keeps (\<^verbatim>\<open>internal/sinkstate\<close>): \<open>lifecycle\<close> is the struct
  \<^verbatim>\<open>Lifecycle\<close>, one definition per method. Each method holds the mutex for its whole body, so a list
  of calls is one interleaving of the goroutines that share the value. \<open>lc_admits\<close> is the
  specification, read off the history of calls alone; the struct is shown to implement it.
\<close>

section \<open>Lifecycle\<close>

record lifecycle =
  lc_opened :: bool
  lc_active :: bool
  lc_closed :: bool
  lc_failure :: "goerr option"
  lc_closeErr :: "goerr option"

definition lifecycle0 :: lifecycle where
  "lifecycle0 = \<lparr>lc_opened = False, lc_active = False, lc_closed = False,
     lc_failure = None, lc_closeErr = None\<rparr>"

definition Lifecycle_Open :: "lifecycle \<Rightarrow> lifecycle" where
  "Lifecycle_Open s = s\<lparr>lc_opened := True\<rparr>"

definition CheckBegin :: "lifecycle \<Rightarrow> goerr option" where
  "CheckBegin s =
     (if \<not> lc_opened s \<or> lc_active s \<or> lc_closed s \<or> lc_failure s \<noteq> None
      then errors_join [Some ErrState, lc_failure s] else None)"

definition MarkBegun :: "lifecycle \<Rightarrow> lifecycle \<times> goerr option" where
  "MarkBegun s =
     (if \<not> lc_opened s \<or> lc_active s \<or> lc_closed s \<or> lc_failure s \<noteq> None
      then (s, errors_join [Some ErrState, lc_failure s])
      else (s\<lparr>lc_active := True\<rparr>, None))"

definition CheckApply :: "lifecycle \<Rightarrow> goerr option" where
  "CheckApply s =
     (if \<not> lc_active s \<or> lc_closed s \<or> lc_failure s \<noteq> None
      then errors_join [Some ErrState, lc_failure s] else None)"

definition MarkCommitted :: "lifecycle \<Rightarrow> lifecycle \<times> goerr option" where
  "MarkCommitted s =
     (if \<not> lc_active s \<or> lc_closed s \<or> lc_failure s \<noteq> None
      then (s, errors_join [Some ErrState, lc_failure s])
      else (s\<lparr>lc_active := False\<rparr>, None))"

definition CheckAbort :: "lifecycle \<Rightarrow> goerr option" where
  "CheckAbort s = (if \<not> lc_opened s \<or> lc_closed s then Some ErrState else None)"

definition MarkAborted :: "lifecycle \<Rightarrow> lifecycle \<times> goerr option" where
  "MarkAborted s =
     (if \<not> lc_opened s \<or> lc_closed s then (s, Some ErrState)
      else (s\<lparr>lc_active := False\<rparr>, None))"

definition Fail :: "goerr option \<Rightarrow> lifecycle \<Rightarrow> lifecycle" where
  "Fail err s = (if lc_failure s = None then s\<lparr>lc_failure := err\<rparr> else s)"

definition Failure :: "lifecycle \<Rightarrow> goerr option" where
  "Failure s = lc_failure s"

definition MarkClosed :: "goerr option \<Rightarrow> lifecycle \<Rightarrow> lifecycle" where
  "MarkClosed err s = (if \<not> lc_closed s then s\<lparr>lc_closed := True, lc_closeErr := err\<rparr> else s)"

definition Closed :: "lifecycle \<Rightarrow> bool \<times> goerr option" where
  "Closed s = (lc_closed s, lc_closeErr s)"

definition Opened :: "lifecycle \<Rightarrow> bool" where
  "Opened s = lc_opened s"

lemmas lc_defs = Lifecycle_Open_def CheckBegin_def MarkBegun_def CheckApply_def MarkCommitted_def
  CheckAbort_def MarkAborted_def Fail_def MarkClosed_def lifecycle0_def

section \<open>Call sequences\<close>

datatype lc_op =
    OpOpen | OpCheckBegin | OpBegun | OpCheckApply | OpCommitted | OpCheckAbort | OpAborted
  | OpFail "goerr option" | OpClosed "goerr option"

fun lc_call :: "lc_op \<Rightarrow> lifecycle \<Rightarrow> lifecycle \<times> goerr option" where
  "lc_call OpOpen s = (Lifecycle_Open s, None)"
| "lc_call OpCheckBegin s = (s, CheckBegin s)"
| "lc_call OpBegun s = MarkBegun s"
| "lc_call OpCheckApply s = (s, CheckApply s)"
| "lc_call OpCommitted s = MarkCommitted s"
| "lc_call OpCheckAbort s = (s, CheckAbort s)"
| "lc_call OpAborted s = MarkAborted s"
| "lc_call (OpFail e) s = (Fail e s, None)"
| "lc_call (OpClosed e) s = (MarkClosed e s, None)"

type_synonym lc_event = "lc_op \<times> goerr option"

fun lc_trace :: "lc_op list \<Rightarrow> lifecycle \<Rightarrow> lc_event list" where
  "lc_trace [] s = []"
| "lc_trace (x # xs) s = (x, snd (lc_call x s)) # lc_trace xs (fst (lc_call x s))"

definition lc_final :: "lc_op list \<Rightarrow> lifecycle \<Rightarrow> lifecycle" where
  "lc_final ops s = foldl (\<lambda>t x. fst (lc_call x t)) s ops"

text \<open>What a history of calls and results says, without the struct.\<close>

definition opened_in :: "lc_event list \<Rightarrow> bool" where
  "opened_in tr = (\<exists>(x, r) \<in> set tr. x = OpOpen)"

definition healthy_in :: "lc_event list \<Rightarrow> bool" where
  "healthy_in tr = (\<forall>(x, r) \<in> set tr. \<forall>e. x \<noteq> OpFail (Some e))"

definition closed_in :: "lc_event list \<Rightarrow> bool" where
  "closed_in tr = (\<exists>(x, r) \<in> set tr. case x of OpClosed _ \<Rightarrow> True | _ \<Rightarrow> False)"

definition boundary_step :: "bool \<Rightarrow> lc_event \<Rightarrow> bool" where
  "boundary_step b ev =
     (if snd ev \<noteq> None then b
      else case fst ev of OpBegun \<Rightarrow> True | OpCommitted \<Rightarrow> False | OpAborted \<Rightarrow> False | _ \<Rightarrow> b)"

definition in_boundary :: "lc_event list \<Rightarrow> bool" where
  "in_boundary tr = foldl boundary_step False tr"

definition lc_admits :: "lc_event list \<Rightarrow> lc_op \<Rightarrow> bool" where
  "lc_admits tr x = (case x of
     OpCheckBegin \<Rightarrow> opened_in tr \<and> \<not> in_boundary tr \<and> \<not> closed_in tr \<and> healthy_in tr
   | OpBegun \<Rightarrow> opened_in tr \<and> \<not> in_boundary tr \<and> \<not> closed_in tr \<and> healthy_in tr
   | OpCheckApply \<Rightarrow> in_boundary tr \<and> \<not> closed_in tr \<and> healthy_in tr
   | OpCommitted \<Rightarrow> in_boundary tr \<and> \<not> closed_in tr \<and> healthy_in tr
   | OpCheckAbort \<Rightarrow> opened_in tr \<and> \<not> closed_in tr
   | OpAborted \<Rightarrow> opened_in tr \<and> \<not> closed_in tr
   | _ \<Rightarrow> True)"

lemma lc_trace_append: "lc_trace (xs @ ys) s = lc_trace xs s @ lc_trace ys (lc_final xs s)"
  by (induction xs arbitrary: s) (simp_all add: lc_final_def)

lemma lc_trace_length [simp]: "length (lc_trace xs s) = length xs"
  by (induction xs arbitrary: s) simp_all

lemma lc_final_snoc: "lc_final (xs @ [x]) s = fst (lc_call x (lc_final xs s))"
  by (simp add: lc_final_def)

lemmas history_defs = opened_in_def healthy_in_def closed_in_def in_boundary_def boundary_step_def

text \<open>The struct after a sequence of calls is what the history says it is.\<close>

lemma lc_final_history:
  fixes ops
  defines "s \<equiv> lc_final ops lifecycle0" and "tr \<equiv> lc_trace ops lifecycle0"
  shows "lc_opened s = opened_in tr \<and> lc_active s = in_boundary tr \<and> lc_closed s = closed_in tr
    \<and> (lc_failure s = None) = healthy_in tr"
  unfolding s_def tr_def
proof (induction ops rule: rev_induct)
  case Nil
  show ?case by (simp add: history_defs lc_final_def lifecycle0_def)
next
  case (snoc x xs)
  then show ?case
    by (cases x) (auto simp: lc_final_snoc lc_trace_append lc_defs history_defs)
qed

lemma lc_trace_prefix:
  assumes "lc_trace ops s = pre @ ev # post"
  obtains xs ys where "ops = xs @ fst ev # ys" "pre = lc_trace xs s"
    "snd ev = snd (lc_call (fst ev) (lc_final xs s))"
proof
  let ?n = "length pre"
  have n: "?n < length ops"
    using arg_cong [OF assms, of length] by simp
  let ?xs = "take ?n ops" and ?ys = "drop (Suc ?n) ops"
  have split: "ops = ?xs @ ops ! ?n # ?ys"
    using n by (rule id_take_nth_drop)
  have tr: "pre @ ev # post = lc_trace ?xs s @ lc_trace (ops ! ?n # ?ys) (lc_final ?xs s)"
    using assms split lc_trace_append by metis
  then have pre: "pre = lc_trace ?xs s" and ev: "ev # post = lc_trace (ops ! ?n # ?ys) (lc_final ?xs s)"
    using n by (simp_all add: append_eq_append_conv)
  show "ops = ?xs @ fst ev # ?ys" "pre = lc_trace ?xs s"
    "snd ev = snd (lc_call (fst ev) (lc_final ?xs s))"
    using split pre ev by simp_all
qed

text \<open>
  C17: whatever interleaving of lifecycle calls runs against a fresh sink lifecycle, a call succeeds
  exactly when the history admits it: a write begins only after a successful open, outside another
  write boundary, before any close and with no recorded failure; a batch is applied or committed
  only inside a boundary begun and not yet committed or aborted, before any close and with no
  recorded failure; an abort is admitted between open and close even after a failure.
\<close>

theorem lifecycle_implements_history:
  assumes "lc_trace ops lifecycle0 = pre @ (x, r) # post"
  shows "r = None \<longleftrightarrow> lc_admits pre x"
proof -
  obtain xs where pre: "pre = lc_trace xs lifecycle0"
    and r: "r = snd (lc_call x (lc_final xs lifecycle0))"
    using lc_trace_prefix [OF assms] by auto
  show ?thesis
    using lc_final_history [of xs] unfolding pre r lc_admits_def
    by (cases x) (auto simp: lc_defs)
qed

theorem lifecycle_implements_history_witness:
  "\<not> lc_admits (lc_trace [OpOpen, OpBegun] lifecycle0) OpBegun"
  using lifecycle_implements_history
    [of "[OpOpen, OpBegun, OpBegun]" "lc_trace [OpOpen, OpBegun] lifecycle0" OpBegun
      "Some (ErrJoin [ErrState])" "[]"]
  by (simp add: lc_defs errors_join_def map_filter_simps)

text \<open>The first failure and the first close result are the ones kept.\<close>

lemma first_failure_kept:
  "lc_failure s \<noteq> None \<Longrightarrow> Failure (lc_final ops s) = Failure s"
proof (induction ops rule: rev_induct)
  case (snoc x xs)
  then show ?case by (cases x) (auto simp: lc_final_snoc lc_defs Failure_def)
qed (simp add: lc_final_def Failure_def)

lemma first_close_kept:
  "lc_closed s \<Longrightarrow> Closed (lc_final ops s) = Closed s"
proof (induction ops rule: rev_induct)
  case (snoc x xs)
  then show ?case by (cases x) (auto simp: lc_final_snoc lc_defs Closed_def)
qed (simp add: lc_final_def Closed_def)

section \<open>SingleWrite\<close>

record single_write = sw_begun :: bool

definition SingleWrite_Begin :: "goerr option \<Rightarrow> single_write \<Rightarrow> single_write \<times> goerr option" where
  "SingleWrite_Begin ctx_err s =
     (case ctx_err of
        Some e \<Rightarrow> (s, Some e)
      | None \<Rightarrow>
          if sw_begun s
          then (s, Some (ErrMsg ''sink: repeated writes are not supported by this connector''))
          else (s\<lparr>sw_begun := True\<rparr>, None))"

fun begin_results :: "goerr option list \<Rightarrow> single_write \<Rightarrow> goerr option list" where
  "begin_results [] s = []"
| "begin_results (c # cs) s =
     snd (SingleWrite_Begin c s) # begin_results cs (fst (SingleWrite_Begin c s))"

lemma begin_results_begun: "sw_begun s \<Longrightarrow> None \<notin> set (begin_results cs s)"
  by (induction cs arbitrary: s) (auto simp: SingleWrite_Begin_def split: option.splits)

lemma single_write_admits_one:
  "length (filter (\<lambda>r. r = None) (begin_results cs s)) \<le> 1"
proof (induction cs arbitrary: s)
  case (Cons c cs)
  have "filter (\<lambda>r. r = None) (begin_results cs (s\<lparr>sw_begun := True\<rparr>)) = []"
    using begin_results_begun [of "s\<lparr>sw_begun := True\<rparr>" cs]
    by (intro filter_False ballI notI) simp
  with Cons show ?case
    by (auto simp: SingleWrite_Begin_def split: option.splits)
qed simp

end
