(* ===== verification/Progress.thy ===== *)
theory Progress
  imports GoStrings "HOL-Library.Multiset"
begin

text \<open>
  Source progress (\<^verbatim>\<open>rowmodel/progress.go\<close>, \<^verbatim>\<open>rowmodel/control.go\<close>, \<^verbatim>\<open>rowmodel/stream.go\<close>): ordering
  domains, codec-encoded positions, their canonical form and fail-closed comparison, position maps
  and their sorted wire entries, and the source control markers. A position's value is its bytes,
  and None when they are nil.
\<close>

section \<open>Domains and positions\<close>

datatype domain_key = DomainKey (Incarnation: string) (Domain: string)

text \<open>Domains are ordered by incarnation and then by name, both by bytes.\<close>

instantiation domain_key :: linorder
begin

definition less_eq_domain_key :: "domain_key \<Rightarrow> domain_key \<Rightarrow> bool" where
  "less_eq_domain_key a b \<longleftrightarrow>
     Incarnation a < Incarnation b \<or> (Incarnation a = Incarnation b \<and> Domain a \<le> Domain b)"

definition less_domain_key :: "domain_key \<Rightarrow> domain_key \<Rightarrow> bool" where
  "less_domain_key a b \<longleftrightarrow> a \<le> b \<and> \<not> b \<le> a"

instance
  by standard
    (auto simp: less_eq_domain_key_def less_domain_key_def intro: domain_key.expand)

end

definition DomainKey_Validate :: "domain_key \<Rightarrow> goerr option" where
  "DomainKey_Validate d =
     (if Incarnation d = [] \<or> Domain d = [] \<or> \<not> utf8_valid (Incarnation d) \<or> \<not> utf8_valid (Domain d)
      then Some (ErrMsg ''progress: missing incarnation or domain'') else None)"

datatype position = Position (Codec: string) (PVersion: int) (PValue: "string option")

definition Position_Validate :: "position \<Rightarrow> goerr option" where
  "Position_Validate p =
     (if Codec p = [] \<or> PVersion p < 0 \<or> \<not> utf8_valid (Codec p)
      then Some (ErrMsg ''progress: missing codec or negative version'') else None)"

text \<open>A \<^verbatim>\<open>PositionOrder\<close> is a \<^verbatim>\<open>uint8\<close>; a codec may return a value outside the named ones.\<close>

type_synonym position_order = nat

abbreviation (input) PositionIncomparable :: position_order where "PositionIncomparable \<equiv> 0"
abbreviation (input) PositionEqual :: position_order where "PositionEqual \<equiv> 1"
abbreviation (input) PositionBefore :: position_order where "PositionBefore \<equiv> 2"
abbreviation (input) PositionAfter :: position_order where "PositionAfter \<equiv> 3"

record position_codec =
  pc_Validate :: "position \<Rightarrow> goerr option"
  pc_Compare :: "position \<Rightarrow> position \<Rightarrow> position_order res"
  pc_Canonicalize :: "position \<Rightarrow> position res"

text \<open>A resolver may be nil, fail, or answer with a nil codec.\<close>

type_synonym codec_lookup = "string \<Rightarrow> int \<Rightarrow> position_codec option res"
type_synonym codec_resolver = "codec_lookup option"

definition CanonicalPosition :: "codec_resolver \<Rightarrow> position \<Rightarrow> position res" where
  "CanonicalPosition r p =
     check_err (Position_Validate p)
       (case r of
          None \<Rightarrow> Inl (ErrMsg ''progress: codec resolver required'')
        | Some lookup \<Rightarrow>
            bind_res (lookup (Codec p) (PVersion p)) (\<lambda>c.
              case c of
                None \<Rightarrow> Inl (ErrMsg ''progress: nil codec'')
              | Some codec \<Rightarrow>
                  check_err (pc_Validate codec p)
                    (bind_res (pc_Canonicalize codec p) (\<lambda>out.
                      if Codec out \<noteq> Codec p \<or> PVersion out \<noteq> PVersion p
                      then Inl (ErrMsg ''progress: canonicalization changed codec identity'')
                      else check_err (pc_Validate codec out) (Inr out)))))"

text \<open>
  The two canonical positions have the codec and version of the originals, so the second lookup asks
  for the codec canonicalization already found.
\<close>

definition ComparePositions ::
  "codec_resolver \<Rightarrow> domain_key \<Rightarrow> position \<Rightarrow> domain_key \<Rightarrow> position \<Rightarrow> position_order res" where
  "ComparePositions r aDomain a bDomain b =
     (if DomainKey_Validate aDomain \<noteq> None \<or> DomainKey_Validate bDomain \<noteq> None \<or> aDomain \<noteq> bDomain
         \<or> Codec a \<noteq> Codec b \<or> PVersion a \<noteq> PVersion b
      then Inl ErrPositionIncomparable
      else
        bind_res (CanonicalPosition r a) (\<lambda>a.
        bind_res (CanonicalPosition r b) (\<lambda>b.
        case r of
          None \<Rightarrow> Inl (ErrMsg ''progress: codec resolver required'')
        | Some lookup \<Rightarrow>
            bind_res (lookup (Codec a) (PVersion a)) (\<lambda>c.
              case c of
                None \<Rightarrow> Inl (ErrMsg ''progress: nil codec'')
              | Some codec \<Rightarrow>
                  bind_res (pc_Compare codec a b) (\<lambda>order.
                    if order = PositionIncomparable \<or> order > PositionAfter
                    then Inl ErrPositionIncomparable else Inr order)))))"

lemma CanonicalPosition_Inr:
  "CanonicalPosition r p = Inr q \<longleftrightarrow>
    (\<exists>lookup codec. r = Some lookup \<and> lookup (Codec p) (PVersion p) = Inr (Some codec) \<and>
       Position_Validate p = None \<and> pc_Validate codec p = None \<and> pc_Canonicalize codec p = Inr q \<and>
       Codec q = Codec p \<and> PVersion q = PVersion p \<and> pc_Validate codec q = None)"
  by (auto simp: CanonicalPosition_def err_simps split: option.splits if_splits)

lemma Position_Validate_cong:
  "Codec q = Codec p \<Longrightarrow> PVersion q = PVersion p \<Longrightarrow> Position_Validate q = Position_Validate p"
  by (simp add: Position_Validate_def)

text \<open>
  The contract of a codec: canonicalization keeps the codec identity, yields a valid position and
  changes nothing the second time; comparison of valid positions is total, reflects equality of
  canonical forms and reverses with its arguments.
\<close>

definition flip_order :: "position_order \<Rightarrow> position_order" where
  "flip_order k = (if k = PositionBefore then PositionAfter else if k = PositionAfter then PositionBefore else k)"

locale codec_laws =
  fixes codec :: position_codec
  assumes identity: "pc_Canonicalize codec p = Inr q \<Longrightarrow> Codec q = Codec p \<and> PVersion q = PVersion p"
    and canonical: "pc_Validate codec p = None \<Longrightarrow>
      \<exists>q. pc_Canonicalize codec p = Inr q \<and> pc_Validate codec q = None \<and> pc_Canonicalize codec q = Inr q"
    and reflexive: "pc_Validate codec p = None \<Longrightarrow> pc_Compare codec p p = Inr PositionEqual"
    and symmetric: "pc_Validate codec p = None \<Longrightarrow> pc_Validate codec q = None \<Longrightarrow>
      pc_Compare codec p q = Inr k \<Longrightarrow> pc_Compare codec q p = Inr (flip_order k)"
begin

text \<open>With a lawful codec behind the resolver, every valid position has a canonical form.\<close>

lemma canonical_total:
  assumes "lookup (Codec p) (PVersion p) = Inr (Some codec)" "Position_Validate p = None" "pc_Validate codec p = None"
  shows "\<exists>q. CanonicalPosition (Some lookup) p = Inr q \<and> CanonicalPosition (Some lookup) q = Inr q \<and>
    pc_Canonicalize codec p = Inr q"
proof -
  obtain q where q: "pc_Canonicalize codec p = Inr q" "pc_Validate codec q = None" "pc_Canonicalize codec q = Inr q"
    using canonical [OF assms(3)] by blast
  have "Codec q = Codec p" "PVersion q = PVersion p"
    using identity [OF q(1)] by auto
  then have "CanonicalPosition (Some lookup) p = Inr q" "CanonicalPosition (Some lookup) q = Inr q"
    using q assms Position_Validate_cong [of q p] by (auto simp: CanonicalPosition_Inr)
  then show ?thesis using q(1) by blast
qed

lemma compare_swap:
  assumes lookup: "lookup (Codec a) (PVersion a) = Inr (Some codec)"
    and cmp: "ComparePositions (Some lookup) d a d b = Inr k"
  shows "ComparePositions (Some lookup) d b d a = Inr (flip_order k)"
proof -
  have ab: "Codec a = Codec b" "PVersion a = PVersion b" "DomainKey_Validate d = None"
    using cmp by (auto simp: ComparePositions_def split: if_splits)
  obtain a' b' codec' where c: "CanonicalPosition (Some lookup) a = Inr a'" "CanonicalPosition (Some lookup) b = Inr b'"
    "lookup (Codec a') (PVersion a') = Inr (Some codec')" "pc_Compare codec' a' b' = Inr k"
    "k \<noteq> PositionIncomparable" "k \<le> PositionAfter"
    using cmp ab by (auto simp: ComparePositions_def err_simps split: option.splits if_splits)
  have codec': "codec' = codec" "Codec a' = Codec a" "PVersion a' = PVersion a" "Codec b' = Codec a" "PVersion b' = PVersion a"
    "pc_Validate codec a' = None" "pc_Validate codec b' = None"
    using c(1-3) ab lookup by (auto simp: CanonicalPosition_Inr)
  have "pc_Compare codec b' a' = Inr (flip_order k)" "flip_order k \<noteq> PositionIncomparable" "flip_order k \<le> PositionAfter"
    using symmetric [OF codec'(6,7)] c codec' by (auto simp: flip_order_def)
  then show ?thesis
    using c codec' ab lookup by (simp add: ComparePositions_def)
qed

end

lemma ComparePositions_closed:
  assumes "ComparePositions r da a db b = Inr k"
  shows "k \<in> {PositionEqual, PositionBefore, PositionAfter} \<and> da = db \<and> DomainKey_Validate da = None \<and>
    Codec a = Codec b \<and> PVersion a = PVersion b \<and> Position_Validate a = None \<and> Position_Validate b = None"
  using assms
  by (auto simp: ComparePositions_def CanonicalPosition_Inr err_simps split: option.splits if_splits)

section \<open>Position maps\<close>

type_synonym domain_positions = "(domain_key \<times> position) list"

definition DomainPositions_Clone :: "domain_positions option \<Rightarrow> domain_positions option" where
  "DomainPositions_Clone p = (case p of None \<Rightarrow> None | Some m \<Rightarrow> Some (map (\<lambda>(k, v). (k, v)) m))"

definition entry_err :: "domain_key \<times> position \<Rightarrow> goerr option" where
  "entry_err e = orelse_err (DomainKey_Validate (fst e)) (Position_Validate (snd e))"

text \<open>\<^verbatim>\<open>sort.Slice\<close> is not stable; the keys of a map are distinct, so every sort gives this list.\<close>

definition Entries :: "domain_positions \<Rightarrow> domain_positions res" where
  "Entries p = check_err (first_err entry_err p) (Inr (sort_key fst p))"

text \<open>\<^verbatim>\<open>UnmarshalJSON\<close> after the JSON array is decoded into entries: the map built so far is the accumulator.\<close>

fun unmarshal_entries :: "domain_positions \<Rightarrow> domain_positions \<Rightarrow> domain_positions res" where
  "unmarshal_entries out [] = Inr out"
| "unmarshal_entries out ((k, v) # es) =
     check_err (DomainKey_Validate k)
       (check_err (Position_Validate v)
         (if k \<in> fst ` set out then Inl (ErrMsg ''progress: duplicate domain'')
          else unmarshal_entries (out @ [(k, v)]) es))"

definition DomainPositions_UnmarshalJSON :: "domain_positions \<Rightarrow> domain_positions res" where
  "DomainPositions_UnmarshalJSON entries = unmarshal_entries [] entries"

definition positions_valid :: "domain_positions \<Rightarrow> bool" where
  "positions_valid p = (\<forall>e \<in> set p. entry_err e = None)"

lemma Entries_Inr: "Entries p = Inr es \<longleftrightarrow> positions_valid p \<and> es = sort_key fst p"
  by (auto simp: Entries_def positions_valid_def err_simps)

lemma sorted_keys_unique:
  fixes p q :: "('k::linorder \<times> 'v) list"
  assumes "distinct (map fst p)" "mset p = mset q"
  shows "sort_key fst p = sort_key fst q"
proof (rule map_sorted_distinct_set_unique [of fst])
  show "inj_on fst (set (sort_key fst p) \<union> set (sort_key fst q))"
    using assms mset_eq_setD [OF assms(2)] by (simp add: distinct_map)
  have "distinct (map fst q)"
    using assms by (metis mset_map mset_eq_imp_distinct_iff)
  then show "distinct (map fst (sort_key fst p))" "distinct (map fst (sort_key fst q))"
    using assms(1) by (simp_all add: distinct_map)
  show "set (sort_key fst p) = set (sort_key fst q)"
    using mset_eq_setD [OF assms(2)] by simp
qed simp_all

lemma same_map_mset:
  assumes "distinct (map fst p)" "distinct (map fst q)" "map_of p = map_of q"
  shows "mset p = mset q"
proof -
  have "set p = set q"
    using map_of_inject_set [OF assms(1,2)] assms(3) by simp
  then show ?thesis
    using assms(1,2) by (intro set_eq_iff_mset_eq_distinct [THEN iffD1]) (simp_all add: distinct_map)
qed

lemma unmarshal_entries_Inr:
  "unmarshal_entries out es = Inr q \<longleftrightarrow>
    positions_valid es \<and> distinct (map fst es) \<and> fst ` set out \<inter> fst ` set es = {} \<and> q = out @ es"
  by (induction out es rule: unmarshal_entries.induct)
    (auto simp: positions_valid_def entry_err_def err_simps)

lemma positions_valid_perm: "mset p = mset q \<Longrightarrow> positions_valid p = positions_valid q"
  by (drule mset_eq_setD) (simp add: positions_valid_def)

text \<open>
  C23: the wire form of a position map is canonical. A map with valid domains and positions marshals
  to entries sorted by incarnation and domain; two maps with the same content give the same entries
  whatever order Go iterates them in; and unmarshalling the entries gives the map back.
\<close>

theorem entries_canonical:
  assumes "distinct (map fst p)" "positions_valid p"
  shows "\<exists>es. Entries p = Inr es \<and> sorted (map fst es) \<and> distinct (map fst es) \<and>
    DomainPositions_UnmarshalJSON es = Inr es \<and> map_of es = map_of p \<and>
    (\<forall>q. distinct (map fst q) \<and> map_of q = map_of p \<longrightarrow> Entries q = Inr es)"
proof (intro exI conjI allI impI)
  let ?es = "sort_key fst p"
  have ms: "mset ?es = mset p" by simp
  show "Entries p = Inr ?es"
    using assms(2) by (simp add: Entries_Inr)
  show d: "distinct (map fst ?es)"
    using assms(1) by (simp add: distinct_map)
  show "DomainPositions_UnmarshalJSON ?es = Inr ?es"
    using d assms(2) positions_valid_perm [OF ms]
    by (simp add: DomainPositions_UnmarshalJSON_def unmarshal_entries_Inr)
  show "map_of ?es = map_of p"
    using assms(1) d by (intro map_of_inject_set [THEN iffD2]) simp_all
  fix q assume q: "distinct (map fst q) \<and> map_of q = map_of p"
  then have "mset q = mset p"
    using assms(1) by (intro same_map_mset) auto
  then show "Entries q = Inr ?es"
    using q assms(2) positions_valid_perm [of q p] sorted_keys_unique [of q p] by (auto simp: Entries_Inr)
qed simp

definition two_positions :: domain_positions where
  "two_positions =
     [(DomainKey ''pg'' ''b'', Position ''opaque'' 1 (Some ''x'')), (DomainKey ''pg'' ''a'', Position ''opaque'' 1 (Some ''y''))]"

lemma ascii_valid_literals: "utf8_valid ''pg''" "utf8_valid ''a''" "utf8_valid ''b''" "utf8_valid ''opaque''"
  by (simp_all add: byte_def)

theorem entries_canonical_witness:
  "\<exists>es. Entries two_positions = Inr es \<and> sorted (map fst es) \<and> Entries (rev two_positions) = Inr es"
proof -
  have d: "distinct (map fst two_positions)" "positions_valid two_positions"
    by (simp_all add: two_positions_def positions_valid_def entry_err_def DomainKey_Validate_def
      Position_Validate_def ascii_valid_literals)
  have "map_of (rev two_positions) = map_of two_positions" "distinct (map fst (rev two_positions))"
    by (auto simp: two_positions_def)
  then show ?thesis
    using entries_canonical [OF d] by metis
qed

section \<open>Controls\<close>

datatype control_kind =
  ControlUnspecified | TxnBegin | TxnEnd | ProgressBoundary | MemberActivated | ControlOther nat

record control =
  ct_Kind :: control_kind
  ct_Domain :: domain_key
  ct_Position :: position
  ct_TxnID :: string
  ct_Resource :: string
  ct_MembershipRevision :: int

definition Control_Validate :: "control \<Rightarrow> goerr option" where
  "Control_Validate c =
     orelse_err (DomainKey_Validate (ct_Domain c))
       (orelse_err (Position_Validate (ct_Position c))
         (case ct_Kind c of
            TxnBegin \<Rightarrow>
              if ct_TxnID c = [] \<or> ct_Resource c \<noteq> [] \<or> ct_MembershipRevision c \<noteq> 0
              then Some (ErrMsg ''control: invalid transaction payload'') else None
          | TxnEnd \<Rightarrow>
              if ct_TxnID c = [] \<or> ct_Resource c \<noteq> [] \<or> ct_MembershipRevision c \<noteq> 0
              then Some (ErrMsg ''control: invalid transaction payload'') else None
          | ProgressBoundary \<Rightarrow>
              if ct_TxnID c \<noteq> [] \<or> ct_Resource c \<noteq> [] \<or> ct_MembershipRevision c \<noteq> 0
              then Some (ErrMsg ''control: invalid progress payload'') else None
          | MemberActivated \<Rightarrow>
              if ct_TxnID c \<noteq> [] \<or> ct_Resource c = [] \<or> ct_MembershipRevision c \<le> 0
              then Some (ErrMsg ''control: invalid membership payload'') else None
          | _ \<Rightarrow> Some (ErrMsg ''control: unknown kind'')))"

record resource_domain_ref =
  rd_Resource :: string
  rd_Domain :: domain_key

record event_identity =
  ei_Domain :: domain_key
  ei_Position :: position
  ei_Ordinal :: nat

end
