(* ===== verification/RowModel.thy ===== *)
theory RowModel
  imports Progress
begin

text \<open>
  Row schemas (\<^verbatim>\<open>rowmodel/model.go\<close>), the event envelope columns (\<^verbatim>\<open>rowmodel/envelope.go\<close>) and the
  audit columns (\<^verbatim>\<open>rowmodel/audit.go\<close>). The parameter \<open>uni\<close> is the Unicode case folding of strings
  that are not ASCII, as in \<^const>\<open>to_lower\<close>.
\<close>

section \<open>Schemas\<close>

type_synonym logical_type = string

abbreviation (input) LogicalUnknown :: logical_type where "LogicalUnknown \<equiv> ''''"
abbreviation (input) LogicalBool :: logical_type where "LogicalBool \<equiv> ''bool''"
abbreviation (input) LogicalInt64 :: logical_type where "LogicalInt64 \<equiv> ''int64''"
abbreviation (input) LogicalString :: logical_type where "LogicalString \<equiv> ''string''"
abbreviation (input) LogicalBytes :: logical_type where "LogicalBytes \<equiv> ''bytes''"
abbreviation (input) LogicalTimestampTZ :: logical_type where "LogicalTimestampTZ \<equiv> ''timestamptz''"
abbreviation (input) LogicalJSON :: logical_type where "LogicalJSON \<equiv> ''json''"

datatype operation = OpInsert | OpUpdate | OpDelete | OpOther nat

record field =
  fd_Name :: string
  fd_Nullable :: bool
  fd_Logical :: logical_type
  fd_Native :: string
  fd_Precision :: int
  fd_Scale :: int

record schema =
  sc_envelope :: bool
  sc_projectedEnvelope :: bool
  sc_Resource :: string
  sc_DestinationResource :: string
  sc_Fields :: "field list"
  sc_PrimaryKey :: "string list"
  sc_Engine :: string

definition Schema_Equal :: "schema \<Rightarrow> schema \<Rightarrow> bool" where
  "Schema_Equal s other =
     (sc_envelope s = sc_envelope other \<and> sc_projectedEnvelope s = sc_projectedEnvelope other \<and>
      sc_Resource s = sc_Resource other \<and> sc_DestinationResource s = sc_DestinationResource other \<and>
      sc_Engine s = sc_Engine other \<and> sc_PrimaryKey s = sc_PrimaryKey other \<and> sc_Fields s = sc_Fields other)"

lemma Schema_Equal_iff [simp]: "Schema_Equal (s :: schema) t \<longleftrightarrow> s = t"
  by (auto simp: Schema_Equal_def)

definition simple_field :: "string \<Rightarrow> logical_type \<Rightarrow> field" where
  "simple_field name logical =
     \<lparr>fd_Name = name, fd_Nullable = True, fd_Logical = logical, fd_Native = [], fd_Precision = 0, fd_Scale = 0\<rparr>"

lemma simple_field_sel [simp]:
  "fd_Name (simple_field n l) = n" "fd_Nullable (simple_field n l)" "fd_Logical (simple_field n l) = l"
  "fd_Native (simple_field n l) = []" "fd_Precision (simple_field n l) = 0" "fd_Scale (simple_field n l) = 0"
  by (simp_all add: simple_field_def)

section \<open>Envelope columns\<close>

definition envelopeFields :: "field list" where
  "envelopeFields =
     [simple_field ''_filament_event_id'' LogicalString,
      simple_field ''_filament_event_identity'' LogicalBytes,
      simple_field ''_filament_event_ts'' LogicalString,
      simple_field ''_filament_headers'' LogicalBytes,
      simple_field ''_filament_key'' LogicalBytes,
      simple_field ''_filament_payload'' LogicalBytes]"

definition IsReservedColumn :: "(string \<Rightarrow> string) \<Rightarrow> string \<Rightarrow> bool" where
  "IsReservedColumn uni name = prefix ''_filament_'' (to_lower uni name)"

text \<open>The suffix the markers call for.\<close>

definition reserved_suffix :: "schema \<Rightarrow> field list" where
  "reserved_suffix s =
     (if sc_envelope s \<or> sc_projectedEnvelope s
      then (if sc_projectedEnvelope s then take 5 envelopeFields else envelopeFields) else [])"

definition ValidateReservedFields :: "(string \<Rightarrow> string) \<Rightarrow> schema \<Rightarrow> goerr option" where
  "ValidateReservedFields uni s =
     (let fields = reserved_suffix s; n = length (sc_Fields s) in
      if n < length fields then Some (ErrMsg ''incomplete envelope fields'')
      else
        (let start = n - length fields in
         orelse_err
           (first_err (\<lambda>i. if sc_Fields s ! (start + i) \<noteq> fields ! i
                            then Some (ErrMsg ''modified envelope field'') else None) [0 ..< length fields])
           (first_err (\<lambda>f. if prefix ''_filament_'' (to_lower uni (fd_Name f))
                            then Some (ErrMsg ''uses reserved Filament column'') else None)
             (take start (sc_Fields s)))))"

definition WithEnvelopeFields :: "(string \<Rightarrow> string) \<Rightarrow> schema \<Rightarrow> schema res" where
  "WithEnvelopeFields uni s =
     (if sc_envelope s \<or> sc_projectedEnvelope s then Inl (ErrMsg ''already has an envelope'')
      else check_err (ValidateReservedFields uni s)
        (Inr (s\<lparr>sc_Fields := sc_Fields s @ envelopeFields, sc_envelope := True\<rparr>)))"

definition WithEventMetadataFields :: "(string \<Rightarrow> string) \<Rightarrow> schema \<Rightarrow> schema res" where
  "WithEventMetadataFields uni s =
     (if sc_envelope s \<or> sc_projectedEnvelope s then Inl (ErrMsg ''already has event metadata'')
      else check_err (ValidateReservedFields uni s)
        (Inr (s\<lparr>sc_Fields := sc_Fields s @ take 5 envelopeFields, sc_projectedEnvelope := True\<rparr>)))"

section \<open>Audit columns\<close>

definition audit_fields :: "bool \<Rightarrow> field list" where
  "audit_fields cdc =
     [simple_field ''_filament_run_id'' LogicalString,
      simple_field ''_filament_run_started_at'' LogicalTimestampTZ] @
     (if cdc then
       [simple_field ''_filament_operation'' LogicalString,
        simple_field ''_filament_source_position'' LogicalString,
        simple_field ''_filament_sequence'' LogicalInt64]
      else [])"

definition WithAuditFields :: "(string \<Rightarrow> string) \<Rightarrow> schema \<Rightarrow> bool \<Rightarrow> schema res" where
  "WithAuditFields uni schema cdc =
     check_err (ValidateReservedFields uni schema)
       (Inr (schema\<lparr>sc_Fields := sc_Fields schema @ audit_fields cdc\<rparr>))"

definition AsCDCAppendHistory :: "schema \<Rightarrow> schema" where
  "AsCDCAppendHistory schema =
     schema\<lparr>sc_PrimaryKey := [], sc_Fields := map (\<lambda>f. f\<lparr>fd_Nullable := True\<rparr>) (sc_Fields schema)\<rparr>"

section \<open>Reserved columns\<close>

lemma ValidateReservedFields_None:
  "ValidateReservedFields uni s = None \<longleftrightarrow>
    (\<exists>user. sc_Fields s = user @ reserved_suffix s \<and> (\<forall>f \<in> set user. \<not> IsReservedColumn uni (fd_Name f)))"
proof -
  let ?fs = "sc_Fields s" and ?suf = "reserved_suffix s"
  let ?start = "length ?fs - length ?suf"
  have "(\<forall>i < length ?suf. ?fs ! (?start + i) = ?suf ! i) \<longleftrightarrow> drop ?start ?fs = ?suf" if "length ?suf \<le> length ?fs"
    using that by (auto simp: list_eq_iff_nth_eq)
  then have "ValidateReservedFields uni s = None \<longleftrightarrow> length ?suf \<le> length ?fs \<and> drop ?start ?fs = ?suf \<and>
      (\<forall>f \<in> set (take ?start ?fs). \<not> IsReservedColumn uni (fd_Name f))"
    by (auto simp: ValidateReservedFields_def IsReservedColumn_def Let_def err_simps split: if_splits)
  also have "\<dots> \<longleftrightarrow> (\<exists>user. ?fs = user @ ?suf \<and> (\<forall>f \<in> set user. \<not> IsReservedColumn uni (fd_Name f)))"
    by (metis append_eq_conv_conj append_take_drop_id diff_add_inverse2 le_add2 length_append)
  finally show ?thesis .
qed

lemma to_lower_ascii: "\<forall>c \<in> set s. byte c < 128 \<Longrightarrow> to_lower uni s = map ascii_lower s"
  by (simp add: to_lower_def)

lemma reserved_literals:
  "f \<in> set envelopeFields \<Longrightarrow> IsReservedColumn uni (fd_Name f)"
  "f \<in> set (audit_fields cdc) \<Longrightarrow> IsReservedColumn uni (fd_Name f)"
  by (auto simp: envelopeFields_def audit_fields_def IsReservedColumn_def to_lower_def ascii_lower_def byte_def
    split: if_splits)

lemma reserved_distinct:
  "distinct (map fd_Name (envelopeFields @ audit_fields cdc))"
  by (cases cdc) (simp_all add: envelopeFields_def audit_fields_def)

lemma with_envelope_Inr:
  assumes "WithEnvelopeFields uni s = Inr e \<or> WithEventMetadataFields uni s = Inr e"
  shows "sc_Fields e = sc_Fields s @ reserved_suffix e" "prefix (reserved_suffix e) envelopeFields"
    "reserved_suffix e \<noteq> []" "\<forall>f \<in> set (sc_Fields s). \<not> IsReservedColumn uni (fd_Name f)"
proof -
  have plain: "reserved_suffix s = []"
    using assms by (auto simp: WithEnvelopeFields_def WithEventMetadataFields_def reserved_suffix_def split: if_splits)
  then show "\<forall>f \<in> set (sc_Fields s). \<not> IsReservedColumn uni (fd_Name f)"
    using assms by (auto simp: WithEnvelopeFields_def WithEventMetadataFields_def err_simps
      ValidateReservedFields_None split: if_splits)
  show "sc_Fields e = sc_Fields s @ reserved_suffix e" "prefix (reserved_suffix e) envelopeFields" "reserved_suffix e \<noteq> []"
    using assms by (auto simp: WithEnvelopeFields_def WithEventMetadataFields_def err_simps reserved_suffix_def
      take_is_prefix split: if_splits) (auto simp: envelopeFields_def)
qed

text \<open>
  C34: the columns Filament adds never collide with the source's. When a source schema with distinct
  column names takes the event envelope (with or without the payload) and then the audit columns,
  the destination schema is the source columns followed by the two suffixes, all names are distinct,
  no source column lies in the reserved namespace in any letter case, and audit columns cannot be
  added twice.
\<close>

theorem reserved_columns_never_collide:
  assumes env: "WithEnvelopeFields uni s = Inr e \<or> WithEventMetadataFields uni s = Inr e"
    and audit: "WithAuditFields uni e cdc = Inr a" and src: "distinct (map fd_Name (sc_Fields s))"
  shows "sc_Fields a = sc_Fields s @ reserved_suffix e @ audit_fields cdc \<and>
    distinct (map fd_Name (sc_Fields a)) \<and>
    (\<forall>f \<in> set (sc_Fields s). \<not> IsReservedColumn uni (fd_Name f)) \<and>
    (\<exists>err. WithAuditFields uni a cdc' = Inl err)"
proof (intro conjI)
  note e = with_envelope_Inr [OF env]
  have a: "a = e\<lparr>sc_Fields := sc_Fields e @ audit_fields cdc\<rparr>"
    using audit by (simp add: WithAuditFields_def err_simps)
  show fields: "sc_Fields a = sc_Fields s @ reserved_suffix e @ audit_fields cdc"
    by (simp add: a e(1))
  show user: "\<forall>f \<in> set (sc_Fields s). \<not> IsReservedColumn uni (fd_Name f)"
    by (rule e(4))
  have sub: "set (reserved_suffix e) \<subseteq> set envelopeFields"
    using e(2) by (rule set_mono_prefix)
  have res: "IsReservedColumn uni (fd_Name f)" if "f \<in> set (reserved_suffix e @ audit_fields cdc)" for f
    using that sub reserved_literals by auto
  obtain zs where "envelopeFields = reserved_suffix e @ zs"
    using e(2) by (rule prefixE)
  then have "distinct (map fd_Name ((reserved_suffix e @ zs) @ audit_fields cdc))"
    using reserved_distinct [of cdc] by metis
  then have "distinct (map fd_Name (reserved_suffix e @ audit_fields cdc))"
    by auto
  then show "distinct (map fd_Name (sc_Fields a))"
    using src user res unfolding fields map_append distinct_append [of "map fd_Name (sc_Fields s)"]
    by (auto simp del: distinct_append)
  have "last (audit_fields cdc) \<notin> set envelopeFields" "audit_fields cdc \<noteq> []"
    by (cases cdc; simp add: audit_fields_def envelopeFields_def simple_field_def)+
  moreover have "reserved_suffix a = reserved_suffix e"
    by (simp add: a reserved_suffix_def)
  moreover have "last (reserved_suffix e) \<in> set envelopeFields"
    using sub e(3) last_in_set by blast
  moreover have "last (reserved_suffix e) = last (audit_fields cdc)"
    if "sc_Fields a = user @ reserved_suffix e" "audit_fields cdc \<noteq> []" for user
    using arg_cong [OF that(1), of last] that(2) e(3) by (simp add: fields)
  ultimately have "ValidateReservedFields uni a \<noteq> None"
    unfolding ValidateReservedFields_None by metis
  then show "\<exists>err. WithAuditFields uni a cdc' = Inl err"
    by (auto simp: WithAuditFields_def)
qed

definition orders_schema :: schema where
  "orders_schema =
     \<lparr>sc_envelope = False, sc_projectedEnvelope = False, sc_Resource = ''orders'', sc_DestinationResource = [],
      sc_Fields = [simple_field ''id'' LogicalInt64, simple_field ''note'' LogicalString],
      sc_PrimaryKey = [''id''], sc_Engine = ''kafka''\<rparr>"

theorem reserved_columns_never_collide_witness:
  "\<exists>e a. WithEnvelopeFields (\<lambda>s. s) orders_schema = Inr e \<and> WithAuditFields (\<lambda>s. s) e True = Inr a \<and>
    distinct (map fd_Name (sc_Fields a))"
proof -
  define e where "e = projr (WithEnvelopeFields (\<lambda>s. s) orders_schema)"
  define a where "a = projr (WithAuditFields (\<lambda>s. s) e True)"
  have e: "WithEnvelopeFields (\<lambda>s. s) orders_schema = Inr e"
    unfolding e_def by code_simp
  have a: "WithAuditFields (\<lambda>s. s) e True = Inr a"
    unfolding a_def e_def by code_simp
  have "distinct (map fd_Name (sc_Fields orders_schema))"
    by (simp add: orders_schema_def)
  then show ?thesis
    using e a reserved_columns_never_collide [OF disjI1 [OF e] a] by blast
qed

end
