(* ===== verification/SchemaDrift.thy ===== *)
theory SchemaDrift
  imports RowModel
begin

text \<open>
  Schema comparison and migration (\<^verbatim>\<open>schema\<close>): structural validation, the diff of two complete
  schemas, the policies that permit changes, reconciliation of a destination table, and the message
  layouts that committed epochs carry.
\<close>

section \<open>Validation\<close>

text \<open>The loop over fields with the set of names seen so far.\<close>

fun fields_err :: "string list \<Rightarrow> field list \<Rightarrow> goerr option" where
  "fields_err names [] = None"
| "fields_err names (f # fs) =
     (if fd_Name f = [] \<or> fd_Name f \<in> set names then Some (ErrMsg ''schema has empty or duplicate field'')
      else if \<not> utf8_valid (fd_Name f) \<or> \<not> utf8_valid (fd_Logical f) \<or> \<not> utf8_valid (fd_Native f)
      then Some (ErrMsg ''field contains invalid UTF-8'')
      else fields_err (fd_Name f # names) fs)"

fun keys_err :: "string list \<Rightarrow> string list \<Rightarrow> string list \<Rightarrow> goerr option" where
  "keys_err names keys [] = None"
| "keys_err names keys (k # ks) =
     (if k \<notin> set names \<or> k \<in> set keys then Some (ErrMsg ''schema has missing or duplicate key field'')
      else keys_err names (k # keys) ks)"

definition Validate :: "schema \<Rightarrow> goerr option" where
  "Validate s =
     orelse_err
       (first_err (\<lambda>v. if \<not> utf8_valid v then Some (ErrMsg ''schema contains invalid UTF-8'') else None)
         [sc_Resource s, sc_DestinationResource s, sc_Engine s])
       (orelse_err (fields_err [] (sc_Fields s))
         (keys_err (map fd_Name (sc_Fields s)) [] (sc_PrimaryKey s)))"

definition field_wf :: "field \<Rightarrow> bool" where
  "field_wf f = (fd_Name f \<noteq> [] \<and> utf8_valid (fd_Name f) \<and> utf8_valid (fd_Logical f) \<and> utf8_valid (fd_Native f))"

lemma fields_err_None:
  "fields_err names fs = None \<longleftrightarrow>
    (\<forall>f \<in> set fs. field_wf f \<and> fd_Name f \<notin> set names) \<and> distinct (map fd_Name fs)"
  by (induction names fs rule: fields_err.induct) (auto simp: field_wf_def image_iff)

lemma keys_err_None:
  "keys_err names keys ks = None \<longleftrightarrow> (\<forall>k \<in> set ks. k \<in> set names \<and> k \<notin> set keys) \<and> distinct ks"
  by (induction names keys ks rule: keys_err.induct) auto

lemma Validate_None:
  "Validate s = None \<longleftrightarrow>
    utf8_valid (sc_Resource s) \<and> utf8_valid (sc_DestinationResource s) \<and> utf8_valid (sc_Engine s) \<and>
    list_all field_wf (sc_Fields s) \<and> distinct (map fd_Name (sc_Fields s)) \<and>
    set (sc_PrimaryKey s) \<subseteq> fd_Name ` set (sc_Fields s) \<and> distinct (sc_PrimaryKey s)"
  by (auto simp: Validate_def err_simps fields_err_None keys_err_None list_all_iff)

section \<open>Comparison\<close>

datatype change_kind =
  AddField | DropField | ChangeType | ChangeNullability | ChangeKey | ChangeOrder | ChangeEngine
| ChangeDestination | ChangeSemantics

record change =
  ch_Kind :: change_kind
  ch_Field :: string
  ch_Before :: "field option"
  ch_After :: "field option"

record diff =
  df_Changes :: "change list"
  df_OldKey :: "string list"
  df_NewKey :: "string list"

text \<open>A map filled from a field list: a later field of the same name wins.\<close>

definition field_map :: "field list \<Rightarrow> string \<Rightarrow> field option" where
  "field_map fs n = map_of (rev (map (\<lambda>f. (fd_Name f, f)) fs)) n"

definition resource_change :: "change_kind \<Rightarrow> change" where
  "resource_change k = \<lparr>ch_Kind = k, ch_Field = [], ch_Before = None, ch_After = None\<rparr>"

definition old_changes :: "(string \<Rightarrow> field option) \<Rightarrow> field \<Rightarrow> change list" where
  "old_changes next f =
     (case next (fd_Name f) of
        None \<Rightarrow> [\<lparr>ch_Kind = DropField, ch_Field = fd_Name f, ch_Before = Some f, ch_After = None\<rparr>]
      | Some n \<Rightarrow>
          (if fd_Logical f \<noteq> fd_Logical n \<or> fd_Native f \<noteq> fd_Native n \<or> fd_Precision f \<noteq> fd_Precision n
              \<or> fd_Scale f \<noteq> fd_Scale n
           then [\<lparr>ch_Kind = ChangeType, ch_Field = fd_Name f, ch_Before = Some f, ch_After = Some n\<rparr>] else []) @
          (if fd_Nullable f \<noteq> fd_Nullable n
           then [\<lparr>ch_Kind = ChangeNullability, ch_Field = fd_Name f, ch_Before = Some f, ch_After = Some n\<rparr>]
           else []))"

definition new_changes :: "(string \<Rightarrow> field option) \<Rightarrow> field \<Rightarrow> change list" where
  "new_changes old f =
     (if old (fd_Name f) = None
      then [\<lparr>ch_Kind = AddField, ch_Field = fd_Name f, ch_Before = None, ch_After = Some f\<rparr>] else [])"

definition compare_changes :: "schema \<Rightarrow> schema \<Rightarrow> change list" where
  "compare_changes before after =
     (let old = field_map (sc_Fields before);
          next = field_map (sc_Fields after);
          oldOrder = map fd_Name (filter (\<lambda>f. next (fd_Name f) \<noteq> None) (sc_Fields before));
          newOrder = map fd_Name (filter (\<lambda>f. old (fd_Name f) \<noteq> None) (sc_Fields after));
          a = before\<lparr>sc_Fields := sc_Fields after, sc_PrimaryKey := sc_PrimaryKey after,
                sc_Engine := sc_Engine after, sc_DestinationResource := sc_DestinationResource after\<rparr>
      in concat (map (old_changes next) (sc_Fields before)) @
         concat (map (new_changes old) (sc_Fields after)) @
         (if oldOrder \<noteq> newOrder then [resource_change ChangeOrder] else []) @
         (if sc_PrimaryKey before \<noteq> sc_PrimaryKey after then [resource_change ChangeKey] else []) @
         (if sc_Engine before \<noteq> sc_Engine after then [resource_change ChangeEngine] else []) @
         (if sc_DestinationResource before \<noteq> sc_DestinationResource after
          then [resource_change ChangeDestination] else []) @
         (if \<not> Schema_Equal a after then [resource_change ChangeSemantics] else []))"

definition Compare :: "schema \<Rightarrow> schema \<Rightarrow> diff res" where
  "Compare before after =
     check_err (Validate before)
      (check_err (Validate after)
        (if sc_Resource before \<noteq> sc_Resource after then Inl (ErrMsg ''cannot compare different resources'')
         else Inr \<lparr>df_Changes = compare_changes before after,
                 df_OldKey = sc_PrimaryKey before, df_NewKey = sc_PrimaryKey after\<rparr>))"

section \<open>Policies\<close>

datatype policy = Strict | NullableAdd | PolicyOther string

definition Policy_Validate :: "policy \<Rightarrow> goerr option" where
  "Policy_Validate p = (if p \<noteq> Strict \<and> p \<noteq> NullableAdd then Some (ErrMsg ''unknown schema policy'') else None)"

fun kind_text :: "change_kind \<Rightarrow> string" where
  "kind_text AddField = ''add_field''"
| "kind_text DropField = ''drop_field''"
| "kind_text ChangeType = ''type''"
| "kind_text ChangeNullability = ''nullability''"
| "kind_text ChangeKey = ''key''"
| "kind_text ChangeOrder = ''order''"
| "kind_text ChangeEngine = ''engine''"
| "kind_text ChangeDestination = ''destination''"
| "kind_text ChangeSemantics = ''semantics''"

text \<open>The condition under which \<^verbatim>\<open>Check\<close> passes over a change.\<close>

definition permits :: "policy \<Rightarrow> change \<Rightarrow> bool" where
  "permits p c =
     (p = NullableAdd \<and> ch_Kind c = AddField \<and>
      (case ch_After c of None \<Rightarrow> False | Some f \<Rightarrow> fd_Nullable f \<and> fd_Logical f \<noteq> LogicalUnknown))"

definition Check :: "policy \<Rightarrow> string \<Rightarrow> diff \<Rightarrow> goerr option" where
  "Check p resource d =
     orelse_err (Policy_Validate p)
       (let reasons = map (\<lambda>c. kind_text (ch_Kind c) @ '' '' @ ch_Field c) (filter (\<lambda>c. \<not> permits p c) (df_Changes d))
        in if reasons \<noteq> [] then Some (ErrBlock resource reasons) else None)"

lemma Check_None:
  "Check p resource d = None \<longleftrightarrow> p \<in> {Strict, NullableAdd} \<and> (\<forall>c \<in> set (df_Changes d). permits p c)"
  by (auto simp: Check_def err_simps Policy_Validate_def Let_def filter_empty_conv split: if_splits)

section \<open>What a diff means\<close>

lemma field_map_Some:
  assumes "distinct (map fd_Name fs)"
  shows "field_map fs n = Some f \<longleftrightarrow> f \<in> set fs \<and> fd_Name f = n"
proof -
  have "distinct (map fst (rev (map (\<lambda>f. (fd_Name f, f)) fs)))"
    using assms by (simp add: comp_def flip: rev_map)
  then show ?thesis
    unfolding field_map_def by (subst map_of_eq_Some_iff) auto
qed

lemma field_map_None: "field_map fs n = None \<longleftrightarrow> n \<notin> fd_Name ` set fs"
  by (auto simp: field_map_def map_of_eq_None_iff image_image)

text \<open>\<open>after\<close> is \<open>before\<close> with the fields \<open>added\<close> put in between, everything else unchanged.\<close>

definition added_fields :: "schema \<Rightarrow> schema \<Rightarrow> field list" where
  "added_fields before after = filter (\<lambda>f. fd_Name f \<notin> fd_Name ` set (sc_Fields before)) (sc_Fields after)"

definition kept_fields :: "schema \<Rightarrow> schema \<Rightarrow> field list" where
  "kept_fields before after = filter (\<lambda>f. fd_Name f \<in> fd_Name ` set (sc_Fields before)) (sc_Fields after)"

definition same_frame :: "schema \<Rightarrow> schema \<Rightarrow> bool" where
  "same_frame before after =
     (sc_envelope before = sc_envelope after \<and> sc_projectedEnvelope before = sc_projectedEnvelope after \<and>
      sc_Resource before = sc_Resource after \<and> sc_DestinationResource before = sc_DestinationResource after \<and>
      sc_PrimaryKey before = sc_PrimaryKey after \<and> sc_Engine before = sc_Engine after)"

definition extends :: "schema \<Rightarrow> schema \<Rightarrow> bool" where
  "extends before after = (same_frame before after \<and> kept_fields before after = sc_Fields before)"

lemma old_changes_Nil:
  assumes "\<And>g. next (fd_Name f) = Some g \<Longrightarrow> fd_Name g = fd_Name f"
  shows "old_changes next f = [] \<longleftrightarrow> next (fd_Name f) = Some f"
proof (cases "next (fd_Name f)")
  case (Some g)
  have "fd_Name g = fd_Name f"
    by (rule assms [OF Some])
  then have "g = f \<longleftrightarrow> fd_Logical f = fd_Logical g \<and> fd_Native f = fd_Native g \<and> fd_Precision f = fd_Precision g \<and>
      fd_Scale f = fd_Scale g \<and> fd_Nullable f = fd_Nullable g"
    by (auto intro: field.equality)
  then show ?thesis
    unfolding old_changes_def Some by simp
qed (simp add: old_changes_def)

lemma kept_iff:
  assumes "distinct (map fd_Name (sc_Fields b))" "distinct (map fd_Name (sc_Fields a))"
  shows "kept_fields b a = sc_Fields b \<longleftrightarrow>
    set (sc_Fields b) \<subseteq> set (sc_Fields a) \<and> map fd_Name (kept_fields b a) = map fd_Name (sc_Fields b)"
proof
  assume k: "kept_fields b a = sc_Fields b"
  have "set (kept_fields b a) \<subseteq> set (sc_Fields a)"
    by (auto simp: kept_fields_def)
  then show "set (sc_Fields b) \<subseteq> set (sc_Fields a) \<and> map fd_Name (kept_fields b a) = map fd_Name (sc_Fields b)"
    unfolding k by simp
next
  assume r: "set (sc_Fields b) \<subseteq> set (sc_Fields a) \<and> map fd_Name (kept_fields b a) = map fd_Name (sc_Fields b)"
  have "inj_on fd_Name (set (kept_fields b a) \<union> set (sc_Fields b))"
    by (rule inj_on_subset [of fd_Name "set (sc_Fields a)"]) (use assms(2) r in \<open>auto simp: distinct_map kept_fields_def\<close>)
  then show "kept_fields b a = sc_Fields b"
    by (rule map_inj_on [OF conjunct2 [OF r]])
qed

lemma Compare_Inr:
  assumes "Compare b a = Inr d"
  shows "Validate b = None" "Validate a = None" "sc_Resource b = sc_Resource a"
    "distinct (map fd_Name (sc_Fields b))" "distinct (map fd_Name (sc_Fields a))"
  using assms by (auto simp: Compare_def err_simps Validate_None split: if_splits)

lemma Compare_total:
  "Validate b = None \<Longrightarrow> Validate a = None \<Longrightarrow> sc_Resource b = sc_Resource a \<Longrightarrow> \<exists>d. Compare b a = Inr d"
  by (simp add: Compare_def Let_def)

text \<open>All changes pass a test \<open>P\<close> that only passes additions.\<close>

lemma Compare_changes:
  assumes d: "Compare b a = Inr d"
    and adds: "\<And>c. P c \<Longrightarrow> ch_Kind c = AddField"
    and Q: "\<And>f. P \<lparr>ch_Kind = AddField, ch_Field = fd_Name f, ch_Before = None, ch_After = Some f\<rparr> = Q f"
  shows "(\<forall>c \<in> set (df_Changes d). P c) \<longleftrightarrow> extends b a \<and> (\<forall>f \<in> set (added_fields b a). Q f)"
proof -
  note wf = Compare_Inr [OF d]
  let ?next = "field_map (sc_Fields a)" and ?old = "field_map (sc_Fields b)"
  have none: "\<not> P (resource_change k)" if "k \<noteq> AddField" for k
    using adds that by (force simp: resource_change_def)
  have old: "(\<forall>f \<in> set (sc_Fields b). \<forall>c \<in> set (old_changes ?next f). P c) \<longleftrightarrow> set (sc_Fields b) \<subseteq> set (sc_Fields a)"
  proof -
    have "\<not> P c" if "c \<in> set (old_changes ?next f)" for c f
      using that adds by (force simp: old_changes_def split: option.splits if_splits)
    then have "(\<forall>c \<in> set (old_changes ?next f). P c) \<longleftrightarrow> old_changes ?next f = []" for f
      by (metis empty_iff last_in_set list.set(1))
    then show ?thesis
      using old_changes_Nil [of ?next] by (simp add: field_map_Some [OF wf(5)] subset_eq)
  qed
  have new: "(\<forall>f \<in> set (sc_Fields a). \<forall>c \<in> set (new_changes ?old f). P c) \<longleftrightarrow> (\<forall>f \<in> set (added_fields b a). Q f)"
    by (auto simp: new_changes_def field_map_None added_fields_def Q)
  have oldOrder: "map fd_Name (filter (\<lambda>f. ?next (fd_Name f) \<noteq> None) (sc_Fields b)) = map fd_Name (sc_Fields b)"
    if "set (sc_Fields b) \<subseteq> set (sc_Fields a)"
  proof -
    have "filter (\<lambda>f. ?next (fd_Name f) \<noteq> None) (sc_Fields b) = sc_Fields b"
      using that by (intro filter_True) (auto simp: field_map_None)
    then show ?thesis by simp
  qed
  have newOrder: "filter (\<lambda>f. ?old (fd_Name f) \<noteq> None) (sc_Fields a) = kept_fields b a"
    by (simp add: kept_fields_def field_map_None)
  have rest: "same_frame b a \<longleftrightarrow> sc_PrimaryKey b = sc_PrimaryKey a \<and> sc_Engine b = sc_Engine a \<and>
      sc_DestinationResource b = sc_DestinationResource a \<and>
      b\<lparr>sc_Fields := sc_Fields a, sc_PrimaryKey := sc_PrimaryKey a, sc_Engine := sc_Engine a,
        sc_DestinationResource := sc_DestinationResource a\<rparr> = a"
    using wf(3) by (cases a; cases b) (auto simp: same_frame_def)
  have cond: "(\<forall>c \<in> set (if x then [resource_change k] else []). P c) \<longleftrightarrow> \<not> x" if "k \<noteq> AddField" for x k
    using none [OF that] by simp
  have "df_Changes d = compare_changes b a"
    using d by (auto simp: Compare_def err_simps split: if_splits)
  then have "(\<forall>c \<in> set (df_Changes d). P c) \<longleftrightarrow>
      (\<forall>f \<in> set (sc_Fields b). \<forall>c \<in> set (old_changes ?next f). P c) \<and>
      (\<forall>f \<in> set (sc_Fields a). \<forall>c \<in> set (new_changes ?old f). P c) \<and>
      map fd_Name (filter (\<lambda>f. ?next (fd_Name f) \<noteq> None) (sc_Fields b)) = map fd_Name (kept_fields b a) \<and>
      same_frame b a"
    unfolding compare_changes_def Let_def rest
    by (simp only: newOrder set_append ball_Un cond change_kind.distinct not_False_eq_True Schema_Equal_iff not_not
      set_concat set_map ball_UN ball_simps)
  then show ?thesis
    using oldOrder unfolding old new extends_def kept_iff [OF wf(4,5)] by auto
qed

lemma extends_nothing: "extends b a \<and> added_fields b a = [] \<longleftrightarrow> b = a"
proof
  assume e: "extends b a \<and> added_fields b a = []"
  then have "kept_fields b a = sc_Fields a"
    by (auto simp: kept_fields_def added_fields_def filter_empty_conv intro!: filter_True)
  with e show "b = a"
    by (cases b; cases a) (auto simp: extends_def same_frame_def)
qed (auto simp: extends_def same_frame_def added_fields_def kept_fields_def filter_empty_conv)

lemma Compare_no_changes: "Compare b a = Inr d \<Longrightarrow> df_Changes d = [] \<longleftrightarrow> b = a"
  using Compare_changes [of b a d "\<lambda>_. False" "\<lambda>_. False"] extends_nothing [of b a] by auto

lemma Check_Strict_iff: "Compare b a = Inr d \<Longrightarrow> Check Strict r d = None \<longleftrightarrow> b = a"
  using Compare_no_changes [of b a d] by (auto simp: Check_None permits_def)

definition addition_ok :: "field \<Rightarrow> bool" where
  "addition_ok f = (fd_Nullable f \<and> fd_Logical f \<noteq> LogicalUnknown)"

lemma Check_NullableAdd_iff:
  assumes "Compare b a = Inr d"
  shows "Check NullableAdd r d = None \<longleftrightarrow> extends b a \<and> list_all addition_ok (added_fields b a)"
proof -
  have "(\<forall>c \<in> set (df_Changes d). permits NullableAdd c) \<longleftrightarrow> extends b a \<and> (\<forall>f \<in> set (added_fields b a). addition_ok f)"
    by (rule Compare_changes [OF assms]) (auto simp: permits_def addition_ok_def)
  then show ?thesis
    by (simp add: Check_None list_all_iff)
qed

text \<open>
  C24: the policies decide drift as documented. For two valid schemas of one resource, comparison
  always yields a diff; the strict policy passes it exactly when the schemas are equal; the additive
  policy passes it exactly when the new schema keeps every old field unchanged and in order, keeps
  key, engine, destination and envelope, and every added field is nullable with a known type.
\<close>

theorem policies_decide_drift:
  assumes "Validate before = None" "Validate after = None" "sc_Resource before = sc_Resource after"
  shows "\<exists>d. Compare before after = Inr d \<and>
    (Check Strict resource d = None \<longleftrightarrow> before = after) \<and>
    (Check NullableAdd resource d = None \<longleftrightarrow> extends before after \<and> list_all addition_ok (added_fields before after))"
  using Compare_total [OF assms] Check_Strict_iff Check_NullableAdd_iff by blast

definition orders_v2 :: schema where
  "orders_v2 = orders_schema\<lparr>sc_Fields := simple_field ''tag'' LogicalString # sc_Fields orders_schema\<rparr>"

lemma orders_valid: "Validate orders_schema = None" "Validate orders_v2 = None"
  by (simp_all add: Validate_None orders_schema_def orders_v2_def field_wf_def byte_def)

theorem policies_decide_drift_witness:
  "\<exists>d. Compare orders_schema orders_v2 = Inr d \<and> Check Strict ''orders'' d \<noteq> None \<and> Check NullableAdd ''orders'' d = None"
proof -
  have "sc_Resource orders_schema = sc_Resource orders_v2" "orders_schema \<noteq> orders_v2"
    "extends orders_schema orders_v2"
    "list_all addition_ok (added_fields orders_schema orders_v2)"
    by (simp_all add: orders_schema_def orders_v2_def extends_def same_frame_def kept_fields_def added_fields_def
      addition_ok_def)
  then show ?thesis
    using policies_decide_drift [OF orders_valid, of "''orders''"] by auto
qed

section \<open>Reconciliation of a destination table\<close>

definition CompareNamed :: "schema \<Rightarrow> schema \<Rightarrow> diff res" where
  "CompareNamed actual desired =
     Compare (actual\<lparr>sc_Fields := sort_key fd_Name (sc_Fields actual)\<rparr>)
             (desired\<lparr>sc_Fields := sort_key fd_Name (sc_Fields desired)\<rparr>)"

record detection =
  dt_Side :: string
  dt_Policy :: policy
  dt_Changes :: "(change_kind \<times> string) list"

definition Observe :: "string \<Rightarrow> policy \<Rightarrow> diff \<Rightarrow> detection option" where
  "Observe side policy d =
     (if df_Changes d = [] then None
      else Some \<lparr>dt_Side = side, dt_Policy = policy, dt_Changes = map (\<lambda>c. (ch_Kind c, ch_Field c)) (df_Changes d)\<rparr>)"

text \<open>
  A target is a connector's table behind two operations on a state of any type. The result is the
  table's state, the error, and what an installed observer was told. Only additions pass \<^const>\<open>Check\<close>,
  and every addition carries its field, so reading \<^verbatim>\<open>*change.After\<close> never meets a nil pointer.
\<close>

definition reconcile_verify :: "('s \<Rightarrow> schema res) \<Rightarrow> schema \<Rightarrow> 's \<Rightarrow> goerr option" where
  "reconcile_verify Inspect desired s =
     (case bind_res (Inspect s) (\<lambda>actual. CompareNamed actual desired) of
        Inl e \<Rightarrow> Some e
      | Inr d \<Rightarrow> Check Strict (sc_Resource desired) d)"

definition Reconcile ::
  "('s \<Rightarrow> schema res) \<Rightarrow> (field list \<Rightarrow> 's \<Rightarrow> 's \<times> goerr option) \<Rightarrow> schema \<Rightarrow> policy \<Rightarrow> 's \<Rightarrow>
    's \<times> goerr option \<times> detection option" where
  "Reconcile Inspect AddNullable desired policy s =
     (case check_err (Policy_Validate policy) (bind_res (Inspect s) (\<lambda>actual. CompareNamed actual desired)) of
        Inl e \<Rightarrow> (s, Some e, None)
      | Inr d \<Rightarrow>
          (let seen = Observe ''sink'' policy d in
           case Check policy (sc_Resource desired) d of
             Some e \<Rightarrow> (s, Some e, seen)
           | None \<Rightarrow>
               if df_Changes d = [] then (s, None, seen)
               else
                 (case AddNullable (List.map_filter ch_After (df_Changes d)) s of
                    (s', Some e) \<Rightarrow> (s', Some e, seen)
                  | (s', None) \<Rightarrow> (s', reconcile_verify Inspect desired s', seen))))"

definition by_name :: "schema \<Rightarrow> schema" where
  "by_name s = s\<lparr>sc_Fields := sort_key fd_Name (sc_Fields s)\<rparr>"

lemma CompareNamed_by_name: "CompareNamed a d = Compare (by_name a) (by_name d)"
  by (simp add: CompareNamed_def by_name_def)

text \<open>The fields handed to the connector are the additions of the diff.\<close>

lemma compare_additions:
  "List.map_filter ch_After (filter (\<lambda>c. ch_Kind c = AddField) (compare_changes b a)) = added_fields b a"
proof -
  have old: "filter (\<lambda>c. ch_Kind c = AddField) (old_changes n f) = []" for n f
    by (simp add: old_changes_def split: option.split)
  have new: "filter (\<lambda>c. ch_Kind c = AddField) (new_changes n f) = new_changes n f" for n f
    by (simp add: new_changes_def)
  have cond: "filter (\<lambda>c. ch_Kind c = AddField) (if x then [resource_change k] else []) = []" if "k \<noteq> AddField" for x k
    using that by (simp add: resource_change_def)
  have "filter (\<lambda>c. ch_Kind c = AddField) (compare_changes b a) = concat (map (new_changes (field_map (sc_Fields b))) (sc_Fields a))"
    unfolding compare_changes_def Let_def by (simp add: filter_concat comp_def old new cond)
  moreover have "List.map_filter ch_After (concat (map (new_changes n) fs)) = filter (\<lambda>f. n (fd_Name f) = None) fs" for n fs
    by (induction fs) (auto simp: new_changes_def map_filter_simps)
  ultimately show ?thesis
    by (simp add: added_fields_def field_map_None)
qed

lemma permitted_additions:
  assumes "Compare b a = Inr d" "Check p r d = None"
  shows "List.map_filter ch_After (df_Changes d) = added_fields b a" "list_all addition_ok (added_fields b a)"
proof -
  have p: "p = Strict \<or> p = NullableAdd" and adds: "\<forall>c \<in> set (df_Changes d). permits p c"
    using assms(2) by (auto simp: Check_None)
  have "df_Changes d = compare_changes b a"
    using assms(1) by (auto simp: Compare_def err_simps split: if_splits)
  moreover have "filter (\<lambda>c. ch_Kind c = AddField) (df_Changes d) = df_Changes d"
    using adds by (intro filter_True) (auto simp: permits_def)
  ultimately show "List.map_filter ch_After (df_Changes d) = added_fields b a"
    using compare_additions [of b a] by simp
  show "list_all addition_ok (added_fields b a)"
    using p assms(2) Check_Strict_iff [OF assms(1)] Check_NullableAdd_iff [OF assms(1)] extends_nothing [of b a] by auto
qed

lemma by_name_added: "set (added_fields (by_name a) (by_name d)) = set (added_fields a d)"
  by (auto simp: added_fields_def by_name_def)

text \<open>The three ways a reconciliation goes: an early error, nothing to do, or one call to the connector.\<close>

inductive reconciled ::
  "('s \<Rightarrow> schema res) \<Rightarrow> (field list \<Rightarrow> 's \<Rightarrow> 's \<times> goerr option) \<Rightarrow> schema \<Rightarrow> policy \<Rightarrow> 's \<Rightarrow> 's \<Rightarrow> goerr option \<Rightarrow> bool"
  for ins add desired policy s where
  refused: "reconciled ins add desired policy s s (Some e)"
| unchanged: "ins s = Inr actual \<Longrightarrow> CompareNamed actual desired = Inr d \<Longrightarrow> df_Changes d = [] \<Longrightarrow>
    reconciled ins add desired policy s s None"
| added: "ins s = Inr actual \<Longrightarrow> CompareNamed actual desired = Inr d \<Longrightarrow>
    Check policy (sc_Resource desired) d = None \<Longrightarrow> df_Changes d \<noteq> [] \<Longrightarrow>
    s' = fst (add (List.map_filter ch_After (df_Changes d)) s) \<Longrightarrow>
    (err = None \<Longrightarrow> \<exists>final d'. ins s' = Inr final \<and> CompareNamed final desired = Inr d' \<and>
       Check Strict (sc_Resource desired) d' = None) \<Longrightarrow>
    reconciled ins add desired policy s s' err"

lemma verify_None:
  "reconcile_verify ins desired s = None \<longleftrightarrow>
    (\<exists>final d. ins s = Inr final \<and> CompareNamed final desired = Inr d \<and> Check Strict (sc_Resource desired) d = None)"
  by (cases "ins s") (auto simp: reconcile_verify_def split: sum.split)

lemma Reconcile_reconciled:
  assumes r: "Reconcile ins add desired policy s = (s', err, seen)"
  shows "reconciled ins add desired policy s s' err"
proof (cases "check_err (Policy_Validate policy) (bind_res (ins s) (\<lambda>actual. CompareNamed actual desired))")
  case (Inl e)
  with r show ?thesis
    by (auto simp: Reconcile_def intro: reconciled.refused)
next
  case (Inr d)
  then obtain actual where t: "ins s = Inr actual" "CompareNamed actual desired = Inr d"
    by (auto simp: err_simps)
  show ?thesis
  proof (cases "Check policy (sc_Resource desired) d")
    case (Some e)
    then have "s' = s" "err = Some e"
      using r by (simp_all add: Reconcile_def Inr)
    then show ?thesis
      by (simp add: reconciled.refused)
  next
    case None
    obtain s2 e2 where a: "add (List.map_filter ch_After (df_Changes d)) s = (s2, e2)"
      by fastforce
    show ?thesis
    proof (cases "df_Changes d = []")
      case True
      then have "s' = s" "err = None"
        using r by (simp_all add: Reconcile_def Inr None)
      then show ?thesis
        using reconciled.unchanged [of ins s actual desired d] t True by simp
    next
      case False
      have s': "s' = s2" and err: "err = None \<Longrightarrow> reconcile_verify ins desired s' = None"
        using r Inr None False a by (auto simp: Reconcile_def Let_def split: option.splits)
      show ?thesis
        by (rule reconciled.added [where actual = actual and d = d])
          (use t None False a s' err in \<open>simp_all add: verify_None\<close>)
    qed
  qed
qed

text \<open>
  C15: reconciliation is safe for any destination. It changes the table by at most one call, which
  adds columns that the desired schema has and the inspected table lacks, all nullable with a known
  type, and never under the strict policy; and when it reports success the table, inspected again,
  is the desired schema up to the physical order of its columns.
\<close>

theorem Reconcile_safe:
  assumes "Reconcile Inspect AddNullable desired policy s = (s', err, seen)"
  shows "(s' = s \<or> policy = NullableAdd \<and> (\<exists>actual fs. Inspect s = Inr actual \<and> fs \<noteq> [] \<and>
      set fs = set (added_fields actual desired) \<and> list_all addition_ok fs \<and> s' = fst (AddNullable fs s))) \<and>
    (err = None \<longrightarrow> (\<exists>final. Inspect s' = Inr final \<and> by_name final = by_name desired))"
  using Reconcile_reconciled [OF assms]
proof cases
  case (unchanged actual d)
  then show ?thesis
    using Compare_no_changes [of "by_name actual" "by_name desired" d] by (auto simp: CompareNamed_by_name)
next
  case (added actual d)
  let ?a = "by_name actual" and ?d = "by_name desired"
  have cmp: "Compare ?a ?d = Inr d"
    using added by (simp add: CompareNamed_by_name)
  note fs = permitted_additions [OF cmp added(3)]
  have "?a \<noteq> ?d"
    using Compare_no_changes [OF cmp] added(4) by blast
  moreover have "policy = Strict \<or> policy = NullableAdd"
    using added(3) by (auto simp: Check_None)
  ultimately have "policy = NullableAdd" "added_fields ?a ?d \<noteq> []"
    using Check_Strict_iff [OF cmp, of "sc_Resource desired"] Check_NullableAdd_iff [OF cmp, of "sc_Resource desired"]
      added(3) extends_nothing [of ?a ?d] by auto
  moreover have "\<exists>final. Inspect s' = Inr final \<and> by_name final = ?d" if "err = None"
    using added(6) [OF that] by (auto simp: CompareNamed_by_name dest: Check_Strict_iff [THEN iffD1])
  ultimately show ?thesis
    using added(1,5) fs by_name_added [of actual desired] by auto
qed simp

text \<open>A table that is its schema and takes additions at the end.\<close>

definition table_add :: "field list \<Rightarrow> schema \<Rightarrow> schema \<times> goerr option" where
  "table_add fs s = (s\<lparr>sc_Fields := sc_Fields s @ fs\<rparr>, None)"

theorem Reconcile_safe_witness:
  "\<exists>s' seen. Reconcile Inr table_add orders_v2 NullableAdd orders_schema = (s', None, seen) \<and>
    by_name s' = by_name orders_v2"
proof -
  define r where "r = Reconcile Inr table_add orders_v2 NullableAdd orders_schema"
  have "fst (snd r) = None"
    unfolding r_def by code_simp
  then obtain s' seen where "r = (s', None, seen)"
    by (cases r) auto
  then show ?thesis
    using Reconcile_safe [of Inr table_add orders_v2 NullableAdd orders_schema s' None seen] by (auto simp: r_def)
qed

section \<open>Message layouts\<close>

text \<open>A nil slice of fields is told apart from an empty one, as reflection and JSON do.\<close>

record message_layout =
  ml_Raw :: bool
  ml_slice :: "field list option"

definition ml_Fields :: "message_layout \<Rightarrow> field list" where
  "ml_Fields m = (case ml_slice m of None \<Rightarrow> [] | Some fs \<Rightarrow> fs)"

definition fields_schema :: "string \<Rightarrow> field list \<Rightarrow> schema" where
  "fields_schema resource fs =
     \<lparr>sc_envelope = False, sc_projectedEnvelope = False, sc_Resource = resource, sc_DestinationResource = [],
      sc_Fields = fs, sc_PrimaryKey = [], sc_Engine = []\<rparr>"

text \<open>The loop over the fields; \<open>n\<close> is the number of fields, \<open>seen\<close> the lower-cased names so far.\<close>

fun message_fields_err :: "(string \<Rightarrow> string) \<Rightarrow> bool \<Rightarrow> nat \<Rightarrow> string list \<Rightarrow> field list \<Rightarrow> goerr option" where
  "message_fields_err uni raw n seen [] = None"
| "message_fields_err uni raw n seen (f # fs) =
     (let name = to_lower uni (fd_Name f) in
      if name \<in> set seen \<or> prefix ''_filament_'' name \<or> \<not> fd_Nullable f \<or> fd_Native f \<noteq> [] \<or> fd_Precision f \<noteq> 0
         \<or> fd_Scale f \<noteq> 0
      then Some (ErrMsg ''invalid message field'')
      else if raw \<and> (n \<noteq> 1 \<or> fd_Name f \<noteq> ''payload'' \<or> fd_Logical f \<noteq> LogicalBytes)
      then Some (ErrMsg ''invalid raw message layout'')
      else if \<not> raw \<and> fd_Logical f \<noteq> LogicalString \<and> fd_Logical f \<noteq> LogicalBool \<and> fd_Logical f \<noteq> LogicalJSON
      then Some (ErrMsg ''unsupported message type'')
      else message_fields_err uni raw n (name # seen) fs)"

definition MessageLayout_Validate :: "(string \<Rightarrow> string) \<Rightarrow> message_layout \<Rightarrow> goerr option" where
  "MessageLayout_Validate uni m =
     orelse_err (Validate (fields_schema [] (ml_Fields m)))
       (orelse_err (message_fields_err uni (ml_Raw m) (length (ml_Fields m)) [] (ml_Fields m))
         (if ml_Raw m \<and> length (ml_Fields m) \<noteq> 1 then Some (ErrMsg ''raw messages require a payload field'') else None))"

definition CheckMessageChange ::
  "(string \<Rightarrow> string) \<Rightarrow> string \<Rightarrow> message_layout \<Rightarrow> message_layout \<Rightarrow> policy \<Rightarrow> goerr option" where
  "CheckMessageChange uni resource before after policy =
     orelse_err (MessageLayout_Validate uni before)
       (orelse_err (MessageLayout_Validate uni after)
         (if ml_Raw before \<noteq> ml_Raw after
          then Some (ErrBlock resource [''raw/object message representation changed''])
          else case Compare (fields_schema resource (ml_Fields before)) (fields_schema resource (ml_Fields after)) of
            Inl e \<Rightarrow> Some e
          | Inr d \<Rightarrow> Check policy resource d))"

type_synonym message_layouts = "(string \<times> message_layout) list"

definition CheckMessageLayouts :: "(string \<Rightarrow> string) \<Rightarrow> message_layouts \<Rightarrow> message_layouts \<Rightarrow> goerr option" where
  "CheckMessageLayouts uni before after =
     orelse_err
       (first_err (\<lambda>(resource, layout).
          if resource = [] \<or> \<not> utf8_valid resource then Some (ErrMsg ''message layout requires a resource'')
          else MessageLayout_Validate uni layout) after)
       (first_err (\<lambda>(resource, old).
          case map_of after resource of
            None \<Rightarrow> Some (ErrBlock resource [''accepted message layout is missing''])
          | Some next \<Rightarrow> CheckMessageChange uni resource old next NullableAdd) before)"

text \<open>What an accepted change of one layout is: the old fields are kept, in order.\<close>

definition layout_le :: "message_layout \<Rightarrow> message_layout \<Rightarrow> bool" where
  "layout_le old new =
     (ml_Raw old = ml_Raw new \<and>
      filter (\<lambda>f. fd_Name f \<in> fd_Name ` set (ml_Fields old)) (ml_Fields new) = ml_Fields old)"

lemma message_fields_typed:
  "message_fields_err uni raw n seen fs = None \<Longrightarrow> f \<in> set fs \<Longrightarrow> fd_Nullable f \<and> fd_Logical f \<noteq> LogicalUnknown"
  by (induction uni raw n seen fs rule: message_fields_err.induct) (auto simp: Let_def split: if_splits)

lemma layout_additions_ok: "MessageLayout_Validate uni m = None \<Longrightarrow> f \<in> set (ml_Fields m) \<Longrightarrow> addition_ok f"
  using message_fields_typed by (auto simp: MessageLayout_Validate_def err_simps addition_ok_def)

lemma CheckMessageChange_None:
  assumes "utf8_valid resource"
  shows "CheckMessageChange uni resource old new NullableAdd = None \<longleftrightarrow>
    MessageLayout_Validate uni old = None \<and> MessageLayout_Validate uni new = None \<and> layout_le old new"
proof (cases "MessageLayout_Validate uni old = None \<and> MessageLayout_Validate uni new = None \<and> ml_Raw old = ml_Raw new")
  case True
  let ?b = "fields_schema resource (ml_Fields old)" and ?a = "fields_schema resource (ml_Fields new)"
  have "Validate ?b = None" "Validate ?a = None"
    using True assms by (auto simp: MessageLayout_Validate_def err_simps Validate_None fields_schema_def)
  then obtain d where d: "Compare ?b ?a = Inr d"
    using Compare_total [of ?b ?a] by (auto simp: fields_schema_def)
  have "list_all addition_ok (added_fields ?b ?a)"
    using True layout_additions_ok [of uni new] by (auto simp: list_all_iff added_fields_def fields_schema_def)
  moreover have "extends ?b ?a \<longleftrightarrow> layout_le old new"
    using True by (simp add: extends_def layout_le_def same_frame_def kept_fields_def fields_schema_def)
  ultimately show ?thesis
    using True by (simp add: CheckMessageChange_def d Check_NullableAdd_iff [OF d])
qed (auto simp: CheckMessageChange_def err_simps layout_le_def)

lemma layout_le_trans:
  assumes "layout_le a b" "layout_le b c"
  shows "layout_le a c"
proof -
  let ?in = "\<lambda>m f. fd_Name f \<in> fd_Name ` set (ml_Fields m)"
  have "set (ml_Fields a) \<subseteq> set (ml_Fields b)"
    using assms(1) by (metis filter_is_subset layout_le_def)
  then have "filter (?in a) (ml_Fields c) = filter (?in a) (filter (?in b) (ml_Fields c))"
    by (auto simp: filter_filter intro!: filter_cong)
  also have "\<dots> = ml_Fields a"
    using assms by (simp add: layout_le_def)
  finally show ?thesis
    using assms by (simp add: layout_le_def)
qed

lemma layout_le_refl [simp]: "layout_le a a"
  by (simp add: layout_le_def)

definition layouts_wf :: "(string \<Rightarrow> string) \<Rightarrow> message_layouts \<Rightarrow> bool" where
  "layouts_wf uni ls = (\<forall>(r, m) \<in> set ls. r \<noteq> [] \<and> utf8_valid r \<and> MessageLayout_Validate uni m = None)"

lemma CheckMessageLayouts_None:
  assumes "layouts_wf uni before"
  shows "CheckMessageLayouts uni before after = None \<longleftrightarrow> layouts_wf uni after \<and>
    (\<forall>(r, old) \<in> set before. \<exists>new. map_of after r = Some new \<and> layout_le old new)"
proof -
  have "(case map_of after r of None \<Rightarrow> Some (ErrBlock r [''accepted message layout is missing''])
      | Some next \<Rightarrow> CheckMessageChange uni r old next NullableAdd) = None \<longleftrightarrow>
      (\<exists>new. map_of after r = Some new \<and> layout_le old new)"
    if "layouts_wf uni after" "(r, old) \<in> set before" for r old
  proof (cases "map_of after r")
    case (Some new)
    then have "MessageLayout_Validate uni new = None" "utf8_valid r" "MessageLayout_Validate uni old = None"
      using that assms map_of_SomeD [OF Some] by (auto simp: layouts_wf_def)
    with Some show ?thesis by (simp add: CheckMessageChange_None)
  qed simp
  moreover have "first_err (\<lambda>(resource, layout).
          if resource = [] \<or> \<not> utf8_valid resource then Some (ErrMsg ''message layout requires a resource'')
          else MessageLayout_Validate uni layout) after = None \<longleftrightarrow> layouts_wf uni after"
    by (auto simp: first_err_None layouts_wf_def split: if_splits)
  ultimately show ?thesis
    unfolding CheckMessageLayouts_def orelse_err_None by (auto simp: first_err_None)
qed

lemma layouts_step_wf:
  "layouts_wf uni a \<Longrightarrow> CheckMessageLayouts uni a b = None \<Longrightarrow> layouts_wf uni b"
  by (simp add: CheckMessageLayouts_None)

lemma layouts_step_trans:
  assumes "layouts_wf uni a" "CheckMessageLayouts uni a b = None" "CheckMessageLayouts uni b c = None"
  shows "CheckMessageLayouts uni a c = None"
proof -
  note b = layouts_step_wf [OF assms(1,2)]
  have "\<exists>new. map_of c r = Some new \<and> layout_le old new" if old: "(r, old) \<in> set a" for r old
  proof -
    obtain mid where mid: "map_of b r = Some mid" "layout_le old mid"
      using assms(1,2) old by (auto simp: CheckMessageLayouts_None)
    then obtain new where "map_of c r = Some new" "layout_le mid new"
      using assms(3) b map_of_SomeD [OF mid(1)] by (auto simp: CheckMessageLayouts_None)
    then show ?thesis
      using mid(2) layout_le_trans by blast
  qed
  then show ?thesis
    using assms b by (auto simp: CheckMessageLayouts_None)
qed

text \<open>
  C25: message decoding never changes meaning over a stream's life. If every two consecutive
  committed layouts pass the layout check, starting from well-formed ones, then every later layout
  passes the check against every earlier one: no resource is lost, no accepted field is dropped,
  moved, retyped or made non-null, and raw resources stay raw, however many epochs lie between.
\<close>

theorem message_layouts_chain:
  assumes "layouts_wf uni first" "successively (\<lambda>a b. CheckMessageLayouts uni a b = None) (first # rest)"
  shows "sorted_wrt (\<lambda>a b. CheckMessageLayouts uni a b = None) (first # rest)"
  using assms
proof (induction rest arbitrary: first)
  case (Cons second rest)
  then have step: "CheckMessageLayouts uni first second = None"
    by simp
  have "successively (\<lambda>a b. CheckMessageLayouts uni a b = None) (second # rest)"
    using Cons.prems(2) by simp
  then have ih: "sorted_wrt (\<lambda>a b. CheckMessageLayouts uni a b = None) (second # rest)"
    by (rule Cons.IH [OF layouts_step_wf [OF Cons.prems(1) step]])
  then have "CheckMessageLayouts uni first x = None" if "x \<in> set rest" for x
    using that by (intro layouts_step_trans [OF Cons.prems(1) step]) simp
  with ih step show ?case
    by simp
qed simp

definition layout_of :: "string list \<Rightarrow> message_layout" where
  "layout_of names = \<lparr>ml_Raw = False, ml_slice = Some (map (\<lambda>n. simple_field n LogicalString) names)\<rparr>"

lemma layout_of_sel: "ml_Raw (layout_of names) = False" "ml_Fields (layout_of names) = map (\<lambda>n. simple_field n LogicalString) names"
  by (simp_all add: layout_of_def ml_Fields_def)

theorem message_layouts_chain_witness:
  "sorted_wrt (\<lambda>a b. CheckMessageLayouts (\<lambda>s. s) a b = None)
    [[(''t'', layout_of [''a''])], [(''t'', layout_of [''b'', ''a''])], [(''t'', layout_of [''b'', ''a'', ''c''])]]"
proof (rule message_layouts_chain)
  show "layouts_wf (\<lambda>s. s) [(''t'', layout_of [''a''])]"
    by (simp add: layouts_wf_def layout_of_sel MessageLayout_Validate_def Validate_None fields_schema_def field_wf_def
      to_lower_def ascii_lower_def byte_def err_simps)
  show "successively (\<lambda>a b. CheckMessageLayouts (\<lambda>s. s) a b = None)
    [[(''t'', layout_of [''a''])], [(''t'', layout_of [''b'', ''a''])], [(''t'', layout_of [''b'', ''a'', ''c''])]]"
    by (simp add: CheckMessageLayouts_None layouts_wf_def layout_le_def layout_of_sel MessageLayout_Validate_def
      Validate_None fields_schema_def field_wf_def to_lower_def ascii_lower_def byte_def err_simps)
qed

end
