(* ===== verification/GoJson.thy ===== *)
theory GoJson
  imports GoStrings
begin

text \<open>
  The part of package \<^verbatim>\<open>encoding/json\<close> that checkpoints rely on: lists of strings to JSON text and
  back. The encoder escapes what Go escapes (quotes, backslash, control characters, the HTML
  characters, U+2028 and U+2029, and invalid bytes as U+FFFD); the decoder accepts any JSON text of a
  list of strings, with white space, nulls and every escape.
\<close>

section \<open>Encoding\<close>

definition hex_digit :: "nat \<Rightarrow> char" where
  "hex_digit d = (if d < 10 then char_of (48 + d) else char_of (87 + d))"

definition ascii_escape :: "char \<Rightarrow> string" where
  "ascii_escape c =
     (if c = CHR 0x22 then [CHR 0x5C, CHR 0x22]
      else if c = CHR 0x5C then [CHR 0x5C, CHR 0x5C]
      else if c = CHR 0x08 then [CHR 0x5C, CHR ''b'']
      else if c = CHR 0x0C then [CHR 0x5C, CHR ''f'']
      else if c = CHR 0x0A then [CHR 0x5C, CHR ''n'']
      else if c = CHR 0x0D then [CHR 0x5C, CHR ''r'']
      else if c = CHR 0x09 then [CHR 0x5C, CHR ''t'']
      else if byte c < 32 \<or> c = CHR ''<'' \<or> c = CHR ''>'' \<or> c = CHR ''&''
      then [CHR 0x5C, CHR ''u'', CHR ''0'', CHR ''0'', hex_digit (byte c div 16), hex_digit (byte c mod 16)]
      else [c])"

definition line_separator :: "string \<Rightarrow> bool" where
  "line_separator r = (r = [CHR 0xE2, CHR 0x80, CHR 0xA8] \<or> r = [CHR 0xE2, CHR 0x80, CHR 0xA9])"

definition rune_escape :: "string \<Rightarrow> string" where
  "rune_escape r =
     (if line_separator r
      then CHR 0x5C # (if r = [CHR 0xE2, CHR 0x80, CHR 0xA8] then ''u2028'' else ''u2029'')
      else r)"

lemma rune_len_bounds: "rune_len s \<le> length s" "rune_len s \<le> 4" "s \<noteq> [] \<Longrightarrow> byte (hd s) < 128 \<Longrightarrow> rune_len s = 1"
  by (auto simp: rune_len_def split: list.splits)

function quote_body :: "string \<Rightarrow> string" where
  "quote_body s =
     (if s = [] then []
      else if rune_len s = 0 then CHR 0x5C # ''ufffd'' @ quote_body (tl s)
      else if rune_len s = 1 then ascii_escape (hd s) @ quote_body (tl s)
      else rune_escape (take (rune_len s) s) @ quote_body (drop (rune_len s) s))"
  by pat_completeness auto
termination
  by (relation "measure length") auto

declare quote_body.simps [simp del]

definition json_quote :: "string \<Rightarrow> string" where
  "json_quote s = CHR 0x22 # quote_body s @ [CHR 0x22]"

text \<open>\<^verbatim>\<open>json.Marshal\<close> of a \<^verbatim>\<open>[]string\<close>; None is the nil slice.\<close>

definition json_strings :: "string list option \<Rightarrow> string" where
  "json_strings v =
     (case v of None \<Rightarrow> ''null'' | Some ss \<Rightarrow> CHR ''['' # join_on (CHR '','') (map json_quote ss) @ '']'')"

section \<open>Decoding\<close>

definition hex_val :: "char \<Rightarrow> nat option" where
  "hex_val c =
     (if in_range 48 57 c then Some (byte c - 48)
      else if in_range 97 102 c then Some (byte c - 87)
      else if in_range 65 70 c then Some (byte c - 55) else None)"

definition hex4 :: "string \<Rightarrow> nat option" where
  "hex4 s = (case map hex_val (take 4 s) of
     [Some a, Some b, Some c, Some d] \<Rightarrow> Some (4096 * a + 256 * b + 16 * c + d) | _ \<Rightarrow> None)"

definition utf8_encode :: "nat \<Rightarrow> string" where
  "utf8_encode r =
     (if r < 128 then [char_of r]
      else if r < 2048 then [char_of (192 + r div 64), char_of (128 + r mod 64)]
      else if r < 65536 then [char_of (224 + r div 4096), char_of (128 + r div 64 mod 64), char_of (128 + r mod 64)]
      else [char_of (240 + r div 262144), char_of (128 + r div 4096 mod 64), char_of (128 + r div 64 mod 64),
            char_of (128 + r mod 64)])"

definition rune_error :: string where
  "rune_error = [CHR 0xEF, CHR 0xBF, CHR 0xBD]"

text \<open>
  A \<^verbatim>\<open>\uXXXX\<close> escape after its four digits were read as \<open>r\<close>, with the text behind it: the decoded
  bytes and the number of further bytes used. A high surrogate takes the low one that follows; a
  surrogate on its own becomes U+FFFD.
\<close>

definition unicode_escape :: "nat \<Rightarrow> string \<Rightarrow> string \<times> nat" where
  "unicode_escape r s =
     (if r < 55296 \<or> r \<ge> 57344 then (utf8_encode r, 0)
      else if r < 56320 \<and> take 2 s = [CHR 0x5C, CHR ''u''] then
        (case hex4 (drop 2 s) of
           Some l \<Rightarrow> if 56320 \<le> l \<and> l < 57344 then (utf8_encode (65536 + (r - 55296) * 1024 + (l - 56320)), 6)
                     else (rune_error, 0)
         | None \<Rightarrow> (rune_error, 0))
      else (rune_error, 0))"

definition simple_escape :: "char \<Rightarrow> char option" where
  "simple_escape c =
     (if c = CHR 0x22 \<or> c = CHR 0x5C \<or> c = CHR ''/'' then Some c
      else if c = CHR ''b'' then Some (CHR 0x08)
      else if c = CHR ''f'' then Some (CHR 0x0C)
      else if c = CHR ''n'' then Some (CHR 0x0A)
      else if c = CHR ''r'' then Some (CHR 0x0D)
      else if c = CHR ''t'' then Some (CHR 0x09) else None)"

text \<open>One unit of a string literal's body: what it decodes to and how many bytes it takes; None is a
  syntax error or the end of the text.\<close>

definition string_unit :: "string \<Rightarrow> (string \<times> nat) option" where
  "string_unit s = (case s of
     [] \<Rightarrow> None
   | c # s1 \<Rightarrow>
       if c = CHR 0x5C then
         (case s1 of
            [] \<Rightarrow> None
          | e # s2 \<Rightarrow>
              if e = CHR ''u'' then
                (case hex4 s2 of
                   None \<Rightarrow> None
                 | Some r \<Rightarrow> (case unicode_escape r (drop 4 s2) of (out, more) \<Rightarrow> Some (out, 6 + more)))
              else map_option (\<lambda>x. ([x], 2)) (simple_escape e))
       else if byte c < 32 then None
       else if rune_len s = 0 then Some (rune_error, 1)
       else Some (take (rune_len s) s, rune_len s))"

lemma string_unit_pos: "string_unit s = Some (out, n) \<Longrightarrow> 0 < n"
  by (auto simp: string_unit_def split: list.splits if_splits option.splits prod.splits)

function unquote :: "string \<Rightarrow> (string \<times> string) option" where
  "unquote s =
     (if s \<noteq> [] \<and> hd s = CHR 0x22 then Some ([], tl s)
      else case string_unit s of
        None \<Rightarrow> None
      | Some (out, n) \<Rightarrow>
          if n = 0 \<or> s = [] then None
          else map_option (\<lambda>(rest, tail). (out @ rest, tail)) (unquote (drop n s)))"
  by pat_completeness auto
termination
  by (relation "measure length") auto

declare unquote.simps [simp del]

text \<open>JSON white space.\<close>

definition is_ws :: "char \<Rightarrow> bool" where
  "is_ws c = (c = CHR 0x20 \<or> c = CHR 0x09 \<or> c = CHR 0x0A \<or> c = CHR 0x0D)"

definition skip_ws :: "string \<Rightarrow> string" where
  "skip_ws s = dropWhile is_ws s"

text \<open>One element of the list: a string, or null, which leaves the empty string.\<close>

definition json_elem :: "string \<Rightarrow> (string \<times> string) option" where
  "json_elem s =
     (if take 4 s = ''null'' then Some ([], drop 4 s)
      else case s of c # r \<Rightarrow> if c = CHR 0x22 then unquote r else None | [] \<Rightarrow> None)"

text \<open>The elements of a list after its bracket; the fuel is the length of the text.\<close>

fun json_elems :: "nat \<Rightarrow> string \<Rightarrow> (string list \<times> string) option" where
  "json_elems 0 s = None"
| "json_elems (Suc n) s =
     (case json_elem (skip_ws s) of
        None \<Rightarrow> None
      | Some (v, r) \<Rightarrow>
          (case skip_ws r of
             c # r' \<Rightarrow>
               if c = CHR '']'' then Some ([v], r')
               else if c = CHR '','' then map_option (\<lambda>(vs, t). (v # vs, t)) (json_elems n r')
               else None
           | [] \<Rightarrow> None))"

text \<open>\<^verbatim>\<open>json.Unmarshal\<close> into a \<^verbatim>\<open>[]string\<close>: None is an error, \<open>Some None\<close> the nil slice.\<close>

definition json_unstrings :: "string \<Rightarrow> string list option option" where
  "json_unstrings s =
     (let t = skip_ws s in
      if take 4 t = ''null'' then (if skip_ws (drop 4 t) = [] then Some None else None)
      else case t of
        c # r \<Rightarrow>
          if c = CHR ''['' then
            (case skip_ws r of
               c' # r' \<Rightarrow>
                 if c' = CHR '']'' then (if skip_ws r' = [] then Some (Some []) else None)
                 else (case json_elems (length s) r of
                         Some (vs, tail) \<Rightarrow> if skip_ws tail = [] then Some (Some vs) else None
                       | None \<Rightarrow> None)
             | [] \<Rightarrow> None)
          else None
      | [] \<Rightarrow> None)"

section \<open>Round trip\<close>

lemma hex_val_digit [simp]: "d < 16 \<Longrightarrow> hex_val (hex_digit d) = Some d"
  by (auto simp: hex_val_def hex_digit_def in_range_def)

lemma unquote_unit:
  assumes "string_unit (u @ t) = Some (out, length u)" "u \<noteq> []" "hd u \<noteq> CHR 0x22"
  shows "unquote (u @ t) = map_option (\<lambda>(rest, tail). (out @ rest, tail)) (unquote t)"
  using assms by (subst unquote.simps) simp

lemma ascii_unit:
  assumes "byte c < 128"
  shows "string_unit (ascii_escape c @ t) = Some ([c], length (ascii_escape c))"
    "ascii_escape c \<noteq> [] \<and> hd (ascii_escape c) \<noteq> CHR 0x22"
proof -
  have hex: "hex4 (CHR ''0'' # CHR ''0'' # hex_digit (byte c div 16) # hex_digit (byte c mod 16) # t) = Some (byte c)"
    using assms by (simp add: hex4_def) (simp add: hex_val_def in_range_def byte_def)
  have enc: "utf8_encode (byte c) = [c]"
    using assms by (simp add: utf8_encode_def byte_def)
  show "string_unit (ascii_escape c @ t) = Some ([c], length (ascii_escape c))"
    unfolding ascii_escape_def using assms
    by (auto simp: string_unit_def simple_escape_def hex unicode_escape_def enc rune_len_def)
  show "ascii_escape c \<noteq> [] \<and> hd (ascii_escape c) \<noteq> CHR 0x22"
    by (simp add: ascii_escape_def)
qed

lemma rune_len_take:
  assumes "0 < rune_len s"
  shows "rune_len (take (rune_len s) s @ t) = rune_len s"
proof -
  obtain a s1 where s: "s = a # s1"
    using assms by (cases s) (auto simp: rune_len_def)
  consider (one) "byte a < 128" | (two) "\<not> byte a < 128" "in_range 194 223 a"
    | (three) "\<not> byte a < 128" "\<not> in_range 194 223 a" "in_range 224 239 a"
    | (four) "\<not> byte a < 128" "\<not> in_range 194 223 a" "\<not> in_range 224 239 a" "in_range 240 244 a"
    using assms by (auto simp: s rune_len_def split: if_splits)
  then show ?thesis
  proof cases
    case one
    then show ?thesis by (simp add: s rune_len_def)
  next
    case two
    then obtain b s2 where "s1 = b # s2" "is_cont b"
      using assms by (cases s1) (auto simp: s rune_len_def split: if_splits)
    with two show ?thesis by (simp add: s rune_len_def)
  next
    case three
    then obtain b c s2 where "s1 = b # c # s2"
      using assms by (auto simp: s rune_len_def split: list.splits)
    with three assms show ?thesis by (simp add: s rune_len_def split: if_splits)
  next
    case four
    then obtain b c d s2 where "s1 = b # c # d # s2"
      using assms by (auto simp: s rune_len_def split: list.splits)
    with four assms show ?thesis by (simp add: s rune_len_def split: if_splits)
  qed
qed

lemma separator_unit:
  assumes "line_separator r"
  shows "string_unit (rune_escape r @ t) = Some (r, length (rune_escape r))" "rune_escape r \<noteq> [] \<and> hd (rune_escape r) \<noteq> CHR 0x22"
proof -
  have enc: "utf8_encode 8232 = [CHR 0xE2, CHR 0x80, CHR 0xA8]" "utf8_encode 8233 = [CHR 0xE2, CHR 0x80, CHR 0xA9]"
    by (simp_all add: utf8_encode_def char_of_eq_iff)
  show "string_unit (rune_escape r @ t) = Some (r, length (rune_escape r))" "rune_escape r \<noteq> [] \<and> hd (rune_escape r) \<noteq> CHR 0x22"
    using assms by (auto simp: rune_escape_def line_separator_def string_unit_def hex4_def hex_val_def in_range_def byte_def
      unicode_escape_def enc)
qed

lemma rune_unit:
  assumes "1 < rune_len s"
  shows "string_unit (rune_escape (take (rune_len s) s) @ t) = Some (take (rune_len s) s, length (rune_escape (take (rune_len s) s)))"
    "rune_escape (take (rune_len s) s) \<noteq> [] \<and> hd (rune_escape (take (rune_len s) s)) \<noteq> CHR 0x22"
proof -
  let ?r = "take (rune_len s) s"
  have "s \<noteq> []"
    using assms by (auto simp: rune_len_def)
  then have lead: "128 \<le> byte (hd s)" "s \<noteq> []"
    using assms rune_len_bounds(3) [of s] by (auto simp: not_le [symmetric])
  have plain: "string_unit (?r @ t) = Some (?r, length ?r)" "?r \<noteq> []" "hd ?r \<noteq> CHR 0x22"
    using assms lead rune_len_take [of s t] rune_len_bounds(1) [of s]
    by (cases s; auto simp: string_unit_def byte_def take_Cons' split: list.splits)+
  show "string_unit (rune_escape ?r @ t) = Some (?r, length (rune_escape ?r))"
    "rune_escape ?r \<noteq> [] \<and> hd (rune_escape ?r) \<noteq> CHR 0x22"
    using plain by (cases "line_separator ?r"; simp add: separator_unit; simp add: rune_escape_def)+
qed

lemma unquote_quote:
  "utf8_valid s \<Longrightarrow> unquote (quote_body s @ CHR 0x22 # t) = Some (s, t)"
proof (induction s rule: quote_body.induct)
  case (1 s)
  show ?case
  proof (cases "s = []")
    case True
    then show ?thesis by (simp add: quote_body.simps unquote.simps)
  next
    case False
    have pos: "rune_len s \<noteq> 0" and tail: "utf8_valid (drop (rune_len s) s)"
      using "1.prems" False by (auto simp: utf8_valid.simps [of s] split: if_splits)
    show ?thesis
    proof (cases "rune_len s = 1")
      case True
      have ascii: "byte (hd s) < 128"
        using True False by (auto simp: rune_len_def split: list.splits if_splits)
      have ih: "unquote (quote_body (tl s) @ CHR 0x22 # t) = Some (tl s, t)"
        using "1.IH"(2) False pos True tail by (simp add: drop_Suc)
      show ?thesis
        using unquote_unit [OF ascii_unit(1) [OF ascii]] ascii_unit(2) [OF ascii] False True ih
        by (subst quote_body.simps) simp
    next
      case multi: False
      then have len: "1 < rune_len s" using pos by simp
      have ih: "unquote (quote_body (drop (rune_len s) s) @ CHR 0x22 # t) = Some (drop (rune_len s) s, t)"
        using "1.IH"(3) False pos multi tail by simp
      show ?thesis
        using unquote_unit [OF rune_unit(1) [OF len]] rune_unit(2) [OF len] False pos multi ih
        by (subst quote_body.simps) simp
    qed
  qed
qed

lemma skip_ws_simps [simp]: "skip_ws [] = []" "skip_ws (c # s) = (if is_ws c then skip_ws s else c # s)"
  by (simp_all add: skip_ws_def)

lemma elem_quote: "utf8_valid s \<Longrightarrow> json_elem (skip_ws (json_quote s @ t)) = Some (s, t)"
  by (simp add: json_elem_def json_quote_def is_ws_def unquote_quote)

lemma elems_join:
  assumes "ss \<noteq> []" "list_all utf8_valid ss" "length ss \<le> n"
  shows "json_elems n (join_on (CHR '','') (map json_quote ss) @ CHR '']'' # t) = Some (ss, t)"
  using assms
proof (induction ss arbitrary: n)
  case (Cons s ss)
  then obtain m where n: "n = Suc m" by (cases n) auto
  show ?case
  proof (cases ss)
    case Nil
    with Cons n show ?thesis by (simp add: elem_quote is_ws_def)
  next
    case (Cons s' ss')
    with Cons.prems Cons.IH [of m] n show ?thesis
      by (simp add: elem_quote is_ws_def)
  qed
qed simp

lemma join_length: "length ss \<le> length (join_on (CHR '','') (map json_quote ss))"
proof (induction ss rule: induct_list012)
  case (3 x y zs)
  then show ?case by (simp add: json_quote_def)
qed (simp_all add: json_quote_def)

lemma unstrings_strings:
  assumes "list_all utf8_valid (case v of None \<Rightarrow> [] | Some ss \<Rightarrow> ss)"
  shows "json_unstrings (json_strings v) = Some v"
proof (cases v)
  case None
  then show ?thesis by (simp add: json_strings_def json_unstrings_def is_ws_def)
next
  case (Some ss)
  show ?thesis
  proof (cases ss)
    case Nil
    with Some show ?thesis by (simp add: json_strings_def json_unstrings_def is_ws_def)
  next
    case (Cons s ss')
    let ?body = "join_on (CHR '','') (map json_quote ss) @ '']''"
    have "json_elems (length (json_strings v)) ?body = Some (ss, [])"
      using assms Some Cons join_length [of ss] by (intro elems_join) (auto simp: json_strings_def)
    moreover obtain r where "?body = CHR 0x22 # r"
      using Cons by (cases ss') (auto simp: json_quote_def)
    ultimately show ?thesis
      using Some by (simp add: json_strings_def json_unstrings_def is_ws_def)
  qed
qed

section \<open>The encoder writes UTF-8\<close>

lemma rune_len_append: "0 < rune_len s \<Longrightarrow> rune_len (s @ t) = rune_len s"
  using rune_len_take [of s "drop (rune_len s) s @ t"] by (metis append_assoc append_take_drop_id)

lemma utf8_valid_append: "utf8_valid s \<Longrightarrow> utf8_valid t \<Longrightarrow> utf8_valid (s @ t)"
proof (induction s rule: utf8_valid.induct)
  case (1 s)
  show ?case
  proof (cases "s = []")
    case False
    then have pos: "0 < rune_len s" and tail: "utf8_valid (drop (rune_len s) s)"
      using "1.prems"(1) by (auto simp: utf8_valid.simps [of s] split: if_splits)
    then have "utf8_valid (drop (rune_len s) s @ t)"
      using "1.IH" False "1.prems"(2) by simp
    then show ?thesis
      using False pos rune_len_append [OF pos] rune_len_bounds(1) [of s]
      by (subst utf8_valid.simps) simp
  qed (use 1 in simp)
qed

lemma ascii_escape_valid: "byte c < 128 \<Longrightarrow> utf8_valid (ascii_escape c)"
proof -
  assume c: "byte c < 128"
  have "byte (hex_digit d) < 128" if "d < 16" for d
    using that by (auto simp: hex_digit_def)
  then have "byte (hex_digit (byte c div 16)) < 128" "byte (hex_digit (byte c mod 16)) < 128"
    using c by auto
  with c show ?thesis
    by (intro utf8_valid_all_ascii) (auto simp: ascii_escape_def byte_def)
qed

lemma rune_escape_valid:
  assumes "1 < rune_len s"
  shows "utf8_valid (rune_escape (take (rune_len s) s))"
proof (cases "line_separator (take (rune_len s) s)")
  case True
  then show ?thesis
    by (intro utf8_valid_all_ascii) (auto simp: rune_escape_def byte_def)
next
  case False
  let ?r = "take (rune_len s) s"
  have "rune_len ?r = rune_len s" "?r \<noteq> []"
    using assms rune_len_take [of s "[]"] by (auto simp: rune_len_def)
  then show ?thesis
    using assms False by (simp add: rune_escape_def) (subst utf8_valid.simps, simp)
qed

lemma quote_body_valid: "utf8_valid (quote_body s)"
proof (induction s rule: quote_body.induct)
  case (1 s)
  have esc: "utf8_valid (CHR 0x5C # ''ufffd'')"
    by (simp add: byte_def)
  have "byte (hd s) < 128" if "s \<noteq> []" "rune_len s = 1"
    using that by (auto simp: rune_len_def split: list.splits if_splits)
  then show ?case
    using 1 utf8_valid_append [OF esc] utf8_valid_append [OF ascii_escape_valid] utf8_valid_append [OF rune_escape_valid]
    by (subst quote_body.simps) auto
qed

lemma json_quote_valid: "utf8_valid (json_quote s)"
proof -
  have "utf8_valid (quote_body s @ [CHR 0x22])"
    by (rule utf8_valid_append [OF quote_body_valid]) (simp add: byte_def)
  then show ?thesis
    by (simp add: json_quote_def byte_def)
qed

lemma json_strings_valid: "utf8_valid (json_strings v)"
proof -
  have join: "utf8_valid (join_on (CHR '','') (map json_quote ss))" for ss
  proof (induction ss rule: induct_list012)
    case (3 x y zs)
    then show ?case
      by (simp add: utf8_valid_append json_quote_valid byte_def)
  qed (simp_all add: json_quote_valid)
  have "utf8_valid (join_on (CHR '','') (map json_quote ss) @ '']'')" for ss
    by (rule utf8_valid_append [OF join]) (simp add: byte_def)
  then show ?thesis
    by (simp add: json_strings_def byte_def split: option.split)
qed

end
