(* ===== verification/JsonText.thy ===== *)
theory JsonText
  imports GoJson
begin

text \<open>
  The compact JSON text \<^verbatim>\<open>json.Marshal\<close> writes for a tree of values, and base64 for byte slices. The
  text determines the value: two trees of valid UTF-8 strings with the same text are equal. Code that
  compares or hashes marshalled values therefore compares the values.
\<close>

section \<open>Values and their text\<close>

datatype json =
    JNull
  | JBool bool
  | JNum int
  | JStr string
  | JArr "json list"
  | JObj "(string \<times> json) list"

fun json_text :: "json \<Rightarrow> string" where
  "json_text JNull = ''null''"
| "json_text (JBool b) = (if b then ''true'' else ''false'')"
| "json_text (JNum n) = itoa n"
| "json_text (JStr s) = json_quote s"
| "json_text (JArr vs) = CHR ''['' # join_on (CHR '','') (map json_text vs) @ '']''"
| "json_text (JObj kvs) =
     CHR ''{'' # join_on (CHR '','') (map (\<lambda>kv. json_quote (fst kv) @ CHR '':'' # json_text (snd kv)) kvs) @ ''}''"

fun json_valid :: "json \<Rightarrow> bool" where
  "json_valid (JStr s) = utf8_valid s"
| "json_valid (JArr vs) = (\<forall>v \<in> set vs. json_valid v)"
| "json_valid (JObj kvs) = (\<forall>kv \<in> set kvs. utf8_valid (fst kv) \<and> json_valid (snd kv))"
| "json_valid _ = True"

section \<open>The text determines the value\<close>

text \<open>What may follow a value.\<close>

definition delim :: "string \<Rightarrow> bool" where
  "delim r = (case r of [] \<Rightarrow> True | c # _ \<Rightarrow> c = CHR '','' \<or> c = CHR '']'' \<or> c = CHR ''}'')"

lemma delim_simps [simp]: "delim []" "delim (CHR '','' # r)" "delim (CHR '']'' # r)" "delim (CHR ''}'' # r)"
  by (simp_all add: delim_def)

lemma quote_prefix:
  assumes "utf8_valid a" "utf8_valid b" "json_quote a @ r = json_quote b @ s"
  shows "a = b \<and> r = s"
proof -
  have "unquote (quote_body a @ CHR 0x22 # r) = unquote (quote_body b @ CHR 0x22 # s)"
    using assms(3) by (simp add: json_quote_def)
  then show ?thesis
    using assms(1,2) by (simp add: unquote_quote)
qed

definition num_char :: "char \<Rightarrow> bool" where
  "num_char c = (is_digit c \<or> c = CHR ''-'')"

lemma itoa_chars: "list_all num_char (itoa n)" "itoa n \<noteq> []"
  using format_uint_digits [of "nat n"] format_uint_digits [of "nat (- n)"]
  by (auto simp: itoa_def num_char_def list_all_iff)

lemma itoa_prefix:
  assumes "itoa m @ r = itoa n @ s" "delim r" "delim s"
  shows "m = n \<and> r = s"
proof -
  have "takeWhile num_char r = []" if "delim r" for r
    using that by (cases r) (auto simp: delim_def num_char_def is_digit_def in_range_def byte_def)
  then have tw: "takeWhile num_char (itoa k @ r) = itoa k" if "delim r" for k r
    using that itoa_chars(1) [of k] by (simp add: list_all_iff)
  have "itoa m = itoa n"
    using arg_cong [OF assms(1), of "takeWhile num_char"] tw assms(2,3) by simp
  with assms(1) show ?thesis by simp
qed

text \<open>The first character of a text tells the kind of value.\<close>

definition json_kind :: "char \<Rightarrow> nat" where
  "json_kind c =
     (if c = CHR ''n'' then 0 else if c = CHR ''t'' then 1 else if c = CHR ''f'' then 2 else if num_char c then 3
      else if c = CHR 0x22 then 4 else if c = CHR ''['' then 5 else if c = CHR ''{'' then 6 else 7)"

fun value_kind :: "json \<Rightarrow> nat" where
  "value_kind JNull = 0"
| "value_kind (JBool b) = (if b then 1 else 2)"
| "value_kind (JNum _) = 3"
| "value_kind (JStr _) = 4"
| "value_kind (JArr _) = 5"
| "value_kind (JObj _) = 6"

lemma text_head: "json_text v \<noteq> [] \<and> json_kind (hd (json_text v)) = value_kind v"
proof (cases v)
  case (JNum n)
  have "num_char (hd (itoa n))" "itoa n \<noteq> []"
    using itoa_chars [of n] by (cases "itoa n"; simp)+
  then show ?thesis
    using JNum by (auto simp: json_kind_def num_char_def is_digit_def in_range_def byte_def)
qed (auto simp: json_kind_def num_char_def is_digit_def in_range_def byte_def json_quote_def)

lemma text_kind: "json_text v @ r = json_text w @ s \<Longrightarrow> value_kind v = value_kind w"
  using text_head [of v] text_head [of w] by (metis hd_append2)

text \<open>A joined list of texts, each of which determines its element, determines the list.\<close>

lemma join_prefix:
  assumes "\<And>x y r s. x \<in> set xs \<Longrightarrow> y \<in> set ys \<Longrightarrow> delim r \<Longrightarrow> delim s \<Longrightarrow> f x @ r = f y @ s \<Longrightarrow> x = y \<and> r = s"
    and "\<And>x. f x \<noteq> [] \<and> hd (f x) \<noteq> e" "e = CHR '']'' \<or> e = CHR ''}''"
    and "join_on (CHR '','') (map f xs) @ e # r = join_on (CHR '','') (map f ys) @ e # s"
  shows "xs = ys \<and> r = s"
  using assms(1,4)
proof (induction xs arbitrary: ys)
  case Nil
  show ?case
  proof (cases ys)
    case (Cons y ys')
    then obtain t where "join_on (CHR '','') (map f ys) = f y @ t"
      by (cases ys') auto
    then have "hd (e # r) = hd (f y)"
      using Nil.prems(2) assms(2) [of y] by (simp add: hd_append)
    then show ?thesis using assms(2) [of y] by simp
  qed (use Nil in simp)
next
  case (Cons x xs)
  note IH = Cons.IH and det = Cons.prems(1) and eq = Cons.prems(2)
  have dl: "delim (e # t)" for t
    using assms(3) by (auto simp: delim_def)
  show ?case
  proof (cases ys)
    case Nil
    obtain t where "join_on (CHR '','') (map f (x # xs)) = f x @ t"
      by (cases xs) auto
    then have "f x @ t @ e # r = e # s"
      using eq Nil by simp
    then have "hd (f x @ t @ e # r) = e"
      by (simp only: list.sel)
    then show ?thesis using assms(2) [of x] by simp
  next
    case (Cons y ys')
    let ?tail = "\<lambda>zs t. if zs = [] then e # t else CHR '','' # join_on (CHR '','') (map f zs) @ e # t"
    have "f x @ ?tail xs r = f y @ ?tail ys' s"
      using eq Cons by (cases xs; cases ys'; simp)
    moreover have "delim (?tail zs t)" for zs t
      using dl by simp
    ultimately have xy: "x = y" "?tail xs r = ?tail ys' s"
      using det [of x y "?tail xs r" "?tail ys' s"] Cons by auto
    show ?thesis
    proof (cases "xs = [] \<or> ys' = []")
      case True
      then show ?thesis using xy assms(3) Cons by (auto split: if_splits)
    next
      case False
      then have "xs = ys' \<and> r = s"
        using xy(2) det Cons by (intro IH) auto
      then show ?thesis using xy(1) Cons by simp
    qed
  qed
qed

lemma json_text_prefix:
  "json_valid v \<Longrightarrow> json_valid w \<Longrightarrow> delim r \<Longrightarrow> delim s \<Longrightarrow> json_text v @ r = json_text w @ s \<Longrightarrow> v = w \<and> r = s"
proof (induction v arbitrary: w r s)
  case JNull
  then have "w = JNull"
    using text_kind [OF JNull.prems(5)] by (cases w) (simp_all split: if_splits)
  with JNull show ?case by simp
next
  case (JBool a)
  then have "w = JBool a"
    using text_kind [OF JBool.prems(5)] by (cases w) (simp_all split: if_splits)
  with JBool show ?case by simp
next
  case (JStr a)
  then obtain b where "w = JStr b"
    using text_kind [OF JStr.prems(5)] by (cases w) (simp_all split: if_splits)
  with JStr quote_prefix [of a b r s] show ?case by simp
next
  case (JNum a)
  then obtain b where "w = JNum b"
    using text_kind [OF JNum.prems(5)] by (cases w) (simp_all split: if_splits)
  with JNum itoa_prefix [of a r b s] show ?case by simp
next
  case (JArr vs)
  then obtain ws where w: "w = JArr ws"
    using text_kind [OF JArr.prems(5)] by (cases w) (simp_all split: if_splits)
  have "vs = ws \<and> r = s"
  proof (rule join_prefix [where f = json_text and e = "CHR '']''"])
    show "json_text x \<noteq> [] \<and> hd (json_text x) \<noteq> CHR '']''" for x
      using text_head [of x] by (cases x) (auto simp: json_kind_def num_char_def is_digit_def in_range_def byte_def split: if_splits)
  qed (use JArr w in auto)
  with w show ?case by simp
next
  case (JObj vs)
  then obtain ws where w: "w = JObj ws"
    using text_kind [OF JObj.prems(5)] by (cases w) (simp_all split: if_splits)
  have "vs = ws \<and> r = s"
  proof (rule join_prefix [where f = "\<lambda>kv. json_quote (fst kv) @ CHR '':'' # json_text (snd kv)" and e = "CHR ''}''"])
    fix x y t u
    assume xy: "x \<in> set vs" "y \<in> set ws" "delim t" "delim u"
      "(json_quote (fst x) @ CHR '':'' # json_text (snd x)) @ t = (json_quote (fst y) @ CHR '':'' # json_text (snd y)) @ u"
    have "fst x = fst y \<and> CHR '':'' # json_text (snd x) @ t = CHR '':'' # json_text (snd y) @ u"
      using xy JObj.prems(1,2) w by (intro quote_prefix) auto
    moreover from this have "snd x = snd y \<and> t = u"
      using xy JObj.prems(1,2) w by (intro JObj.IH [of x "snd x"]) (auto simp: snds.simps)
    ultimately show "x = y \<and> t = u" by (auto intro: prod_eqI)
  qed (use JObj w in \<open>auto simp: json_quote_def\<close>)
  with w show ?case by simp
qed

lemma json_text_inject:
  "json_valid v \<Longrightarrow> json_valid w \<Longrightarrow> json_text v = json_text w \<longleftrightarrow> v = w"
  using json_text_prefix [of v w "[]" "[]"] by auto

section \<open>Byte slices\<close>

text \<open>A \<^verbatim>\<open>[]byte\<close> is marshalled as a base64 string, and as null when it is nil.\<close>

definition b64_digit :: "nat \<Rightarrow> char" where
  "b64_digit d =
     (if d < 26 then char_of (65 + d) else if d < 52 then char_of (71 + d) else if d < 62 then char_of (d - 4)
      else if d = 62 then CHR ''+'' else CHR ''/'')"

fun base64 :: "string \<Rightarrow> string" where
  "base64 [] = []"
| "base64 [a] = [b64_digit (byte a div 4), b64_digit (byte a mod 4 * 16), CHR ''='', CHR ''='']"
| "base64 [a, b] =
     [b64_digit (byte a div 4), b64_digit (byte a mod 4 * 16 + byte b div 16), b64_digit (byte b mod 16 * 4), CHR ''='']"
| "base64 (a # b # c # r) =
     [b64_digit (byte a div 4), b64_digit (byte a mod 4 * 16 + byte b div 16),
      b64_digit (byte b mod 16 * 4 + byte c div 64), b64_digit (byte c mod 64)] @ base64 r"

definition bytes_json :: "string option \<Rightarrow> json" where
  "bytes_json v = (case v of None \<Rightarrow> JNull | Some s \<Rightarrow> JStr (base64 s))"

text \<open>The value of a digit, 64 for the padding character.\<close>

definition b64_val :: "char \<Rightarrow> nat" where
  "b64_val c =
     (if in_range 65 90 c then byte c - 65 else if in_range 97 122 c then byte c - 71
      else if in_range 48 57 c then byte c + 4 else if c = CHR ''+'' then 62 else if c = CHR ''/'' then 63 else 64)"

lemma b64_val_digit: "d < 64 \<Longrightarrow> b64_val (b64_digit d) = d"
  by (auto simp: b64_val_def b64_digit_def in_range_def byte_def)

lemma b64_digit_inject: "d < 64 \<Longrightarrow> e < 64 \<Longrightarrow> b64_digit d = b64_digit e \<longleftrightarrow> d = e"
  by (metis b64_val_digit)

lemma b64_digit_pad: "d < 64 \<Longrightarrow> b64_digit d \<noteq> CHR ''=''"
  using b64_val_digit [of d] by (auto simp: b64_val_def in_range_def byte_def)

lemma byte_parts: "byte a div 16 < 16" "byte a div 64 < 4"
  using byte_less [of a] by (simp_all add: less_mult_imp_div_less)

lemma b64_ranges:
  "byte a div 4 < 64" "byte a mod 4 * 16 < 64" "byte a mod 4 * 16 + byte b div 16 < 64"
  "byte a mod 16 * 4 < 64" "byte a mod 16 * 4 + byte b div 64 < 64" "byte a mod 64 < 64"
proof -
  have "byte a mod 4 < 4" "byte a mod 16 < 16"
    by simp_all
  then show "byte a div 4 < 64" "byte a mod 4 * 16 < 64" "byte a mod 4 * 16 + byte b div 16 < 64"
    "byte a mod 16 * 4 < 64" "byte a mod 16 * 4 + byte b div 64 < 64" "byte a mod 64 < 64"
    using byte_parts [of b] byte_less [of a] by (linarith | simp add: less_mult_imp_div_less)+
qed

lemmas b64_simps = b64_digit_inject b64_digit_pad b64_ranges b64_digit_pad [symmetric]

lemma split_16: "(x :: nat) * 16 + a = y * 16 + b \<Longrightarrow> a < 16 \<Longrightarrow> b < 16 \<Longrightarrow> x = y \<and> a = b"
  by presburger

lemma split_4: "(x :: nat) * 4 + a = y * 4 + b \<Longrightarrow> a < 4 \<Longrightarrow> b < 4 \<Longrightarrow> x = y \<and> a = b"
  by presburger

lemma byte_from_parts:
  "byte a div 4 = byte b div 4 \<Longrightarrow> byte a mod 4 = byte b mod 4 \<Longrightarrow> a = b"
  "byte a div 16 = byte b div 16 \<Longrightarrow> byte a mod 16 = byte b mod 16 \<Longrightarrow> a = b"
  "byte a div 64 = byte b div 64 \<Longrightarrow> byte a mod 64 = byte b mod 64 \<Longrightarrow> a = b"
  by (metis byte_inject div_mult_mod_eq)+

lemma base64_inject: "base64 s = base64 t \<longleftrightarrow> s = t"
proof
  show "base64 s = base64 t \<Longrightarrow> s = t"
  proof (induction s arbitrary: t rule: base64.induct)
    case 1
    then show ?case by (cases t rule: base64.cases) auto
  next
    case (2 a)
    then show ?case
      by (cases t rule: base64.cases) (auto simp: b64_simps intro: byte_from_parts)
  next
    case (3 a b)
    then show ?case
      by (cases t rule: base64.cases)
        (auto simp: b64_simps dest!: split_16 [OF _ byte_parts(1) byte_parts(1)] intro: byte_from_parts)
  next
    case (4 a b c r)
    then show ?case
      by (cases t rule: base64.cases)
        (auto simp: b64_simps dest!: split_16 [OF _ byte_parts(1) byte_parts(1)] split_4 [OF _ byte_parts(2) byte_parts(2)]
          intro: byte_from_parts)
  qed
qed simp

lemma base64_ascii: "c \<in> set (base64 s) \<Longrightarrow> byte c < 128"
proof -
  have "byte (b64_digit d) < 128" for d
    by (auto simp: b64_digit_def byte_def)
  then show "c \<in> set (base64 s) \<Longrightarrow> byte c < 128"
    by (induction s rule: base64.induct) (auto simp: byte_def)
qed

lemma bytes_json_simps [simp]:
  "json_valid (bytes_json v)" "bytes_json v = bytes_json w \<longleftrightarrow> v = w"
  using utf8_valid_all_ascii base64_ascii
  by (auto simp: bytes_json_def base64_inject split: option.splits)

end
