(* ===== verification/Epoch.thy ===== *)
theory Epoch
  imports SchemaDrift JsonText
begin

text \<open>
  Epoch identity, coverage and certificates (\<^verbatim>\<open>epoch.go\<close>, \<^verbatim>\<open>epoch_commit.go\<close>,
  \<^verbatim>\<open>internal/streamproof/completion.go\<close>). A certificate is the immutable content of one commit of a
  stream: who committed which epoch, the source progress it covers, and the destination receipts. Its
  canonical bytes are shown to determine its content, and completion evidence to be accepted exactly
  when totals, receipts and positions agree. The \<^verbatim>\<open>Clone\<close> methods are the identity here, since values
  are immutable; a nil slice of claims, activations or receipts is the empty list, which is what the
  code normalizes it to before it marshals.
\<close>

section \<open>Identity\<close>

record attempt_ref =
  at_RunID :: string
  at_ExecutionID :: string
  at_StreamID :: string
  at_Generation :: int
  at_Token :: int

definition AttemptRef_Validate :: "attempt_ref \<Rightarrow> goerr option" where
  "AttemptRef_Validate a =
     (if at_RunID a = [] \<or> at_ExecutionID a = [] \<or> at_StreamID a = [] \<or> at_Generation a \<le> 0 \<or> at_Token a \<le> 0
         \<or> \<not> utf8_valid (at_RunID a) \<or> \<not> utf8_valid (at_ExecutionID a) \<or> \<not> utf8_valid (at_StreamID a)
      then Some (ErrMsg ''epoch: incomplete attempt identity'') else None)"

record epoch_ref =
  er_Attempt :: attempt_ref
  er_Epoch :: int
  er_MembershipRevision :: int

definition EpochRef_Validate :: "epoch_ref \<Rightarrow> goerr option" where
  "EpochRef_Validate e =
     orelse_err (AttemptRef_Validate (er_Attempt e))
       (if er_Epoch e \<le> 0 \<or> er_MembershipRevision e \<le> 0
        then Some (ErrMsg ''epoch: invalid epoch or membership revision'') else None)"

record epoch_key =
  ek_StreamID :: string
  ek_Generation :: int
  ek_Epoch :: int

definition EpochRef_Key :: "epoch_ref \<Rightarrow> epoch_key" where
  "EpochRef_Key e =
     \<lparr>ek_StreamID = at_StreamID (er_Attempt e), ek_Generation = at_Generation (er_Attempt e), ek_Epoch = er_Epoch e\<rparr>"

section \<open>Coverage\<close>

record inbox_claim_ref =
  ic_RowID :: string
  ic_Owner :: string
  ic_Token :: int

record coverage =
  cv_Positions :: domain_positions
  cv_Claims :: "inbox_claim_ref list"
  cv_Activated :: "string list"

fun claims_err :: "string list \<Rightarrow> inbox_claim_ref list \<Rightarrow> goerr option" where
  "claims_err seen [] = None"
| "claims_err seen (c # cs) =
     (if ic_RowID c = [] \<or> ic_Owner c = [] \<or> ic_Token c \<le> 0 \<or> ic_RowID c \<in> set seen
         \<or> \<not> utf8_valid (ic_RowID c) \<or> \<not> utf8_valid (ic_Owner c)
      then Some ErrIncompleteCoverage
      else claims_err (ic_RowID c # seen) cs)"

definition ValidateRepresentation :: "coverage \<Rightarrow> goerr option" where
  "ValidateRepresentation c =
     (if (length (cv_Positions c) = 0) = (length (cv_Claims c) = 0) then Some ErrIncompleteCoverage
      else case Entries (cv_Positions c) of
        Inl e \<Rightarrow> Some e
      | Inr _ \<Rightarrow> claims_err [] (cv_Claims c))"

fun canonical_positions :: "codec_resolver \<Rightarrow> domain_positions \<Rightarrow> domain_positions res" where
  "canonical_positions r [] = Inr []"
| "canonical_positions r ((domain, p) # ps) =
     bind_res (CanonicalPosition r p) (\<lambda>v.
       bind_res (canonical_positions r ps) (\<lambda>vs. Inr ((domain, v) # vs)))"

text \<open>\<^verbatim>\<open>slices.Sort\<close> and \<^verbatim>\<open>slices.Compact\<close> of the activated names; row identifiers are distinct by then.\<close>

definition Canonicalize :: "codec_resolver \<Rightarrow> coverage \<Rightarrow> coverage res" where
  "Canonicalize r c =
     check_err (ValidateRepresentation c)
       (bind_res (canonical_positions r (cv_Positions c)) (\<lambda>ps.
         Inr \<lparr>cv_Positions = ps, cv_Claims = sort_key ic_RowID (cv_Claims c),
              cv_Activated = remdups_adj (sort (cv_Activated c))\<rparr>))"

definition NewPositionCoverage :: "domain_positions \<Rightarrow> coverage res" where
  "NewPositionCoverage positions =
     (let c = \<lparr>cv_Positions = positions, cv_Claims = [], cv_Activated = []\<rparr> in
      check_err (ValidateRepresentation c) (Inr c))"

definition NewClaimCoverage :: "inbox_claim_ref list \<Rightarrow> coverage res" where
  "NewClaimCoverage claims =
     (let c = \<lparr>cv_Positions = [], cv_Claims = claims, cv_Activated = []\<rparr> in
      check_err (ValidateRepresentation c) (Inr c))"

section \<open>Certificates\<close>

record receipt_evidence =
  re_Format :: string
  re_Version :: int
  re_Payload :: "string option"

definition ReceiptEvidence_Validate :: "receipt_evidence option \<Rightarrow> goerr option" where
  "ReceiptEvidence_Validate e =
     (case e of
        None \<Rightarrow> None
      | Some e \<Rightarrow>
          if re_Format e = [] \<or> \<not> utf8_valid (re_Format e) \<or> re_Version e < 0
          then Some (ErrMsg ''epoch: invalid receipt evidence'') else None)"

record epoch_receipt =
  rc_Resource :: string
  rc_Rows :: int
  rc_Bytes :: int
  rc_WriteCRC :: int
  rc_Evidence :: "receipt_evidence option"

text \<open>The layouts of a certificate are None when the Go map is nil.\<close>

record epoch_certificate =
  ec_FormatVersion :: int
  ec_Tenant :: string
  ec_Ref :: epoch_ref
  ec_PipelineVersionID :: string
  ec_Coverage :: coverage
  ec_Receipts :: "epoch_receipt list"
  ec_Records :: int
  ec_Bytes :: int
  ec_MessageSchemas :: "message_layouts option"

abbreviation (input) EpochCertificateFormatVersion :: int where "EpochCertificateFormatVersion \<equiv> 1"
abbreviation (input) EpochMessageSchemaFormatVersion :: int where "EpochMessageSchemaFormatVersion \<equiv> 2"

definition layouts_list :: "message_layouts option \<Rightarrow> message_layouts" where
  "layouts_list m = (case m of None \<Rightarrow> [] | Some l \<Rightarrow> l)"

definition ValidateMessageSchemas :: "(string \<Rightarrow> string) \<Rightarrow> epoch_certificate \<Rightarrow> goerr option" where
  "ValidateMessageSchemas uni c =
     (if ec_FormatVersion c = EpochCertificateFormatVersion then
        (if ec_MessageSchemas c \<noteq> None then Some (ErrMsg ''epoch: v1 cannot carry message layouts'') else None)
      else if ec_FormatVersion c = EpochMessageSchemaFormatVersion then
        (if layouts_list (ec_MessageSchemas c) = [] then Some (ErrMsg ''epoch: v2 requires message layouts'')
         else orelse_err (CheckMessageLayouts uni [] (layouts_list (ec_MessageSchemas c)))
           (first_err (\<lambda>receipt.
              if map_of (layouts_list (ec_MessageSchemas c)) (rc_Resource receipt) = None
              then Some (ErrMsg ''epoch: receipt has no message layout'') else None) (ec_Receipts c)))
      else Some (ErrMsg ''epoch: unsupported certificate format''))"

subsection \<open>Marshalling\<close>

definition position_json :: "domain_key \<times> position \<Rightarrow> json" where
  "position_json e =
     JObj [(''Domain'', JObj [(''Incarnation'', JStr (Incarnation (fst e))), (''Domain'', JStr (Domain (fst e)))]),
           (''Position'', JObj [(''Codec'', JStr (Codec (snd e))), (''Version'', JNum (PVersion (snd e))),
              (''Value'', bytes_json (PValue (snd e)))])]"

text \<open>\<^verbatim>\<open>DomainPositions.MarshalJSON\<close> of validated positions: the sorted entries.\<close>

definition positions_json :: "domain_positions \<Rightarrow> json" where
  "positions_json p = JArr (map position_json (sort_key fst p))"

definition claim_json :: "inbox_claim_ref \<Rightarrow> json" where
  "claim_json c = JObj [(''RowID'', JStr (ic_RowID c)), (''Owner'', JStr (ic_Owner c)), (''Token'', JNum (ic_Token c))]"

definition coverage_json :: "coverage \<Rightarrow> json" where
  "coverage_json c =
     JObj ([(''Positions'', positions_json (cv_Positions c)),
            (''Claims'', if cv_Claims c = [] then JNull else JArr (map claim_json (cv_Claims c)))] @
           (if cv_Activated c = [] then [] else [(''Activated'', JArr (map JStr (cv_Activated c)))]))"

definition epoch_ref_json :: "epoch_ref \<Rightarrow> json" where
  "epoch_ref_json e =
     JObj [(''Attempt'', JObj [(''RunID'', JStr (at_RunID (er_Attempt e))), (''ExecutionID'', JStr (at_ExecutionID (er_Attempt e))),
              (''StreamID'', JStr (at_StreamID (er_Attempt e))), (''Generation'', JNum (at_Generation (er_Attempt e))),
              (''Token'', JNum (at_Token (er_Attempt e)))]),
           (''Epoch'', JNum (er_Epoch e)), (''MembershipRevision'', JNum (er_MembershipRevision e))]"

definition evidence_json :: "receipt_evidence option \<Rightarrow> json" where
  "evidence_json e = (case e of
     None \<Rightarrow> JNull
   | Some e \<Rightarrow> JObj [(''Format'', JStr (re_Format e)), (''Version'', JNum (re_Version e)), (''Payload'', bytes_json (re_Payload e))])"

definition receipt_json :: "epoch_receipt \<Rightarrow> json" where
  "receipt_json r =
     JObj [(''Resource'', JStr (rc_Resource r)), (''Rows'', JNum (rc_Rows r)), (''Bytes'', JNum (rc_Bytes r)),
           (''WriteCRC'', JNum (rc_WriteCRC r)), (''Evidence'', evidence_json (rc_Evidence r))]"

definition field_json :: "field \<Rightarrow> json" where
  "field_json f =
     JObj [(''Name'', JStr (fd_Name f)), (''Nullable'', JBool (fd_Nullable f)), (''Logical'', JStr (fd_Logical f)),
           (''Native'', JStr (fd_Native f)), (''Precision'', JNum (fd_Precision f)), (''Scale'', JNum (fd_Scale f))]"

definition layout_json :: "message_layout \<Rightarrow> json" where
  "layout_json m =
     JObj [(''Raw'', JBool (ml_Raw m)),
           (''Fields'', case ml_slice m of None \<Rightarrow> JNull | Some fs \<Rightarrow> JArr (map field_json fs))]"

text \<open>A Go map is marshalled with its keys sorted.\<close>

definition layouts_json :: "message_layouts \<Rightarrow> json" where
  "layouts_json m = JObj (map (\<lambda>(k, v). (k, layout_json v)) (sort_key fst m))"

definition certificate_json :: "epoch_certificate \<Rightarrow> json" where
  "certificate_json c =
     JObj ([(''FormatVersion'', JNum (ec_FormatVersion c)), (''Tenant'', JStr (ec_Tenant c)),
            (''Ref'', epoch_ref_json (ec_Ref c)), (''PipelineVersionID'', JStr (ec_PipelineVersionID c)),
            (''Coverage'', coverage_json (ec_Coverage c)), (''Receipts'', JArr (map receipt_json (ec_Receipts c))),
            (''Records'', JNum (ec_Records c)), (''Bytes'', JNum (ec_Bytes c))] @
           (if layouts_list (ec_MessageSchemas c) = [] then []
            else [(''MessageSchemas'', layouts_json (layouts_list (ec_MessageSchemas c)))]))"

definition receipt_err :: "epoch_receipt \<Rightarrow> goerr option" where
  "receipt_err r =
     (if rc_Resource r = [] \<or> rc_Rows r < 0 \<or> rc_Bytes r < 0 \<or> \<not> utf8_valid (rc_Resource r)
      then Some (ErrMsg ''epoch: invalid receipt'')
      else ReceiptEvidence_Validate (rc_Evidence r))"

text \<open>Receipts are ordered by their JSON text, compared bytewise.\<close>

definition canonical_certificate ::
  "(string \<Rightarrow> string) \<Rightarrow> codec_resolver \<Rightarrow> epoch_certificate \<Rightarrow> epoch_certificate res" where
  "canonical_certificate uni r c =
     (if ec_Tenant c = [] \<or> ec_PipelineVersionID c = [] \<or> ec_Records c < 0 \<or> ec_Bytes c < 0
         \<or> \<not> utf8_valid (ec_Tenant c) \<or> \<not> utf8_valid (ec_PipelineVersionID c)
      then Inl (ErrMsg ''epoch: invalid certificate'')
      else
        check_err (ValidateMessageSchemas uni c)
          (check_err (EpochRef_Validate (ec_Ref c))
            (bind_res (Canonicalize r (ec_Coverage c)) (\<lambda>cov.
              check_err (first_err receipt_err (ec_Receipts c))
                (Inr (c\<lparr>ec_Coverage := cov,
                        ec_Receipts := sort_key (\<lambda>x. json_text (receipt_json x)) (ec_Receipts c)\<rparr>))))))"

definition CanonicalBytes :: "(string \<Rightarrow> string) \<Rightarrow> codec_resolver \<Rightarrow> epoch_certificate \<Rightarrow> string res" where
  "CanonicalBytes uni r c =
     bind_res (canonical_certificate uni r c) (\<lambda>c. Inr (json_text (certificate_json c)))"

text \<open>\<^verbatim>\<open>sha256.Sum256\<close> is the parameter \<open>sha\<close>.\<close>

definition Digest ::
  "(string \<Rightarrow> string) \<Rightarrow> (string \<Rightarrow> string) \<Rightarrow> codec_resolver \<Rightarrow> epoch_certificate \<Rightarrow> string res" where
  "Digest sha uni r c = bind_res (CanonicalBytes uni r c) (\<lambda>data. Inr (sha data))"

section \<open>Completion evidence\<close>

record resource_totals =
  rt_Rows :: int
  rt_Bytes :: int

record epoch_completion =
  cm_messageSchemas :: "message_layouts option"
  cm_binding :: string
  cm_positions :: domain_positions
  cm_rows :: int
  cm_bytes :: int
  cm_resources :: "(string \<times> resource_totals) list"

definition Completion_New ::
  "string \<Rightarrow> domain_positions \<Rightarrow> int \<Rightarrow> int \<Rightarrow> (string \<times> resource_totals) list \<Rightarrow> epoch_completion" where
  "Completion_New binding positions rows nbytes resources =
     \<lparr>cm_messageSchemas = None, cm_binding = binding, cm_positions = positions, cm_rows = rows, cm_bytes = nbytes,
      cm_resources = resources\<rparr>"

definition NewWithMessageSchemas ::
  "string \<Rightarrow> domain_positions \<Rightarrow> int \<Rightarrow> int \<Rightarrow> (string \<times> resource_totals) list \<Rightarrow> message_layouts option \<Rightarrow>
   epoch_completion" where
  "NewWithMessageSchemas binding positions rows nbytes resources layouts =
     (Completion_New binding positions rows nbytes resources)\<lparr>cm_messageSchemas := layouts\<rparr>"

definition Binding :: "epoch_ref \<Rightarrow> string" where
  "Binding e = json_text (epoch_ref_json e)"

text \<open>\<^verbatim>\<open>reflect.DeepEqual\<close> of two maps: both nil, or both not nil with the same entries.\<close>

definition layouts_deep_equal :: "message_layouts option \<Rightarrow> message_layouts option \<Rightarrow> bool" where
  "layouts_deep_equal a b = (case (a, b) of
     (None, None) \<Rightarrow> True
   | (Some x, Some y) \<Rightarrow> length x = length y \<and> (\<forall>(k, v) \<in> set x. map_of y k = Some v)
   | _ \<Rightarrow> False)"

text \<open>The loop over the receipts: running totals, and per resource; None is the overflow or sign error.\<close>

fun receipt_totals ::
  "int \<Rightarrow> int \<Rightarrow> (string \<times> resource_totals) list \<Rightarrow> epoch_receipt list \<Rightarrow>
   (int \<times> int \<times> (string \<times> resource_totals) list) option" where
  "receipt_totals rows nbytes actual [] = Some (rows, nbytes, actual)"
| "receipt_totals rows nbytes actual (r # rs) =
     (if rc_Rows r < 0 \<or> rc_Bytes r < 0 \<or> rc_Rows r > max_int64 - rows \<or> rc_Bytes r > max_int64 - nbytes then None
      else
        let total = (case map_of actual (rc_Resource r) of Some t \<Rightarrow> t | None \<Rightarrow> \<lparr>rt_Rows = 0, rt_Bytes = 0\<rparr>);
            total = \<lparr>rt_Rows = wrap64 (rt_Rows total + rc_Rows r), rt_Bytes = wrap64 (rt_Bytes total + rc_Bytes r)\<rparr>
        in receipt_totals (wrap64 (rows + rc_Rows r)) (wrap64 (nbytes + rc_Bytes r))
             (AList.update (rc_Resource r) total actual) rs)"

record epoch_commit =
  co_Certificate :: epoch_certificate
  co_Completion :: epoch_completion

definition ValidateCompletion :: "codec_resolver \<Rightarrow> epoch_commit \<Rightarrow> goerr option" where
  "ValidateCompletion codecs c =
     (let cert = co_Certificate c; done = co_Completion c in
      if \<not> layouts_deep_equal (ec_MessageSchemas cert) (cm_messageSchemas done) then Some ErrIncompleteCoverage
      else orelse_err (EpochRef_Validate (ec_Ref cert))
        (if length (cv_Claims (ec_Coverage cert)) \<noteq> 0 \<or> cm_binding done \<noteq> Binding (ec_Ref cert)
         then Some ErrIncompleteCoverage
         else case Canonicalize codecs (ec_Coverage cert) of Inl e \<Rightarrow> Some e | Inr covered \<Rightarrow>
           (case Canonicalize codecs \<lparr>cv_Positions = cm_positions done, cv_Claims = [],
                   cv_Activated = cv_Activated (ec_Coverage cert)\<rparr> of Inl e \<Rightarrow> Some e | Inr completed \<Rightarrow>
             if json_text (coverage_json covered) \<noteq> json_text (coverage_json completed) then Some ErrIncompleteCoverage
             else if ec_Records cert \<noteq> cm_rows done \<or> ec_Bytes cert \<noteq> cm_bytes done then Some ErrIncompleteCoverage
             else case receipt_totals 0 0 [] (ec_Receipts cert) of
               None \<Rightarrow> Some ErrIncompleteCoverage
             | Some (receiptRows, receiptBytes, actual) \<Rightarrow>
                 if length actual \<noteq> length (cm_resources done) then Some ErrIncompleteCoverage
                 else if \<exists>(resource, total) \<in> set (cm_resources done). map_of actual resource \<noteq> Some total
                 then Some ErrIncompleteCoverage
                 else if receiptRows \<noteq> cm_rows done \<or> receiptBytes \<noteq> cm_bytes done then Some ErrIncompleteCoverage
                 else None)))"

section \<open>Canonical coverage\<close>

lemma canonical_positions_Inr:
  "canonical_positions r p = Inr q \<longleftrightarrow> list_all2 (\<lambda>a b. fst a = fst b \<and> CanonicalPosition r (snd a) = Inr (snd b)) p q"
proof (induction p arbitrary: q)
  case (Cons a p)
  then show ?case
    by (cases a; cases q) (auto simp: bind_res_Inr)
qed auto

lemma canonical_positions_keys:
  assumes "canonical_positions r p = Inr q"
  shows "map fst q = map fst p \<and> map_option Inr (map_of q d) = map_option (CanonicalPosition r) (map_of p d)"
  using assms unfolding canonical_positions_Inr
  by (induction rule: list_all2_induct) auto

lemma canonical_positions_valid:
  assumes "canonical_positions r p = Inr q" "positions_valid p"
  shows "positions_valid q"
  using assms unfolding canonical_positions_Inr positions_valid_def entry_err_def
proof (induction rule: list_all2_induct)
  case (Cons a as b bs)
  have "Position_Validate (snd b) = Position_Validate (snd a)"
    using Cons(1) by (intro Position_Validate_cong) (auto simp: CanonicalPosition_Inr)
  with Cons show ?case by simp
qed simp

lemma claims_err_None:
  "claims_err seen cs = None \<longleftrightarrow>
    (\<forall>c \<in> set cs. ic_RowID c \<noteq> [] \<and> ic_Owner c \<noteq> [] \<and> 0 < ic_Token c \<and> utf8_valid (ic_RowID c) \<and> utf8_valid (ic_Owner c)) \<and>
    distinct (map ic_RowID cs) \<and> set seen \<inter> ic_RowID ` set cs = {}"
  by (induction seen cs rule: claims_err.induct) (auto simp: not_le)

lemma ValidateRepresentation_None:
  "ValidateRepresentation c = None \<longleftrightarrow>
    (cv_Positions c = []) \<noteq> (cv_Claims c = []) \<and> positions_valid (cv_Positions c) \<and> claims_err [] (cv_Claims c) = None"
proof (cases "positions_valid (cv_Positions c)")
  case True
  then have "first_err entry_err (cv_Positions c) = None"
    by (simp add: positions_valid_def first_err_None)
  with True show ?thesis
    by (auto simp: ValidateRepresentation_def Entries_def)
next
  case False
  then obtain e where "first_err entry_err (cv_Positions c) = Some e"
    by (auto simp: positions_valid_def first_err_None [symmetric])
  with False show ?thesis
    by (auto simp: ValidateRepresentation_def Entries_def)
qed

lemma Canonicalize_Inr:
  "Canonicalize r c = Inr k \<longleftrightarrow> ValidateRepresentation c = None \<and>
    canonical_positions r (cv_Positions c) = Inr (cv_Positions k) \<and> cv_Claims k = sort_key ic_RowID (cv_Claims c) \<and>
    cv_Activated k = remdups_adj (sort (cv_Activated c))"
  by (cases k) (auto simp: Canonicalize_def err_simps)

lemma sort_unique:
  "inj_on f (set xs) \<Longrightarrow> mset xs = mset ys \<Longrightarrow> sort_key f xs = sort_key f ys"
  by (intro sort_key_inj_key_eq) simp_all

lemma sort_key_same_mset: "sort_key f xs = sort_key f ys \<Longrightarrow> mset xs = mset ys"
  by (metis mset_sort)

lemma sorted_map_eq:
  assumes "distinct (map fst p)" "distinct (map fst q)"
  shows "sort_key fst p = sort_key fst q \<longleftrightarrow> map_of p = map_of q"
  using assms sorted_keys_unique [OF assms(1)] same_map_mset [OF assms] sort_key_same_mset [of fst p q]
  by (metis map_of_inject_set mset_eq_setD)

lemma sorted_claims_eq:
  assumes "distinct (map ic_RowID cs)" "distinct (map ic_RowID ds)"
  shows "sort_key ic_RowID cs = sort_key ic_RowID ds \<longleftrightarrow> set cs = set ds"
proof
  assume "set cs = set ds"
  then have "mset cs = mset ds"
    using assms by (intro set_eq_iff_mset_eq_distinct [THEN iffD1]) (simp_all add: distinct_map)
  then show "sort_key ic_RowID cs = sort_key ic_RowID ds"
    using assms(1) by (intro sort_unique) (simp_all add: distinct_map)
qed (metis set_sort)

lemma distinct_compact_sorted: "sorted xs \<Longrightarrow> distinct (remdups_adj xs)" for xs :: "'a::linorder list"
proof (induction xs rule: remdups_adj.induct)
  case (3 x y xs)
  then show ?case
    by (cases "x = y") (auto simp: remdups_adj_set)
qed simp_all

lemma compact_sort_eq:
  fixes xs ys :: "string list"
  shows "remdups_adj (sort xs) = remdups_adj (sort ys) \<longleftrightarrow> set xs = set ys"
proof -
  have "remdups_adj (sort zs) = sorted_list_of_set (set zs)" for zs :: "string list"
    by (intro sorted_distinct_set_unique) (simp_all add: sorted_remdups_adj distinct_compact_sorted)
  then show ?thesis
    by (metis finite_set sorted_list_of_set(1))
qed

section \<open>Canonical bytes determine the certificate\<close>

subsection \<open>The marshalled values are injective and valid\<close>

lemma position_json_inject: "position_json a = position_json b \<longleftrightarrow> a = b"
  by (cases a; cases b) (auto simp: position_json_def intro!: domain_key.expand position.expand)

lemma claim_json_inject: "claim_json a = claim_json b \<longleftrightarrow> (a :: inbox_claim_ref) = b"
  by (auto simp: claim_json_def)

lemma epoch_ref_json_inject: "epoch_ref_json a = epoch_ref_json b \<longleftrightarrow> (a :: epoch_ref) = b"
proof -
  obtain x y where "er_Attempt a = x" "er_Attempt b = y" by simp
  then show ?thesis
    by (cases a; cases b; cases x; cases y) (auto simp: epoch_ref_json_def)
qed

lemma evidence_json_inject: "evidence_json a = evidence_json b \<longleftrightarrow> a = b"
  by (auto simp: evidence_json_def split: option.splits)

lemma receipt_json_inject: "receipt_json a = receipt_json b \<longleftrightarrow> (a :: epoch_receipt) = b"
  by (auto simp: receipt_json_def evidence_json_inject)

lemma field_json_inject: "field_json a = field_json b \<longleftrightarrow> (a :: field) = b"
  by (auto simp: field_json_def)

lemma map_json_inject:
  assumes "\<And>a b. f a = f b \<longleftrightarrow> a = b"
  shows "map f xs = map f ys \<longleftrightarrow> xs = ys"
  by (rule inj_map_eq_map) (simp add: inj_def assms)

lemmas list_json_inject = map_json_inject [OF position_json_inject] map_json_inject [OF claim_json_inject]
  map_json_inject [OF receipt_json_inject] map_json_inject [OF field_json_inject]

lemma layout_json_inject: "layout_json a = layout_json b \<longleftrightarrow> (a :: message_layout) = b"
  by (auto simp: layout_json_def list_json_inject split: option.splits)

lemma coverage_json_inject:
  "coverage_json a = coverage_json b \<longleftrightarrow>
    sort_key fst (cv_Positions a) = sort_key fst (cv_Positions b) \<and> cv_Claims a = cv_Claims b \<and> cv_Activated a = cv_Activated b"
  by (auto simp: coverage_json_def positions_json_def list_json_inject map_json_inject)

lemma layouts_json_inject: "layouts_json a = layouts_json b \<longleftrightarrow> sort_key fst a = sort_key fst b"
proof -
  have "inj (\<lambda>(k :: string, v). (k, layout_json v))"
    by (auto simp: inj_def layout_json_inject)
  then show ?thesis
    unfolding layouts_json_def by (simp only: json.inject inj_map_eq_map)
qed

lemma sort_key_Nil_iff: "sort_key f xs = [] \<longleftrightarrow> xs = []"
  by (metis mset_sort mset_zero_iff)

lemma Nil_sort_key_iff: "[] = sort_key f xs \<longleftrightarrow> xs = []"
  by (metis sort_key_Nil_iff)

lemma certificate_json_inject:
  "certificate_json a = certificate_json b \<longleftrightarrow>
    ec_FormatVersion a = ec_FormatVersion b \<and> ec_Tenant a = ec_Tenant b \<and> ec_Ref a = ec_Ref b \<and>
    ec_PipelineVersionID a = ec_PipelineVersionID b \<and> coverage_json (ec_Coverage a) = coverage_json (ec_Coverage b) \<and>
    ec_Receipts a = ec_Receipts b \<and> ec_Records a = ec_Records b \<and> ec_Bytes a = ec_Bytes b \<and>
    sort_key fst (layouts_list (ec_MessageSchemas a)) = sort_key fst (layouts_list (ec_MessageSchemas b))"
  by (auto simp: certificate_json_def epoch_ref_json_inject list_json_inject layouts_json_inject sort_key_Nil_iff Nil_sort_key_iff)

subsection \<open>Validity\<close>

lemma literal_utf8: "list_all (\<lambda>c. byte c < 128) s \<Longrightarrow> utf8_valid s"
  by (intro utf8_valid_all_ascii) (simp add: list_all_iff)

lemma position_json_valid: "entry_err e = None \<Longrightarrow> json_valid (position_json e)"
  by (auto simp: position_json_def entry_err_def err_simps DomainKey_Validate_def Position_Validate_def literal_utf8 byte_def
    split: if_splits)

lemma coverage_json_valid:
  assumes "positions_valid (cv_Positions c)" "claims_err [] (cv_Claims c) = None" "list_all utf8_valid (cv_Activated c)"
  shows "json_valid (coverage_json c)"
  using assms
  by (auto simp: coverage_json_def positions_json_def claim_json_def positions_valid_def position_json_valid claims_err_None
    list_all_iff literal_utf8 byte_def)

lemma epoch_ref_json_valid: "EpochRef_Validate e = None \<Longrightarrow> json_valid (epoch_ref_json e)"
  by (auto simp: EpochRef_Validate_def AttemptRef_Validate_def epoch_ref_json_def literal_utf8 byte_def err_simps
    split: if_splits)

lemma receipt_json_valid: "receipt_err r = None \<Longrightarrow> json_valid (receipt_json r)"
  by (auto simp: receipt_err_def ReceiptEvidence_Validate_def receipt_json_def evidence_json_def literal_utf8 byte_def
    split: if_splits option.splits)

lemma layout_json_valid: "MessageLayout_Validate uni m = None \<Longrightarrow> json_valid (layout_json m)"
  by (auto simp: MessageLayout_Validate_def Validate_None fields_schema_def err_simps layout_json_def field_json_def
    field_wf_def list_all_iff literal_utf8 byte_def ml_Fields_def split: option.splits)

lemma layouts_json_valid:
  "CheckMessageLayouts uni [] m = None \<Longrightarrow> json_valid (layouts_json m)"
  by (fastforce simp: CheckMessageLayouts_def err_simps layouts_json_def intro: layout_json_valid split: if_splits)

section \<open>Content of a certificate\<close>

definition certificate_wf :: "epoch_certificate \<Rightarrow> bool" where
  "certificate_wf c =
     (distinct (map fst (cv_Positions (ec_Coverage c))) \<and> distinct (map fst (layouts_list (ec_MessageSchemas c))) \<and>
      list_all utf8_valid (cv_Activated (ec_Coverage c)))"

text \<open>
  Two certificates have the same content when they agree in every field, positions up to their
  canonical form, claims and activations as sets, receipts as a multiset, layouts as a map.
\<close>

definition same_positions :: "codec_resolver \<Rightarrow> domain_positions \<Rightarrow> domain_positions \<Rightarrow> bool" where
  "same_positions r p q \<longleftrightarrow>
     (\<forall>d. map_option (CanonicalPosition r) (map_of p d) = map_option (CanonicalPosition r) (map_of q d))"

definition same_content :: "codec_resolver \<Rightarrow> epoch_certificate \<Rightarrow> epoch_certificate \<Rightarrow> bool" where
  "same_content r a b \<longleftrightarrow>
     ec_FormatVersion a = ec_FormatVersion b \<and> ec_Tenant a = ec_Tenant b \<and> ec_Ref a = ec_Ref b \<and>
     ec_PipelineVersionID a = ec_PipelineVersionID b \<and> ec_Records a = ec_Records b \<and> ec_Bytes a = ec_Bytes b \<and>
     same_positions r (cv_Positions (ec_Coverage a)) (cv_Positions (ec_Coverage b)) \<and>
     set (cv_Claims (ec_Coverage a)) = set (cv_Claims (ec_Coverage b)) \<and>
     set (cv_Activated (ec_Coverage a)) = set (cv_Activated (ec_Coverage b)) \<and>
     mset (ec_Receipts a) = mset (ec_Receipts b) \<and>
     map_of (layouts_list (ec_MessageSchemas a)) = map_of (layouts_list (ec_MessageSchemas b))"

lemma canonical_map_eq:
  assumes "canonical_positions r p = Inr p'" "canonical_positions r q = Inr q'" "distinct (map fst p)" "distinct (map fst q)"
  shows "sort_key fst p' = sort_key fst q' \<longleftrightarrow> same_positions r p q"
proof -
  note p = canonical_positions_keys [OF assms(1)] and q = canonical_positions_keys [OF assms(2)]
  have "sort_key fst p' = sort_key fst q' \<longleftrightarrow> (\<forall>d. map_of p' d = map_of q' d)"
    using p q assms(3,4) by (subst sorted_map_eq) (auto simp: fun_eq_iff)
  also have "\<dots> \<longleftrightarrow> (\<forall>d. map_option Inr (map_of p' d) = (map_option Inr (map_of q' d) :: (goerr + position) option))"
    by (auto dest: option.inj_map [OF inj_Inr, THEN injD])
  also have "\<dots> \<longleftrightarrow> same_positions r p q"
    using p q by (simp add: same_positions_def)
  finally show ?thesis .
qed

lemma canonical_coverage_eq:
  assumes "Canonicalize r a = Inr a'" "Canonicalize r b = Inr b'"
    and "distinct (map fst (cv_Positions a))" "distinct (map fst (cv_Positions b))"
  shows "coverage_json a' = coverage_json b' \<longleftrightarrow>
    same_positions r (cv_Positions a) (cv_Positions b) \<and> set (cv_Claims a) = set (cv_Claims b) \<and>
    set (cv_Activated a) = set (cv_Activated b)"
  using assms canonical_map_eq [of r "cv_Positions a" "cv_Positions a'" "cv_Positions b" "cv_Positions b'"]
  by (auto simp: coverage_json_inject Canonicalize_Inr ValidateRepresentation_None claims_err_None sorted_claims_eq compact_sort_eq)

lemma canonical_coverage_valid:
  assumes "Canonicalize r c = Inr k" "list_all utf8_valid (cv_Activated c)"
  shows "json_valid (coverage_json k)"
  using assms canonical_positions_valid [of r "cv_Positions c" "cv_Positions k"]
  by (intro coverage_json_valid)
    (auto simp: Canonicalize_Inr ValidateRepresentation_None claims_err_None list_all_iff distinct_map)

lemma canonical_certificate_Inr:
  assumes "canonical_certificate uni r c = Inr k"
  shows "Canonicalize r (ec_Coverage c) = Inr (ec_Coverage k)" "first_err receipt_err (ec_Receipts c) = None"
    "ValidateMessageSchemas uni c = None" "EpochRef_Validate (ec_Ref c) = None"
    "utf8_valid (ec_Tenant c)" "utf8_valid (ec_PipelineVersionID c)"
    "k = c\<lparr>ec_Coverage := ec_Coverage k, ec_Receipts := sort_key (\<lambda>x. json_text (receipt_json x)) (ec_Receipts c)\<rparr>"
  using assms by (auto simp: canonical_certificate_def err_simps split: if_splits)

lemma canonical_certificate_valid:
  assumes "canonical_certificate uni r c = Inr k" "certificate_wf c"
  shows "json_valid (certificate_json k)"
proof -
  note c = canonical_certificate_Inr [OF assms(1)]
  have "json_valid (coverage_json (ec_Coverage k))"
    using canonical_coverage_valid [OF c(1)] assms(2) by (simp add: certificate_wf_def)
  moreover have "json_valid (layouts_json (layouts_list (ec_MessageSchemas c)))" if "layouts_list (ec_MessageSchemas c) \<noteq> []"
    using c(3) that by (intro layouts_json_valid [of uni])
      (auto simp: ValidateMessageSchemas_def err_simps layouts_list_def split: if_splits)
  ultimately show ?thesis
    using c(2,4-6) by (subst c(7)) (auto simp: certificate_json_def epoch_ref_json_valid receipt_json_valid first_err_None
      literal_utf8 byte_def)
qed

lemma sorted_receipts_eq:
  assumes "first_err receipt_err xs = None"
  shows "sort_key (\<lambda>x. json_text (receipt_json x)) xs = sort_key (\<lambda>x. json_text (receipt_json x)) ys \<longleftrightarrow> mset xs = mset ys"
proof
  have "inj_on (\<lambda>x. json_text (receipt_json x)) (set xs)"
    using assms by (auto simp: inj_on_def first_err_None json_text_inject receipt_json_valid receipt_json_inject)
  then show "mset xs = mset ys \<Longrightarrow> sort_key (\<lambda>x. json_text (receipt_json x)) xs = sort_key (\<lambda>x. json_text (receipt_json x)) ys"
    by (rule sort_unique)
qed (rule sort_key_same_mset)

text \<open>
  C5: the canonical bytes of a certificate are an exact identity of its content. Two well-formed
  certificates that both have canonical bytes have the same bytes if and only if they agree in every
  field, with positions compared in canonical form, claims and activations as sets, receipts as a
  multiset and layouts as a map. Order, duplicates in the activation list and the spelling of a
  position never change the digest, and any other change does change the hashed bytes.
\<close>

theorem certificate_bytes_exact:
  assumes "CanonicalBytes uni r a = Inr x" "CanonicalBytes uni r b = Inr y" "certificate_wf a" "certificate_wf b"
  shows "x = y \<longleftrightarrow> same_content r a b"
proof -
  obtain a' b' where k: "canonical_certificate uni r a = Inr a'" "canonical_certificate uni r b = Inr b'"
    "x = json_text (certificate_json a')" "y = json_text (certificate_json b')"
    using assms(1,2) by (auto simp: CanonicalBytes_def bind_res_Inr)
  note a = canonical_certificate_Inr [OF k(1)] and b = canonical_certificate_Inr [OF k(2)]
  have "x = y \<longleftrightarrow> certificate_json a' = certificate_json b'"
    using k canonical_certificate_valid assms(3,4) by (simp add: json_text_inject)
  also have "\<dots> \<longleftrightarrow> same_content r a b"
    using canonical_coverage_eq [OF a(1) b(1)] sorted_receipts_eq [OF a(2)] assms(3,4)
    by (subst a(7), subst b(7)) (auto simp: certificate_json_inject same_content_def certificate_wf_def sorted_map_eq)
  finally show ?thesis .
qed

definition any_codec :: codec_resolver where
  "any_codec = Some (\<lambda>_ _. Inr (Some \<lparr>pc_Validate = \<lambda>_. None, pc_Compare = \<lambda>_ _. Inr PositionEqual, pc_Canonicalize = Inr\<rparr>))"

definition demo_ref :: epoch_ref where
  "demo_ref = \<lparr>er_Attempt = \<lparr>at_RunID = ''r'', at_ExecutionID = ''x'', at_StreamID = ''s'', at_Generation = 1, at_Token = 7\<rparr>,
     er_Epoch = 3, er_MembershipRevision = 1\<rparr>"

definition demo_receipt :: "string \<Rightarrow> int \<Rightarrow> epoch_receipt" where
  "demo_receipt resource rows =
     \<lparr>rc_Resource = resource, rc_Rows = rows, rc_Bytes = 10 * rows, rc_WriteCRC = 9, rc_Evidence = None\<rparr>"

definition demo_certificate :: epoch_certificate where
  "demo_certificate =
     \<lparr>ec_FormatVersion = 1, ec_Tenant = ''t'', ec_Ref = demo_ref, ec_PipelineVersionID = ''v'',
      ec_Coverage = \<lparr>cv_Positions = two_positions, cv_Claims = [], cv_Activated = [''b'', ''a'', ''b'']\<rparr>,
      ec_Receipts = [demo_receipt ''orders'' 2, demo_receipt ''items'' 3, demo_receipt ''orders'' 4],
      ec_Records = 9, ec_Bytes = 90, ec_MessageSchemas = None\<rparr>"

definition reordered_certificate :: epoch_certificate where
  "reordered_certificate = demo_certificate\<lparr>
     ec_Coverage := \<lparr>cv_Positions = rev two_positions, cv_Claims = [], cv_Activated = [''a'', ''b'']\<rparr>,
     ec_Receipts := rev (ec_Receipts demo_certificate)\<rparr>"

lemmas demo_simps = demo_certificate_def reordered_certificate_def demo_receipt_def demo_ref_def two_positions_def any_codec_def

lemma demo_coverage:
  "Canonicalize any_codec (ec_Coverage demo_certificate) =
     Inr \<lparr>cv_Positions = two_positions, cv_Claims = [], cv_Activated = remdups_adj (sort [''b'', ''a'', ''b''])\<rparr>"
  "Canonicalize any_codec (ec_Coverage reordered_certificate) =
     Inr \<lparr>cv_Positions = rev two_positions, cv_Claims = [], cv_Activated = remdups_adj (sort [''a'', ''b''])\<rparr>"
  by (simp_all add: Canonicalize_Inr ValidateRepresentation_None CanonicalPosition_def demo_simps
    positions_valid_def entry_err_def DomainKey_Validate_def Position_Validate_def literal_utf8 byte_def)

lemma demo_bytes:
  "\<exists>x. CanonicalBytes uni any_codec demo_certificate = Inr x" "\<exists>y. CanonicalBytes uni any_codec reordered_certificate = Inr y"
  unfolding CanonicalBytes_def canonical_certificate_def demo_coverage
  by (simp_all add: demo_certificate_def reordered_certificate_def demo_receipt_def demo_ref_def ValidateMessageSchemas_def
    EpochRef_Validate_def AttemptRef_Validate_def receipt_err_def ReceiptEvidence_Validate_def literal_utf8 byte_def)

theorem certificate_bytes_exact_witness:
  "CanonicalBytes (\<lambda>s. s) any_codec demo_certificate = CanonicalBytes (\<lambda>s. s) any_codec reordered_certificate"
proof -
  obtain x y where xy: "CanonicalBytes (\<lambda>s. s) any_codec demo_certificate = Inr x"
    "CanonicalBytes (\<lambda>s. s) any_codec reordered_certificate = Inr y"
    using demo_bytes by blast
  have "certificate_wf demo_certificate" "certificate_wf reordered_certificate"
    by (simp_all add: certificate_wf_def demo_simps layouts_list_def literal_utf8 byte_def)
  moreover have "same_content any_codec demo_certificate reordered_certificate"
    by (auto simp: same_content_def same_positions_def demo_simps)
  ultimately show ?thesis
    using certificate_bytes_exact [OF xy] xy by simp
qed

section \<open>Completion evidence\<close>

lemma same_map_length:
  assumes "distinct (map fst a)" "distinct (map fst e)"
  shows "length a = length e \<and> (\<forall>(k, v) \<in> set e. map_of a k = Some v) \<longleftrightarrow> map_of a = map_of e"
proof
  assume *: "length a = length e \<and> (\<forall>(k, v) \<in> set e. map_of a k = Some v)"
  then have "set e \<subseteq> set a"
    by (auto dest: map_of_SomeD)
  moreover have "card (set a) = card (set e)"
    using * assms by (metis distinct_card distinct_map)
  ultimately have "set e = set a"
    by (intro card_subset_eq) simp_all
  then show "map_of a = map_of e"
    using assms by (simp add: map_of_inject_set)
next
  assume "map_of a = map_of e"
  then have "mset a = mset e"
    by (rule same_map_mset [OF assms])
  then show "length a = length e \<and> (\<forall>(k, v) \<in> set e. map_of a k = Some v)"
    using assms by (auto dest: mset_eq_length mset_eq_setD)
qed

definition zero_totals :: resource_totals where
  "zero_totals = \<lparr>rt_Rows = 0, rt_Bytes = 0\<rparr>"

definition totals_of :: "(string \<times> resource_totals) list \<Rightarrow> string \<Rightarrow> resource_totals" where
  "totals_of actual k = (case map_of actual k of Some t \<Rightarrow> t | None \<Rightarrow> zero_totals)"

text \<open>The sums of the receipts of one resource, as unbounded integers.\<close>

definition resource_sum :: "epoch_receipt list \<Rightarrow> string \<Rightarrow> resource_totals option" where
  "resource_sum rs k =
     (if k \<in> rc_Resource ` set rs
      then Some \<lparr>rt_Rows = sum_list (map rc_Rows (filter (\<lambda>r. rc_Resource r = k) rs)),
                 rt_Bytes = sum_list (map rc_Bytes (filter (\<lambda>r. rc_Resource r = k) rs))\<rparr>
      else None)"

definition totals_bounded :: "int \<Rightarrow> int \<Rightarrow> (string \<times> resource_totals) list \<Rightarrow> bool" where
  "totals_bounded rows nbytes actual \<longleftrightarrow>
     distinct (map fst actual) \<and> 0 \<le> rows \<and> rows \<le> max_int64 \<and> 0 \<le> nbytes \<and> nbytes \<le> max_int64 \<and>
     (\<forall>t \<in> snd ` set actual. 0 \<le> rt_Rows t \<and> rt_Rows t \<le> rows \<and> 0 \<le> rt_Bytes t \<and> rt_Bytes t \<le> nbytes)"

text \<open>The totals of \<open>actual\<close> with the receipts added.\<close>

definition grown :: "(string \<times> resource_totals) list \<Rightarrow> epoch_receipt list \<Rightarrow> string \<Rightarrow> resource_totals option" where
  "grown actual rs k =
     (case resource_sum rs k of
        None \<Rightarrow> map_of actual k
      | Some t \<Rightarrow> Some \<lparr>rt_Rows = rt_Rows (totals_of actual k) + rt_Rows t, rt_Bytes = rt_Bytes (totals_of actual k) + rt_Bytes t\<rparr>)"

lemma sum_list_nonneg_member: "(\<forall>x \<in> set xs. 0 \<le> f x) \<Longrightarrow> 0 \<le> sum_list (map f xs)" for f :: "'a \<Rightarrow> int"
  by (intro sum_list_nonneg) auto

lemma totals_bounded_step:
  assumes "totals_bounded rows nbytes actual" "0 \<le> rc_Rows r" "0 \<le> rc_Bytes r" "rc_Rows r \<le> max_int64 - rows"
    "rc_Bytes r \<le> max_int64 - nbytes"
  defines "t \<equiv> \<lparr>rt_Rows = rt_Rows (totals_of actual (rc_Resource r)) + rc_Rows r,
      rt_Bytes = rt_Bytes (totals_of actual (rc_Resource r)) + rc_Bytes r\<rparr>"
  shows "totals_bounded (rows + rc_Rows r) (nbytes + rc_Bytes r) (AList.update (rc_Resource r) t actual)"
    "int64 (rt_Rows t) \<and> int64 (rt_Bytes t) \<and> int64 (rows + rc_Rows r) \<and> int64 (nbytes + rc_Bytes r)"
proof -
  let ?o = "totals_of actual (rc_Resource r)"
  have o: "0 \<le> rt_Rows ?o \<and> rt_Rows ?o \<le> rows \<and> 0 \<le> rt_Bytes ?o \<and> rt_Bytes ?o \<le> nbytes"
    using assms(1) by (force simp: totals_bounded_def totals_of_def zero_totals_def dest: map_of_SomeD split: option.split)
  have "snd ` set (AList.update k v al) \<subseteq> insert v (snd ` set al)" for k v and al :: "(string \<times> resource_totals) list"
    by (induction al) auto
  then show "totals_bounded (rows + rc_Rows r) (nbytes + rc_Bytes r) (AList.update (rc_Resource r) t actual)"
    using assms o unfolding totals_bounded_def t_def
    by (fastforce simp: distinct_update)
  show "int64 (rt_Rows t) \<and> int64 (rt_Bytes t) \<and> int64 (rows + rc_Rows r) \<and> int64 (nbytes + rc_Bytes r)"
    using assms o by (auto simp: totals_bounded_def int64_def t_def)
qed

definition receipts_fit :: "int \<Rightarrow> int \<Rightarrow> epoch_receipt list \<Rightarrow> bool" where
  "receipts_fit rows nbytes rs \<longleftrightarrow>
     (\<forall>r \<in> set rs. 0 \<le> rc_Rows r \<and> 0 \<le> rc_Bytes r) \<and>
     rows + sum_list (map rc_Rows rs) \<le> max_int64 \<and> nbytes + sum_list (map rc_Bytes rs) \<le> max_int64"

lemma no_receipts: "k \<notin> rc_Resource ` set rs \<Longrightarrow> filter (\<lambda>r. rc_Resource r = k) rs = []"
  by (auto simp: filter_empty_conv)

lemma grown_update:
  "grown (AList.update (rc_Resource r) \<lparr>rt_Rows = rt_Rows (totals_of actual (rc_Resource r)) + rc_Rows r,
      rt_Bytes = rt_Bytes (totals_of actual (rc_Resource r)) + rc_Bytes r\<rparr> actual) rs k = grown actual (r # rs) k"
  by (cases "k \<in> rc_Resource ` set rs"; cases "rc_Resource r = k")
    (auto simp: grown_def resource_sum_def totals_of_def update_conv' no_receipts)

lemma receipts_fit_Cons:
  assumes "totals_bounded rows nbytes actual"
  shows "receipts_fit rows nbytes (r # rs) \<longleftrightarrow>
    0 \<le> rc_Rows r \<and> 0 \<le> rc_Bytes r \<and> rc_Rows r \<le> max_int64 - rows \<and> rc_Bytes r \<le> max_int64 - nbytes \<and>
    receipts_fit (rows + rc_Rows r) (nbytes + rc_Bytes r) rs"
  using sum_list_nonneg_member [of rs rc_Rows] sum_list_nonneg_member [of rs rc_Bytes]
  by (auto simp: receipts_fit_def)

lemma receipt_totals_grown:
  assumes "totals_bounded rows nbytes actual"
  shows "if receipts_fit rows nbytes rs
    then \<exists>A. receipt_totals rows nbytes actual rs =
        Some (rows + sum_list (map rc_Rows rs), nbytes + sum_list (map rc_Bytes rs), A) \<and>
      distinct (map fst A) \<and> (\<forall>k. map_of A k = grown actual rs k)
    else receipt_totals rows nbytes actual rs = None"
  using assms
proof (induction rs arbitrary: rows nbytes actual)
  case Nil
  then show ?case
    by (simp add: receipts_fit_def totals_bounded_def grown_def resource_sum_def)
next
  case (Cons r rs)
  let ?ok = "0 \<le> rc_Rows r \<and> 0 \<le> rc_Bytes r \<and> rc_Rows r \<le> max_int64 - rows \<and> rc_Bytes r \<le> max_int64 - nbytes"
  show ?case
  proof (cases ?ok)
    case True
    let ?t = "\<lparr>rt_Rows = rt_Rows (totals_of actual (rc_Resource r)) + rc_Rows r,
      rt_Bytes = rt_Bytes (totals_of actual (rc_Resource r)) + rc_Bytes r\<rparr>"
    note step = totals_bounded_step [OF Cons.prems, of r]
    have "(case map_of actual (rc_Resource r) of Some t \<Rightarrow> t | None \<Rightarrow> \<lparr>rt_Rows = 0, rt_Bytes = 0\<rparr>) = totals_of actual (rc_Resource r)"
      by (simp add: totals_of_def zero_totals_def split: option.split)
    then have "receipt_totals rows nbytes actual (r # rs) =
        receipt_totals (rows + rc_Rows r) (nbytes + rc_Bytes r) (AList.update (rc_Resource r) ?t actual) rs"
      using True step(2) by (simp add: Let_def not_less)
    then show ?thesis
      using Cons.IH [OF step(1)] True receipts_fit_Cons [OF Cons.prems, of r rs]
      by (cases "receipts_fit (rows + rc_Rows r) (nbytes + rc_Bytes r) rs")
        (simp_all del: receipt_totals.simps add: grown_update add.assoc)
  next
    case False
    then show ?thesis
      using receipts_fit_Cons [OF Cons.prems, of r rs] by auto
  qed
qed

lemma receipts_totals_start:
  "(\<exists>R B A. receipt_totals 0 0 [] rs = Some (R, B, A) \<and> P R B (map_of A) (length A)) \<longleftrightarrow>
    receipts_fit 0 0 rs \<and> P (sum_list (map rc_Rows rs)) (sum_list (map rc_Bytes rs)) (resource_sum rs) (card (rc_Resource ` set rs))"
proof -
  have "totals_bounded 0 0 []"
    by (simp add: totals_bounded_def)
  note run = receipt_totals_grown [OF this, of rs]
  have g: "grown [] rs = resource_sum rs"
    by (auto simp: grown_def totals_of_def zero_totals_def fun_eq_iff split: option.split)
  have "length A = card (rc_Resource ` set rs)" if "distinct (map fst A)" "map_of A = resource_sum rs" for A
  proof -
    have "dom (map_of A) = rc_Resource ` set rs"
      unfolding that(2) by (auto simp: resource_sum_def split: if_splits)
    then show ?thesis
      using that(1) by (metis distinct_card dom_map_of_conv_image_fst length_map list.set_map)
  qed
  note len = this
  show ?thesis
  proof (cases "receipts_fit 0 0 rs")
    case True
    then obtain A where A: "receipt_totals 0 0 [] rs = Some (sum_list (map rc_Rows rs), sum_list (map rc_Bytes rs), A)"
      "distinct (map fst A)" "map_of A = resource_sum rs"
      using run by (auto simp: g fun_eq_iff)
    then show ?thesis
      using True len [OF A(2,3)] by simp
  qed (use run in simp)
qed

lemma layouts_deep_equal_iff:
  assumes "distinct (map fst (layouts_list a))" "distinct (map fst (layouts_list b))"
  shows "layouts_deep_equal a b \<longleftrightarrow> (a = None \<longleftrightarrow> b = None) \<and> map_of (layouts_list a) = map_of (layouts_list b)"
proof (cases "a = None \<or> b = None")
  case False
  then obtain x y where "a = Some x" "b = Some y" by auto
  then show ?thesis
    using same_map_length [of y x] assms by (auto simp: layouts_deep_equal_def layouts_list_def)
qed (auto simp: layouts_deep_equal_def layouts_list_def split: option.splits)

text \<open>The positions part of the coverage text is all that can differ when the other parts are the same.\<close>

lemma coverage_text_eq:
  assumes "cv_Claims a = cv_Claims b" "cv_Activated a = cv_Activated b"
    and "positions_valid (cv_Positions a)" "positions_valid (cv_Positions b)"
  shows "json_text (coverage_json a) = json_text (coverage_json b) \<longleftrightarrow>
    sort_key fst (cv_Positions a) = sort_key fst (cv_Positions b)"
proof -
  have "json_text (coverage_json a) = json_text (coverage_json b) \<longleftrightarrow>
      json_text (positions_json (cv_Positions a)) = json_text (positions_json (cv_Positions b))"
    using assms(1,2) by (simp add: coverage_json_def)
  also have "\<dots> \<longleftrightarrow> positions_json (cv_Positions a) = positions_json (cv_Positions b)"
    using assms(3,4)
    by (intro json_text_inject) (auto simp: positions_json_def positions_valid_def position_json_valid)
  finally show ?thesis
    by (simp add: positions_json_def list_json_inject)
qed

lemma completed_positions_eq:
  assumes "Canonicalize r a = Inr k" "Canonicalize r b = Inr m" "cv_Claims a = []" "cv_Claims b = []"
    "cv_Activated a = cv_Activated b" "distinct (map fst (cv_Positions a))" "distinct (map fst (cv_Positions b))"
  shows "json_text (coverage_json k) = json_text (coverage_json m) \<longleftrightarrow> same_positions r (cv_Positions a) (cv_Positions b)"
proof -
  have "positions_valid (cv_Positions k)" "positions_valid (cv_Positions m)"
    using assms(1,2) canonical_positions_valid by (auto simp: Canonicalize_Inr ValidateRepresentation_None)
  then have "json_text (coverage_json k) = json_text (coverage_json m) \<longleftrightarrow>
      sort_key fst (cv_Positions k) = sort_key fst (cv_Positions m)"
    using assms by (intro coverage_text_eq) (auto simp: Canonicalize_Inr)
  also have "\<dots> \<longleftrightarrow> same_positions r (cv_Positions a) (cv_Positions b)"
    using assms by (intro canonical_map_eq) (auto simp: Canonicalize_Inr)
  finally show ?thesis .
qed

text \<open>What accepted completion evidence says of a certificate.\<close>

definition completion_matches :: "codec_resolver \<Rightarrow> epoch_certificate \<Rightarrow> epoch_completion \<Rightarrow> bool" where
  "completion_matches r cert cm \<longleftrightarrow>
     (ec_MessageSchemas cert = None \<longleftrightarrow> cm_messageSchemas cm = None) \<and>
     map_of (layouts_list (ec_MessageSchemas cert)) = map_of (layouts_list (cm_messageSchemas cm)) \<and>
     EpochRef_Validate (ec_Ref cert) = None \<and> cm_binding cm = Binding (ec_Ref cert) \<and>
     cv_Claims (ec_Coverage cert) = [] \<and>
     (\<exists>p q. canonical_positions r (cv_Positions (ec_Coverage cert)) = Inr p \<and> canonical_positions r (cm_positions cm) = Inr q) \<and>
     cm_positions cm \<noteq> [] \<and> positions_valid (cv_Positions (ec_Coverage cert)) \<and> positions_valid (cm_positions cm) \<and>
     same_positions r (cv_Positions (ec_Coverage cert)) (cm_positions cm) \<and>
     ec_Records cert = cm_rows cm \<and> ec_Bytes cert = cm_bytes cm \<and>
     receipts_fit 0 0 (ec_Receipts cert) \<and>
     sum_list (map rc_Rows (ec_Receipts cert)) = cm_rows cm \<and> sum_list (map rc_Bytes (ec_Receipts cert)) = cm_bytes cm \<and>
     resource_sum (ec_Receipts cert) = map_of (cm_resources cm)"

definition completion_wf :: "epoch_completion \<Rightarrow> bool" where
  "completion_wf cm \<longleftrightarrow> distinct (map fst (layouts_list (cm_messageSchemas cm))) \<and> distinct (map fst (cm_positions cm)) \<and>
     distinct (map fst (cm_resources cm))"

lemma receipts_accepted:
  assumes "distinct (map fst exp)"
  shows "(case receipt_totals 0 0 [] rs of
      None \<Rightarrow> False
    | Some (R, B, A) \<Rightarrow> length A = length exp \<and> \<not> (\<exists>(k, t) \<in> set exp. map_of A k \<noteq> Some t) \<and> R = rows \<and> B = nbytes) \<longleftrightarrow>
    receipts_fit 0 0 rs \<and> sum_list (map rc_Rows rs) = rows \<and> sum_list (map rc_Bytes rs) = nbytes \<and> resource_sum rs = map_of exp"
proof -
  have "(case receipt_totals 0 0 [] rs of
      None \<Rightarrow> False
    | Some (R, B, A) \<Rightarrow> length A = length exp \<and> \<not> (\<exists>(k, t) \<in> set exp. map_of A k \<noteq> Some t) \<and> R = rows \<and> B = nbytes) \<longleftrightarrow>
    (\<exists>R B A. receipt_totals 0 0 [] rs = Some (R, B, A) \<and> distinct (map fst A) \<and> map_of A = map_of exp \<and> R = rows \<and> B = nbytes)"
  proof (cases "receipt_totals 0 0 [] rs")
    case (Some x)
    then obtain R B A where x: "receipt_totals 0 0 [] rs = Some (R, B, A)" by (cases x) auto
    have "distinct (map fst A)"
      using receipt_totals_grown [of 0 0 "[]" rs] x by (auto simp: totals_bounded_def split: if_splits)
    then show ?thesis
      using same_map_length [of A exp] assms x by auto
  qed simp
  also have "\<dots> \<longleftrightarrow> (\<exists>R B A. receipt_totals 0 0 [] rs = Some (R, B, A) \<and> map_of A = map_of exp \<and> R = rows \<and> B = nbytes)"
    using receipt_totals_grown [of 0 0 "[]" rs] by (auto simp: totals_bounded_def split: if_splits)
  finally show ?thesis
    using receipts_totals_start [of rs "\<lambda>R B m n. m = map_of exp \<and> R = rows \<and> B = nbytes"] by auto
qed

lemma same_positions_empty: "same_positions r p q \<Longrightarrow> p = [] \<longleftrightarrow> q = []"
proof -
  have "(\<forall>d. map_of p d = None) \<longleftrightarrow> p = []" for p :: domain_positions
    by (metis map_of_eq_empty_iff)
  then show "same_positions r p q \<Longrightarrow> p = [] \<longleftrightarrow> q = []"
    by (metis (no_types) map_option_is_None same_positions_def)
qed

lemma canonicalize_total:
  "canonical_positions r (cv_Positions c) = Inr p \<Longrightarrow> cv_Positions c \<noteq> [] \<Longrightarrow> positions_valid (cv_Positions c) \<Longrightarrow>
    cv_Claims c = [] \<Longrightarrow> \<exists>k. Canonicalize r c = Inr k"
  using ValidateRepresentation_None [of c] by (simp add: Canonicalize_def claims_err_None)

lemma final_checks:
  assumes "distinct (map fst exp)"
  shows "(case receipt_totals 0 0 [] rs of
      None \<Rightarrow> Some ErrIncompleteCoverage
    | Some (R, B, A) \<Rightarrow>
        if length A \<noteq> length exp then Some ErrIncompleteCoverage
        else if \<exists>(k, t) \<in> set exp. map_of A k \<noteq> Some t then Some ErrIncompleteCoverage
        else if R \<noteq> rows \<or> B \<noteq> nbytes then Some ErrIncompleteCoverage else None) = None \<longleftrightarrow>
    receipts_fit 0 0 rs \<and> sum_list (map rc_Rows rs) = rows \<and> sum_list (map rc_Bytes rs) = nbytes \<and> resource_sum rs = map_of exp"
  by (subst receipts_accepted [OF assms, symmetric]) (simp split: option.split prod.split)

text \<open>
  C4: a commit is accepted exactly when its evidence matches it. \<^verbatim>\<open>ValidateCompletion\<close> succeeds if and
  only if the certificate carries the layouts, the epoch binding and, in canonical form, the source
  positions of the sealed pipeline, claims no inbox rows, has its record and byte totals, and its
  receipts add up, per resource and overall, to what the pipeline applied, without overflow: the sums
  are those of unbounded integers.
\<close>

theorem completion_exact:
  assumes "certificate_wf (co_Certificate c)" "completion_wf (co_Completion c)"
  shows "ValidateCompletion r c = None \<longleftrightarrow> completion_matches r (co_Certificate c) (co_Completion c)"
proof -
  let ?cert = "co_Certificate c" and ?cm = "co_Completion c"
  let ?cov = "ec_Coverage ?cert" and ?done = "\<lparr>cv_Positions = cm_positions ?cm, cv_Claims = [], cv_Activated = cv_Activated (ec_Coverage ?cert)\<rparr>"
  have wf: "distinct (map fst (layouts_list (ec_MessageSchemas ?cert)))" "distinct (map fst (layouts_list (cm_messageSchemas ?cm)))"
    "distinct (map fst (cv_Positions ?cov))" "distinct (map fst (cm_positions ?cm))" "distinct (map fst (cm_resources ?cm))"
    using assms by (simp_all add: certificate_wf_def completion_wf_def)
  show ?thesis
  proof (cases "cv_Claims ?cov = [] \<and> (\<exists>k m. Canonicalize r ?cov = Inr k \<and> Canonicalize r ?done = Inr m)")
    case True
    then obtain k m where km: "cv_Claims ?cov = []" "Canonicalize r ?cov = Inr k" "Canonicalize r ?done = Inr m" by auto
    have pos: "json_text (coverage_json k) = json_text (coverage_json m) \<longleftrightarrow> same_positions r (cv_Positions ?cov) (cm_positions ?cm)"
      using completed_positions_eq [OF km(2,3) km(1)] wf(3,4) by simp
    have ok: "canonical_positions r (cv_Positions ?cov) = Inr (cv_Positions k)" "canonical_positions r (cm_positions ?cm) = Inr (cv_Positions m)"
      "cm_positions ?cm \<noteq> []" "positions_valid (cv_Positions ?cov)" "positions_valid (cm_positions ?cm)"
      using km by (auto simp: Canonicalize_Inr ValidateRepresentation_None)
    have "ValidateCompletion r c = None \<longleftrightarrow>
      layouts_deep_equal (ec_MessageSchemas ?cert) (cm_messageSchemas ?cm) \<and> EpochRef_Validate (ec_Ref ?cert) = None \<and>
      cm_binding ?cm = Binding (ec_Ref ?cert) \<and> same_positions r (cv_Positions ?cov) (cm_positions ?cm) \<and>
      ec_Records ?cert = cm_rows ?cm \<and> ec_Bytes ?cert = cm_bytes ?cm \<and> receipts_fit 0 0 (ec_Receipts ?cert) \<and>
      sum_list (map rc_Rows (ec_Receipts ?cert)) = cm_rows ?cm \<and> sum_list (map rc_Bytes (ec_Receipts ?cert)) = cm_bytes ?cm \<and>
      resource_sum (ec_Receipts ?cert) = map_of (cm_resources ?cm)"
      unfolding final_checks [OF wf(5), symmetric]
      by (simp add: ValidateCompletion_def Let_def km pos orelse_err_None) blast
    then show ?thesis
      unfolding completion_matches_def layouts_deep_equal_iff [OF wf(1,2)] using km(1) ok by auto
  next
    case False
    then have "ValidateCompletion r c \<noteq> None"
      by (auto simp: ValidateCompletion_def Let_def orelse_err_None simp del: not_None_eq split: sum.splits)
    moreover have "\<not> completion_matches r ?cert ?cm"
      using False same_positions_empty [of r "cv_Positions ?cov" "cm_positions ?cm"]
        canonicalize_total [of r ?cov] canonicalize_total [of r ?done]
      by (auto simp: completion_matches_def)
    ultimately show ?thesis by simp
  qed
qed

definition demo_commit :: epoch_commit where
  "demo_commit =
     \<lparr>co_Certificate = demo_certificate,
      co_Completion = Completion_New (Binding demo_ref) (rev two_positions) 9 90
        [(''orders'', \<lparr>rt_Rows = 6, rt_Bytes = 60\<rparr>), (''items'', \<lparr>rt_Rows = 3, rt_Bytes = 30\<rparr>)]\<rparr>"

theorem completion_exact_witness:
  "ValidateCompletion any_codec demo_commit = None"
proof -
  have "certificate_wf (co_Certificate demo_commit)" "completion_wf (co_Completion demo_commit)"
    by (simp_all add: demo_commit_def certificate_wf_def completion_wf_def Completion_New_def demo_simps layouts_list_def
      literal_utf8 byte_def)
  moreover have "completion_matches any_codec (co_Certificate demo_commit) (co_Completion demo_commit)"
    by (auto simp: completion_matches_def demo_commit_def Completion_New_def demo_simps layouts_list_def EpochRef_Validate_def
      AttemptRef_Validate_def same_positions_def positions_valid_def entry_err_def DomainKey_Validate_def Position_Validate_def
      CanonicalPosition_def receipts_fit_def resource_sum_def fun_eq_iff literal_utf8 byte_def)
  ultimately show ?thesis
    using completion_exact by blast
qed

end
