(* ===== verification/Checkpoint.thy ===== *)
theory Checkpoint
  imports GoJson Complex_Main "HOL-Library.Multiset"
begin

text \<open>
  Resumable-read cursors (\<^verbatim>\<open>checkpoint\<close>, \<^verbatim>\<open>rowmodel/checkpoint.go\<close>). A cursor is a map of dynamic
  values; \<open>goval\<close> has a constructor per Go type the code puts there or switches on. A nil slice and an
  empty one are the same list. \<open>json_image\<close> is what a cursor becomes when it is stored as JSON and
  read back: numbers turn into \<^verbatim>\<open>float64\<close>, typed string slices into slices of any, nil slices into nil.
\<close>

section \<open>Dynamic values\<close>

datatype goval =
    VNil
  | VBool bool
  | VInt int
  | VInt64 int
  | VFloat rat
  | VString string
  | VStrings "string list"
  | VList "goval list"
  | VMap "(string \<times> goval) list"

type_synonym cursor = "(string \<times> goval) list"

definition raw :: "cursor \<Rightarrow> string \<Rightarrow> goval" where
  "raw c k = (case map_of c k of None \<Rightarrow> VNil | Some v \<Rightarrow> v)"

text \<open>Conversion of a \<^verbatim>\<open>float64\<close> to \<^verbatim>\<open>int\<close> truncates; outside the range it is the value amd64 gives.\<close>

definition float_to_int :: "rat \<Rightarrow> int" where
  "float_to_int r = (let t = (if 0 \<le> r then \<lfloor>r\<rfloor> else \<lceil>r\<rceil>) in if int64 t then t else - (2 ^ 63))"

fun anyToInt :: "goval \<Rightarrow> int" where
  "anyToInt (VInt n) = n"
| "anyToInt (VInt64 n) = n"
| "anyToInt (VFloat r) = float_to_int r"
| "anyToInt _ = 0"

fun as_string :: "goval \<Rightarrow> string option" where
  "as_string (VString s) = Some s"
| "as_string _ = None"

definition str_or_empty :: "goval \<Rightarrow> string" where
  "str_or_empty v = (case as_string v of Some s \<Rightarrow> s | None \<Rightarrow> [])"

definition strsToAny :: "string list \<Rightarrow> goval" where
  "strsToAny s = VList (map VString s)"

fun anySlice :: "goval \<Rightarrow> goval list" where
  "anySlice (VList vs) = vs"
| "anySlice _ = []"

fun anyToStrs :: "goval \<Rightarrow> string list" where
  "anyToStrs (VStrings ss) = ss"
| "anyToStrs (VList vs) = map str_or_empty vs"
| "anyToStrs _ = []"

fun anyToStrMap :: "goval \<Rightarrow> (string \<times> string) list" where
  "anyToStrMap (VMap m) = List.map_filter (\<lambda>(k, v). map_option (Pair k) (as_string v)) m"
| "anyToStrMap _ = []"

fun as_map :: "goval \<Rightarrow> cursor" where
  "as_map (VMap m) = m"
| "as_map _ = []"

definition as_bool :: "goval \<Rightarrow> bool" where
  "as_bool v = (v = VBool True)"

section \<open>Checkpoints\<close>

record checkpoint_data =
  cp_Resource :: string
  cp_Cursor :: cursor

definition NewCheckpoint :: "string \<Rightarrow> checkpoint_data" where
  "NewCheckpoint resource = \<lparr>cp_Resource = resource, cp_Cursor = []\<rparr>"

definition Checkpoint_Int :: "checkpoint_data \<Rightarrow> string \<Rightarrow> int" where
  "Checkpoint_Int c k = anyToInt (raw (cp_Cursor c) k)"

definition Checkpoint_String :: "checkpoint_data \<Rightarrow> string \<Rightarrow> string" where
  "Checkpoint_String c k = str_or_empty (raw (cp_Cursor c) k)"

definition Checkpoint_Set :: "checkpoint_data \<Rightarrow> string \<Rightarrow> goval \<Rightarrow> checkpoint_data" where
  "Checkpoint_Set c k v = c\<lparr>cp_Cursor := AList.update k v (cp_Cursor c)\<rparr>"

text \<open>A \<^verbatim>\<open>filament.Checkpoint\<close> may be nil.\<close>

type_synonym checkpoint = "checkpoint_data option"

abbreviation ModeKeyset :: string where "ModeKeyset \<equiv> ''keyset''"
abbreviation ModeBitmap :: string where "ModeBitmap \<equiv> ''bitmap''"
abbreviation ModeCtid :: string where "ModeCtid \<equiv> ''ctid''"
abbreviation ModeIncremental :: string where "ModeIncremental \<equiv> ''incremental''"
abbreviation ModeIncrementalBackfill :: string where "ModeIncrementalBackfill \<equiv> ''incremental_backfill''"
abbreviation ModeStream :: string where "ModeStream \<equiv> ''stream''"
abbreviation coarseDeltaTag :: string where "coarseDeltaTag \<equiv> ''coarse''"

section \<open>Key-space plans\<close>

record keyset_shard =
  sh_Lo :: "string list"
  sh_Hi :: "string list"
  sh_Key :: "string list"
  sh_Done :: bool

record keyset_checkpoint =
  ks_Mode :: string
  ks_Cols :: "string list"
  ks_Types :: "string list"
  ks_Shards :: "keyset_shard list"
  ks_Meta :: "(string \<times> string) list"

definition shard_value :: "keyset_shard \<Rightarrow> goval" where
  "shard_value sh =
     VMap [(''lo'', strsToAny (sh_Lo sh)), (''hi'', strsToAny (sh_Hi sh)), (''key'', strsToAny (sh_Key sh)),
           (''done'', VBool (sh_Done sh))]"

definition ToCheckpoint :: "keyset_checkpoint \<Rightarrow> string \<Rightarrow> checkpoint_data" where
  "ToCheckpoint k resource =
     (let mode = (if ks_Mode k = [] then ModeKeyset else ks_Mode k);
          cursor = [(''mode'', VString mode), (''cols'', strsToAny (ks_Cols k)), (''types'', strsToAny (ks_Types k)),
                    (''shards'', VList (map shard_value (ks_Shards k)))]
      in \<lparr>cp_Resource = resource,
          cp_Cursor = (if ks_Meta k \<noteq> [] then cursor @ [(''meta'', VMap (map (\<lambda>(a, b). (a, VString b)) (ks_Meta k)))]
                       else cursor)\<rparr>)"

definition parse_shard :: "goval \<Rightarrow> keyset_shard" where
  "parse_shard s =
     (let m = as_map s in
      \<lparr>sh_Lo = anyToStrs (raw m ''lo''), sh_Hi = anyToStrs (raw m ''hi''), sh_Key = anyToStrs (raw m ''key''),
       sh_Done = as_bool (raw m ''done'')\<rparr>)"

definition keyset_modes :: "string list" where
  "keyset_modes = [ModeKeyset, ModeBitmap, ModeCtid, ModeIncremental, ModeIncrementalBackfill]"

definition ParseKeyset :: "checkpoint \<Rightarrow> keyset_checkpoint option" where
  "ParseKeyset cp = (case cp of
     None \<Rightarrow> None
   | Some c \<Rightarrow>
       (let r = raw (cp_Cursor c); mode = str_or_empty (r ''mode'') in
        if mode \<notin> set keyset_modes then None
        else Some \<lparr>ks_Mode = mode, ks_Cols = anyToStrs (r ''cols''), ks_Types = anyToStrs (r ''types''),
               ks_Shards = map parse_shard (anySlice (r ''shards'')), ks_Meta = anyToStrMap (r ''meta'')\<rparr>))"

section \<open>Incremental backfill\<close>

definition encodeStrings :: "string list \<Rightarrow> string" where
  "encodeStrings values = json_strings (if values = [] then None else Some values)"

definition decodeStrings :: "string \<Rightarrow> string list option" where
  "decodeStrings v =
     (if v = [] then None
      else case json_unstrings v of None \<Rightarrow> None | Some ss \<Rightarrow> Some (case ss of None \<Rightarrow> [] | Some l \<Rightarrow> l))"

definition meta_get :: "(string \<times> string) list \<Rightarrow> string \<Rightarrow> string" where
  "meta_get m k = (case map_of m k of None \<Rightarrow> [] | Some v \<Rightarrow> v)"

definition AsIncrementalBackfill ::
  "keyset_checkpoint \<Rightarrow> string list \<Rightarrow> string list \<Rightarrow> string list \<Rightarrow> int \<Rightarrow> keyset_checkpoint" where
  "AsIncrementalBackfill plan cols types start lookbackSeconds =
     plan\<lparr>ks_Mode := ModeIncrementalBackfill,
          ks_Meta := AList.update ''incremental_lookback_seconds'' (itoa lookbackSeconds)
            (AList.update ''incremental_start'' (encodeStrings start)
              (AList.update ''incremental_types'' (encodeStrings types)
                (AList.update ''incremental_cols'' (encodeStrings cols) (ks_Meta plan))))\<rparr>"

definition PromoteIncrementalBackfill :: "checkpoint \<Rightarrow> checkpoint \<times> bool" where
  "PromoteIncrementalBackfill cp = (case (cp, ParseKeyset cp) of
     (Some c, Some plan) \<Rightarrow>
       if ks_Mode plan \<noteq> ModeIncrementalBackfill then (cp, False)
       else
         (case (decodeStrings (meta_get (ks_Meta plan) ''incremental_cols''),
                decodeStrings (meta_get (ks_Meta plan) ''incremental_types''),
                decodeStrings (meta_get (ks_Meta plan) ''incremental_start'')) of
            (Some cols, Some types, Some start) \<Rightarrow>
              if cols = [] \<or> length cols \<noteq> length types then (cp, False)
              else (Some (ToCheckpoint
                      \<lparr>ks_Mode = ModeIncremental, ks_Cols = cols, ks_Types = types,
                       ks_Shards = [\<lparr>sh_Lo = [], sh_Hi = [], sh_Key = start, sh_Done = False\<rparr>],
                       ks_Meta = [(''incremental_lookback_seconds'', meta_get (ks_Meta plan) ''incremental_lookback_seconds'')]\<rparr>
                      (cp_Resource c)), True)
          | _ \<Rightarrow> (cp, False))
   | _ \<Rightarrow> (cp, False))"

definition RequiresReplay :: "checkpoint \<Rightarrow> bool" where
  "RequiresReplay cp =
     (case ParseKeyset cp of None \<Rightarrow> False | Some st \<Rightarrow> meta_get (ks_Meta st) ''replay_on_resume'' = ''true'')"

section \<open>Deltas\<close>

definition NewShardDelta :: "string \<Rightarrow> int \<Rightarrow> string list \<Rightarrow> checkpoint_data" where
  "NewShardDelta resource part key =
     \<lparr>cp_Resource = resource, cp_Cursor = [(''mode'', VString ModeKeyset), (''part'', VInt part), (''key'', strsToAny key)]\<rparr>"

definition MergeShardDelta :: "checkpoint \<Rightarrow> checkpoint \<Rightarrow> checkpoint" where
  "MergeShardDelta base delta = (case delta of
     None \<Rightarrow> base
   | Some d \<Rightarrow>
       if str_or_empty (raw (cp_Cursor d) ''mode'') \<noteq> ModeKeyset then base
       else
         (let part = anyToInt (raw (cp_Cursor d) ''part''); key = anyToStrs (raw (cp_Cursor d) ''key'') in
          case (base, ParseKeyset base) of
            (Some b, Some ks) \<Rightarrow>
              if part < 0 \<or> part \<ge> int (length (ks_Shards ks)) then base
              else Some (ToCheckpoint
                (ks\<lparr>ks_Shards := (ks_Shards ks)[nat part := (ks_Shards ks ! nat part)\<lparr>sh_Key := key\<rparr>]\<rparr>) (cp_Resource b))
          | _ \<Rightarrow> base))"

text \<open>The conversions between \<^verbatim>\<open>uint64\<close> and \<^verbatim>\<open>int64\<close> keep the bits.\<close>

definition to_int64 :: "nat \<Rightarrow> int" where "to_int64 n = wrap64 (int n)"
definition to_uint64 :: "int \<Rightarrow> nat" where "to_uint64 n = nat (n mod 2 ^ 64)"

definition NewStreamDelta :: "string \<Rightarrow> string \<Rightarrow> nat \<Rightarrow> checkpoint_data" where
  "NewStreamDelta resource lsn seq =
     \<lparr>cp_Resource = resource,
      cp_Cursor = [(''mode'', VString ModeStream), (''lsn'', VString lsn), (''seq'', VInt64 (to_int64 seq))]\<rparr>"

definition ParseStream :: "checkpoint \<Rightarrow> (string \<times> nat) option" where
  "ParseStream cp = (case cp of
     None \<Rightarrow> None
   | Some c \<Rightarrow>
       (let r = raw (cp_Cursor c); lsn = str_or_empty (r ''lsn'') in
        if lsn = [] \<or> (case as_string (r ''mode'') of None \<Rightarrow> False | Some mode \<Rightarrow> mode \<noteq> ModeStream) then None
        else Some (lsn, to_uint64 (anyToInt (r ''seq'')))))"

definition MergeStream :: "checkpoint \<Rightarrow> checkpoint \<Rightarrow> checkpoint" where
  "MergeStream base delta = (case (delta, ParseStream delta) of
     (Some d, Some (dLSN, dSeq)) \<Rightarrow>
       (case ParseStream base of
          Some (_, bSeq) \<Rightarrow> if bSeq > dSeq then base else Some (NewStreamDelta (cp_Resource d) dLSN dSeq)
        | None \<Rightarrow> Some (NewStreamDelta (cp_Resource d) dLSN dSeq))
   | _ \<Rightarrow> base)"

definition NewCoarseAck :: "string \<Rightarrow> int \<Rightarrow> int \<Rightarrow> checkpoint_data" where
  "NewCoarseAck resource part n =
     \<lparr>cp_Resource = resource, cp_Cursor = [(''mode'', VString coarseDeltaTag), (''part'', VInt part), (''ack'', VInt n)]\<rparr>"

definition NewCoarseDone :: "string \<Rightarrow> int \<Rightarrow> int \<Rightarrow> checkpoint_data" where
  "NewCoarseDone resource part n =
     \<lparr>cp_Resource = resource, cp_Cursor = [(''mode'', VString coarseDeltaTag), (''part'', VInt part), (''want'', VInt n)]\<rparr>"

definition CoarseDelta :: "checkpoint \<Rightarrow> (int \<times> int \<times> int \<times> bool) option" where
  "CoarseDelta cp = (case cp of
     None \<Rightarrow> None
   | Some c \<Rightarrow>
       (let r = raw (cp_Cursor c) in
        if str_or_empty (r ''mode'') \<noteq> coarseDeltaTag then None
        else Some (anyToInt (r ''part''), anyToInt (r ''ack''), anyToInt (r ''want''), map_of (cp_Cursor c) ''want'' \<noteq> None)))"

datatype delta_kind = DeltaUnknown | DeltaShard | DeltaStream | DeltaCoarse

record delta =
  de_Kind :: delta_kind
  de_Part :: int
  de_Key :: "string list"
  de_LSN :: string
  de_Seq :: nat
  de_Ack :: int
  de_Want :: int
  de_HasWant :: bool

definition delta0 :: delta where
  "delta0 = \<lparr>de_Kind = DeltaUnknown, de_Part = 0, de_Key = [], de_LSN = [], de_Seq = 0, de_Ack = 0, de_Want = 0,
     de_HasWant = False\<rparr>"

definition stream_delta :: "checkpoint \<Rightarrow> delta" where
  "stream_delta cp = (case ParseStream cp of
     Some (lsn, seq) \<Rightarrow> delta0\<lparr>de_Kind := DeltaStream, de_LSN := lsn, de_Seq := seq\<rparr>
   | None \<Rightarrow> delta0)"

definition DecodeDelta :: "checkpoint \<Rightarrow> delta" where
  "DecodeDelta cp = (case cp of
     None \<Rightarrow> delta0
   | Some c \<Rightarrow>
       (let r = raw (cp_Cursor c); mode = str_or_empty (r ''mode'') in
        if mode = ModeStream \<and> ParseStream cp \<noteq> None then stream_delta cp
        else if mode = coarseDeltaTag then
          (case CoarseDelta cp of
             Some (part, ack, want, hasWant) \<Rightarrow>
               delta0\<lparr>de_Kind := DeltaCoarse, de_Part := part, de_Ack := ack, de_Want := want, de_HasWant := hasWant\<rparr>
           | None \<Rightarrow> stream_delta cp)
        else if mode = ModeKeyset then
          delta0\<lparr>de_Kind := DeltaShard, de_Part := anyToInt (r ''part''), de_Key := anyToStrs (r ''key'')\<rparr>
        else stream_delta cp))"

section \<open>Storage as JSON\<close>

text \<open>A string written as JSON and read back: invalid bytes turn into U+FFFD.\<close>

definition json_text :: "string \<Rightarrow> string" where
  "json_text s = (case unquote (quote_body s @ [CHR 0x22]) of Some (t, _) \<Rightarrow> t | None \<Rightarrow> s)"

lemma json_text_valid [simp]: "utf8_valid s \<Longrightarrow> json_text s = s"
  by (simp add: json_text_def unquote_quote)

text \<open>
  A 64-bit integer is read back as the nearest \<^verbatim>\<open>float64\<close>, ties to even: 53 bits are kept, and \<open>e\<close> is the
  number of bits beyond them.
\<close>

definition float64_of_int :: "int \<Rightarrow> rat" where
  "float64_of_int n =
     (let e = length (takeWhile (\<lambda>e. 2 ^ (53 + e) < \<bar>n\<bar>) [0..<11]);
          q = \<bar>n\<bar> div 2 ^ e; r = \<bar>n\<bar> mod 2 ^ e;
          up = (e > 0 \<and> (2 * r > 2 ^ e \<or> 2 * r = 2 ^ e \<and> odd q))
      in of_int (sgn n * ((q + (if up then 1 else 0)) * 2 ^ e)))"

lemma float64_of_int_exact: "\<bar>n\<bar> \<le> 2 ^ 53 \<Longrightarrow> float64_of_int n = of_int n"
proof -
  assume "\<bar>n\<bar> \<le> 2 ^ 53"
  then have "takeWhile (\<lambda>e. 2 ^ (53 + e) < \<bar>n\<bar>) [0..<11] = []"
    by (simp only: takeWhile_eq_Nil_iff hd_upt) simp
  then show ?thesis
    by (simp only: float64_of_int_def Let_def list.size power_0 div_by_1 mod_by_1 mult_1_right less_irrefl simp_thms if_False add_0_right sgn_mult_abs)
qed

fun json_image :: "goval \<Rightarrow> goval" where
  "json_image (VInt n) = VFloat (float64_of_int n)"
| "json_image (VInt64 n) = VFloat (float64_of_int n)"
| "json_image (VString s) = VString (json_text s)"
| "json_image (VStrings ss) = (if ss = [] then VNil else VList (map (\<lambda>s. VString (json_text s)) ss))"
| "json_image (VList vs) = (if vs = [] then VNil else VList (map json_image vs))"
| "json_image (VMap m) = VMap (map (\<lambda>(k, v). (json_text k, json_image v)) m)"
| "json_image v = v"

definition stored :: "checkpoint_data \<Rightarrow> checkpoint_data" where
  "stored c = c\<lparr>cp_Cursor := map (\<lambda>(k, v). (json_text k, json_image v)) (cp_Cursor c)\<rparr>"

lemma raw_image:
  assumes "\<forall>(k, v) \<in> set c. utf8_valid k"
  shows "map_of (map (\<lambda>(k, v). (json_text k, json_image v)) c) x = map_option json_image (map_of c x)"
    "raw (map (\<lambda>(k, v). (json_text k, json_image v)) c) x = json_image (raw c x)"
proof -
  have eq: "map (\<lambda>(k, v). (json_text k, json_image v)) c = map (\<lambda>(k, v). (k, json_image v)) c"
    using assms by auto
  show "map_of (map (\<lambda>(k, v). (json_text k, json_image v)) c) x = map_option json_image (map_of c x)"
    unfolding eq by (simp add: map_of_map)
  then show "raw (map (\<lambda>(k, v). (json_text k, json_image v)) c) x = json_image (raw c x)"
    by (simp add: raw_def split: option.split)
qed

text \<open>Readers do not see the difference.\<close>

lemma float_to_int_of_int: "int64 n \<Longrightarrow> float_to_int (of_int n) = n"
  by (simp add: float_to_int_def)

lemma image_strs: "list_all utf8_valid ss \<Longrightarrow> anyToStrs (json_image (strsToAny ss)) = ss"
  by (auto simp: strsToAny_def str_or_empty_def list_all_iff comp_def intro!: map_idI)

lemma anyToStrs_strsToAny [simp]: "anyToStrs (strsToAny ss) = ss"
  by (simp add: strsToAny_def str_or_empty_def comp_def)

definition shard_text_ok :: "keyset_shard \<Rightarrow> bool" where
  "shard_text_ok sh = list_all utf8_valid (sh_Lo sh @ sh_Hi sh @ sh_Key sh)"

lemmas literal_valid = utf8_valid_ascii byte_def

lemma parse_shard_value [simp]: "parse_shard (shard_value sh) = sh"
  by (simp add: parse_shard_def shard_value_def raw_def Let_def as_bool_def)

lemma parse_shard_image: "shard_text_ok sh \<Longrightarrow> parse_shard (json_image (shard_value sh)) = sh"
  by (simp add: parse_shard_def shard_value_def raw_def Let_def as_bool_def image_strs shard_text_ok_def literal_valid)

lemma anySlice_image: "anySlice (json_image (VList vs)) = map json_image vs"
  by simp

lemma meta_roundtrip: "anyToStrMap (VMap (map (\<lambda>(a, b). (a, VString b)) m)) = m"
  by (induction m) (auto simp: map_filter_simps)

lemma meta_image:
  "\<forall>(a, b) \<in> set m. utf8_valid a \<and> utf8_valid b \<Longrightarrow> anyToStrMap (json_image (VMap (map (\<lambda>(a, b). (a, VString b)) m))) = m"
  by (induction m) (auto simp: map_filter_simps)

definition plan_text_ok :: "keyset_checkpoint \<Rightarrow> bool" where
  "plan_text_ok k = (list_all utf8_valid (ks_Cols k @ ks_Types k) \<and> list_all shard_text_ok (ks_Shards k) \<and>
     (\<forall>(a, b) \<in> set (ks_Meta k). utf8_valid a \<and> utf8_valid b))"

lemma ParseKeyset_ToCheckpoint:
  "ks_Mode k \<in> set keyset_modes \<Longrightarrow> ParseKeyset (Some (ToCheckpoint k resource)) = Some k"
  by (cases k) (auto simp: ParseKeyset_def ToCheckpoint_def raw_def Let_def str_or_empty_def keyset_modes_def
    meta_roundtrip comp_def simp del: anyToStrMap.simps(1))

lemma mode_valid: "m \<in> set keyset_modes \<Longrightarrow> utf8_valid m"
  by (auto simp: keyset_modes_def literal_valid)

lemma cursor_keys_valid: "\<forall>(x, v) \<in> set (cp_Cursor (ToCheckpoint k r)). utf8_valid x"
  by (auto simp: ToCheckpoint_def Let_def literal_valid)

lemma ParseKeyset_stored:
  assumes "ks_Mode k \<in> set keyset_modes" "plan_text_ok k"
  shows "ParseKeyset (Some (stored (ToCheckpoint k resource))) = Some k"
proof -
  let ?c = "cp_Cursor (ToCheckpoint k resource)"
  have image: "raw (cp_Cursor (stored (ToCheckpoint k resource))) x = json_image (raw ?c x)" for x
    using raw_image (2) [OF cursor_keys_valid] by (simp add: stored_def)
  have mode: "ks_Mode k \<noteq> []" "json_text (ks_Mode k) = ks_Mode k"
    using assms(1) mode_valid [OF assms(1)] by (auto simp: keyset_modes_def)
  have vals: "raw ?c ''mode'' = VString (ks_Mode k)" "raw ?c ''cols'' = strsToAny (ks_Cols k)"
    "raw ?c ''types'' = strsToAny (ks_Types k)" "raw ?c ''shards'' = VList (map shard_value (ks_Shards k))"
    "raw ?c ''meta'' = (if ks_Meta k = [] then VNil else VMap (map (\<lambda>(a, b). (a, VString b)) (ks_Meta k)))"
    using mode by (simp_all add: ToCheckpoint_def raw_def Let_def)
  have shards: "map parse_shard (map json_image (map shard_value (ks_Shards k))) = ks_Shards k"
    using assms(2) by (auto simp: plan_text_ok_def list_all_iff parse_shard_image intro!: map_idI)
  have "anyToStrMap (json_image (raw ?c ''meta'')) = ks_Meta k"
    using assms(2) meta_image [of "ks_Meta k"] unfolding vals by (auto simp: plan_text_ok_def)
  then show ?thesis
    using assms mode shards by (simp add: ParseKeyset_def image vals anySlice_image image_strs plan_text_ok_def
      str_or_empty_def Let_def del: json_image.simps(5) anyToStrMap.simps map_map) 
qed

section \<open>Properties\<close>

text \<open>
  C28: a resume plan survives persistence. A key-space plan in any of its five modes decodes to
  itself, both from the value just built and from the one stored as JSON and read back, where slices
  and numbers have changed their Go types.
\<close>

theorem keyset_roundtrip:
  assumes "ks_Mode k \<in> set keyset_modes" "plan_text_ok k"
  shows "ParseKeyset (Some (ToCheckpoint k resource)) = Some k \<and>
    ParseKeyset (Some (stored (ToCheckpoint k resource))) = Some k"
  using ParseKeyset_ToCheckpoint [OF assms(1)] ParseKeyset_stored [OF assms] by blast

definition demo_plan :: keyset_checkpoint where
  "demo_plan = \<lparr>ks_Mode = ModeBitmap, ks_Cols = [''id''], ks_Types = [''bigint''],
     ks_Shards = [\<lparr>sh_Lo = [''1''], sh_Hi = [''250''], sh_Key = [], sh_Done = True\<rparr>,
                  \<lparr>sh_Lo = [''250''], sh_Hi = [], sh_Key = [''843''], sh_Done = False\<rparr>],
     ks_Meta = [(''a'', ''b'')]\<rparr>"

lemma demo_plan_ok: "ks_Mode demo_plan \<in> set keyset_modes" "plan_text_ok demo_plan"
  by (simp_all add: demo_plan_def keyset_modes_def plan_text_ok_def shard_text_ok_def literal_valid)

theorem keyset_roundtrip_witness:
  "ParseKeyset (Some (stored (ToCheckpoint demo_plan ''orders''))) = Some demo_plan"
  using keyset_roundtrip [OF demo_plan_ok] by blast

lemma to_uint64_to_int64 [simp]: "n < 2 ^ 64 \<Longrightarrow> to_uint64 (to_int64 n) = n"
proof -
  assume n: "n < 2 ^ 64"
  have "to_int64 n mod 2 ^ 64 = int n mod 2 ^ 64"
    unfolding to_int64_def wrap64_def mod_diff_left_eq by simp
  then show ?thesis
    using n by (simp add: to_uint64_def nat_mod_distrib)
qed

lemma to_int64_small: "n \<le> 2 ^ 53 \<Longrightarrow> to_int64 n = int n"
  by (simp add: to_int64_def int64_def)

lemma ParseStream_NewStreamDelta [simp]:
  "n < 2 ^ 64 \<Longrightarrow> ParseStream (Some (NewStreamDelta r l n)) = (if l = [] then None else Some (l, n))"
  by (simp add: ParseStream_def NewStreamDelta_def raw_def str_or_empty_def Let_def)

lemma exact53: "\<bar>n\<bar> \<le> 2 ^ 53 \<Longrightarrow> int64 n"
  by (auto simp: int64_def abs_le_iff)

lemmas delta_defs = DecodeDelta_def stream_delta_def CoarseDelta_def ParseStream_def NewShardDelta_def NewStreamDelta_def
  NewCoarseAck_def NewCoarseDone_def stored_def str_or_empty_def Let_def



subsection \<open>Merging\<close>

text \<open>The stream cursor a delta would leave on its own against a base.\<close>

definition newer_of :: "checkpoint \<Rightarrow> string \<Rightarrow> string \<times> nat \<Rightarrow> checkpoint" where
  "newer_of base r d = (case ParseStream base of
     Some (_, b) \<Rightarrow> if b > snd d then base else Some (NewStreamDelta r (fst d) (snd d))
   | None \<Rightarrow> Some (NewStreamDelta r (fst d) (snd d)))"

definition stream_ok :: "string \<times> nat \<Rightarrow> bool" where
  "stream_ok d = (fst d \<noteq> [] \<and> snd d < 2 ^ 64)"

lemma cp_Resource_NewStreamDelta [simp]: "cp_Resource (NewStreamDelta r l n) = r"
  by (simp add: NewStreamDelta_def)

lemma MergeStream_delta:
  "stream_ok d \<Longrightarrow> MergeStream base (Some (NewStreamDelta r (fst d) (snd d))) = newer_of base r d"
  by (cases d) (simp add: MergeStream_def newer_of_def stream_ok_def split: option.split)

lemma newer_of_newer_of:
  assumes "stream_ok d" "stream_ok e" "snd d \<noteq> snd e"
  shows "newer_of (newer_of base r d) r e = newer_of base r (if snd d < snd e then e else d)"
proof -
  have d: "ParseStream (Some (NewStreamDelta r (fst d) (snd d))) = Some d"
    using assms(1) by (cases d) (simp add: stream_ok_def)
  show ?thesis
  proof (cases "ParseStream base")
    case None
    then show ?thesis using assms(3) by (auto simp: newer_of_def d split: prod.splits)
  next
    case (Some p)
    obtain l b where p: "p = (l, b)" by fastforce
    show ?thesis
      using assms(3) Some by (auto simp: newer_of_def d p split: prod.splits)
  qed
qed

definition merge_all :: "checkpoint \<Rightarrow> string \<Rightarrow> (string \<times> nat) list \<Rightarrow> checkpoint" where
  "merge_all base r ds = foldl MergeStream base (map (\<lambda>d. Some (NewStreamDelta r (fst d) (snd d))) ds)"

lemma merge_all_newest:
  "list_all stream_ok ds \<Longrightarrow> distinct (map snd ds) \<Longrightarrow> d \<in> set ds \<Longrightarrow> \<forall>e \<in> set ds. snd e \<le> snd d \<Longrightarrow>
    merge_all base r ds = newer_of base r d"
proof (induction ds arbitrary: d rule: rev_induct)
  case (snoc x ds)
  have step: "merge_all base r (ds @ [x]) = newer_of (merge_all base r ds) r x"
    using snoc.prems(1) by (simp add: merge_all_def MergeStream_delta)
  show ?case
  proof (cases ds)
    case Nil
    with snoc.prems step show ?thesis by (simp add: merge_all_def)
  next
    case (Cons y ys)
    then have "Max (snd ` set ds) \<in> snd ` set ds"
      by (intro Max_in) auto
    then obtain m where "m \<in> set ds" "snd m = Max (snd ` set ds)"
      by auto
    then have m: "m \<in> set ds" "\<forall>e \<in> set ds. snd e \<le> snd m"
      by auto
    have ih: "merge_all base r ds = newer_of base r m"
      using snoc m by simp
    have neq: "snd m \<noteq> snd x"
      using snoc.prems(2) m(1) by (force simp: image_iff)
    have ok: "stream_ok m" "stream_ok x"
      using snoc.prems(1) m(1) by (auto simp: list_all_iff)
    have "d = (if snd m < snd x then x else m)"
    proof -
      let ?w = "if snd m < snd x then x else m"
      have w: "?w \<in> set (ds @ [x])" "\<forall>e \<in> set (ds @ [x]). snd e \<le> snd ?w"
        using m by (auto intro: order.trans)
      then have "snd d = snd ?w"
        using snoc.prems(3,4) by (intro order_antisym) blast+
      moreover have "inj_on snd (set (ds @ [x]))"
        using snoc.prems(2) by (simp only: distinct_map)
      ultimately show ?thesis
        by (intro inj_onD [OF _ _ snoc.prems(3) w(1)])
    qed
    then show ?thesis
      by (simp only: step ih newer_of_newer_of [OF ok neq])
  qed
qed simp

text \<open>
  C27: out-of-order batch facts cannot move a stream cursor back. Folding any batch deltas with
  distinct sequence numbers onto a base, in whatever order they arrive, leaves the delta with the
  highest sequence, or the base when the base is newer still.
\<close>

theorem merge_stream_newest:
  assumes "list_all stream_ok ds" "distinct (map snd ds)" "(lsn, n) \<in> set ds" "\<forall>e \<in> set ds. snd e \<le> n"
  shows "foldl MergeStream base (map (\<lambda>d. Some (NewStreamDelta r (fst d) (snd d))) ds) =
    (case ParseStream base of
       Some (_, b) \<Rightarrow> if b > n then base else Some (NewStreamDelta r lsn n)
     | None \<Rightarrow> Some (NewStreamDelta r lsn n))"
  using merge_all_newest [OF assms(1-3)] assms(4) by (simp add: merge_all_def newer_of_def split: option.split)

theorem merge_stream_newest_witness:
  "foldl MergeStream None (map (\<lambda>d. Some (NewStreamDelta ''t'' (fst d) (snd d))) [(''b'', 2), (''c'', 3), (''a'', 1)]) =
    Some (NewStreamDelta ''t'' ''c'' 3)"
  by (subst merge_stream_newest [where lsn = "''c''" and n = 3]) (simp_all add: stream_ok_def ParseStream_def)

lemma MergeShardDelta_delta:
  assumes "ks_Mode k \<in> set keyset_modes"
  shows "MergeShardDelta (Some (ToCheckpoint k r)) (Some (NewShardDelta r' part key)) =
    Some (ToCheckpoint (if 0 \<le> part \<and> part < int (length (ks_Shards k))
      then k\<lparr>ks_Shards := (ks_Shards k)[nat part := (ks_Shards k ! nat part)\<lparr>sh_Key := key\<rparr>]\<rparr> else k) r)"
  using ParseKeyset_ToCheckpoint [OF assms]
  by (auto simp: MergeShardDelta_def NewShardDelta_def raw_def str_or_empty_def Let_def ToCheckpoint_def)

definition advance :: "keyset_checkpoint \<Rightarrow> int \<times> string list \<Rightarrow> keyset_checkpoint" where
  "advance k d = (if 0 \<le> fst d \<and> fst d < int (length (ks_Shards k))
     then k\<lparr>ks_Shards := (ks_Shards k)[nat (fst d) := (ks_Shards k ! nat (fst d))\<lparr>sh_Key := snd d\<rparr>]\<rparr> else k)"

lemma merge_shards:
  "ks_Mode k \<in> set keyset_modes \<Longrightarrow>
    foldl MergeShardDelta (Some (ToCheckpoint k r)) (map (\<lambda>d. Some (NewShardDelta r (fst d) (snd d))) ds) =
    Some (ToCheckpoint (foldl advance k ds) r)"
proof (induction ds arbitrary: k)
  case (Cons d ds)
  have "ks_Mode (advance k d) = ks_Mode k"
    by (simp add: advance_def)
  with Cons show ?case
    by (simp add: MergeShardDelta_delta advance_def)
qed simp

lemma advance_frame [simp]:
  "ks_Mode (advance k d) = ks_Mode k" "length (ks_Shards (advance k d)) = length (ks_Shards k)"
  "ks_Cols (advance k d) = ks_Cols k" "ks_Types (advance k d) = ks_Types k" "ks_Meta (advance k d) = ks_Meta k"
  by (simp_all add: advance_def)

lemma foldl_advance_shard:
  "i < length (ks_Shards k) \<Longrightarrow>
    ks_Shards (foldl advance k ds) ! i =
      (case filter (\<lambda>d. fst d = int i) ds of [] \<Rightarrow> ks_Shards k ! i
       | es \<Rightarrow> (ks_Shards k ! i)\<lparr>sh_Key := snd (last es)\<rparr>)"
proof (induction ds arbitrary: k)
  case (Cons d ds)
  have "ks_Shards (advance k d) ! i = (if fst d = int i then (ks_Shards k ! i)\<lparr>sh_Key := snd d\<rparr> else ks_Shards k ! i)"
    using Cons.prems by (auto simp: advance_def nth_list_update)
  with Cons show ?case
    by (auto split: list.splits)
qed simp

text \<open>
  C26: shard cursors are independent. Applying any sequence of shard deltas to a stored plan leaves
  every shard with its own last key, or untouched when no delta names it; bounds, completion flags,
  mode, columns and metadata never change, and deltas for shards the plan does not have are ignored.
\<close>

theorem shard_deltas_independent:
  assumes "ks_Mode k \<in> set keyset_modes"
  shows "\<exists>k'. foldl MergeShardDelta (Some (ToCheckpoint k r)) (map (\<lambda>d. Some (NewShardDelta r (fst d) (snd d))) ds) =
      Some (ToCheckpoint k' r) \<and> k' = k\<lparr>ks_Shards := ks_Shards k'\<rparr> \<and> length (ks_Shards k') = length (ks_Shards k) \<and>
    (\<forall>i < length (ks_Shards k). ks_Shards k' ! i =
      (case filter (\<lambda>d. fst d = int i) ds of [] \<Rightarrow> ks_Shards k ! i
       | es \<Rightarrow> (ks_Shards k ! i)\<lparr>sh_Key := snd (last es)\<rparr>))"
proof (intro exI conjI allI impI)
  let ?k = "foldl advance k ds"
  show "foldl MergeShardDelta (Some (ToCheckpoint k r)) (map (\<lambda>d. Some (NewShardDelta r (fst d) (snd d))) ds) =
      Some (ToCheckpoint ?k r)"
    by (rule merge_shards [OF assms])
  have frame: "ks_Mode (foldl advance k ds) = ks_Mode k \<and> ks_Cols (foldl advance k ds) = ks_Cols k \<and>
      ks_Types (foldl advance k ds) = ks_Types k \<and> ks_Meta (foldl advance k ds) = ks_Meta k \<and>
      length (ks_Shards (foldl advance k ds)) = length (ks_Shards k)" for k
    by (induction ds arbitrary: k) simp_all
  then show "?k = k\<lparr>ks_Shards := ks_Shards ?k\<rparr>"
    by (intro keyset_checkpoint.equality) simp_all
  show "length (ks_Shards ?k) = length (ks_Shards k)"
    using frame by blast
qed (rule foldl_advance_shard)

theorem shard_deltas_independent_witness:
  "\<exists>k'. foldl MergeShardDelta (Some (ToCheckpoint demo_plan ''t''))
      (map (\<lambda>d. Some (NewShardDelta ''t'' (fst d) (snd d))) [(0, [''5'']), (7, [''x'']), (0, [''9''])]) = Some (ToCheckpoint k' ''t'') \<and>
    sh_Key (ks_Shards k' ! 0) = [''9'']"
proof -
  obtain k' where "foldl MergeShardDelta (Some (ToCheckpoint demo_plan ''t''))
      (map (\<lambda>d. Some (NewShardDelta ''t'' (fst d) (snd d))) [(0, [''5'']), (7, [''x'']), (0, [''9''])]) = Some (ToCheckpoint k' ''t'')"
    "ks_Shards k' ! 0 = (ks_Shards demo_plan ! 0)\<lparr>sh_Key := [''9'']\<rparr>"
    using shard_deltas_independent [OF demo_plan_ok(1), of "''t''" "[(0, [''5'']), (7, [''x'']), (0, [''9''])]"]
    by (auto simp: demo_plan_def)
  then show ?thesis by auto
qed

subsection \<open>Promotion of an incremental backfill\<close>

lemma decode_encode [simp]: "list_all utf8_valid ss \<Longrightarrow> decodeStrings (encodeStrings ss) = Some ss"
proof -
  assume "list_all utf8_valid ss"
  then have "json_unstrings (encodeStrings ss) = Some (if ss = [] then None else Some ss)"
    unfolding encodeStrings_def by (intro unstrings_strings) auto
  moreover have "encodeStrings ss \<noteq> []"
    by (simp add: encodeStrings_def json_strings_def)
  ultimately show ?thesis
    by (simp add: decodeStrings_def)
qed

lemma meta_get_update: "meta_get (AList.update k v m) k' = (if k = k' then v else meta_get m k')"
  by (simp add: meta_get_def update_conv)

definition incremental_plan :: "string list \<Rightarrow> string list \<Rightarrow> string list \<Rightarrow> int \<Rightarrow> keyset_checkpoint" where
  "incremental_plan cols types start lookback =
     \<lparr>ks_Mode = ModeIncremental, ks_Cols = cols, ks_Types = types,
      ks_Shards = [\<lparr>sh_Lo = [], sh_Hi = [], sh_Key = start, sh_Done = False\<rparr>],
      ks_Meta = [(''incremental_lookback_seconds'', itoa lookback)]\<rparr>"

lemma promote_plan:
  assumes "ParseKeyset (Some c) = Some (AsIncrementalBackfill plan cols types start lookback)"
    "list_all utf8_valid (cols @ types @ start)" "cols \<noteq> []" "length cols = length types"
  shows "PromoteIncrementalBackfill (Some c) = (Some (ToCheckpoint (incremental_plan cols types start lookback) (cp_Resource c)), True)"
  using assms
  by (simp add: PromoteIncrementalBackfill_def AsIncrementalBackfill_def meta_get_update incremental_plan_def)

lemma ascii_digits_valid: "list_all is_digit s \<Longrightarrow> utf8_valid s"
  by (intro utf8_valid_all_ascii) (auto simp: list_all_iff is_digit_def in_range_def)

lemma itoa_valid: "utf8_valid (itoa n)"
  using ascii_digits_valid [OF format_uint_digits] by (simp add: itoa_def byte_def)

lemma backfill_text_ok:
  assumes "plan_text_ok plan"
  shows "plan_text_ok (AsIncrementalBackfill plan cols types start lookback)"
proof -
  have upd: "\<forall>(a, b) \<in> set (AList.update k v m). utf8_valid a \<and> utf8_valid b"
    if "utf8_valid k" "utf8_valid v" "\<forall>(a, b) \<in> set m. utf8_valid a \<and> utf8_valid b" for k v m
    using that by (induction m) (auto split: if_splits)
  have enc: "utf8_valid (encodeStrings ss)" for ss
    by (simp add: encodeStrings_def json_strings_valid)
  show ?thesis
    using assms unfolding plan_text_ok_def AsIncrementalBackfill_def
    by (simp del: update.simps) (intro upd enc itoa_valid; simp add: literal_valid)
qed

text \<open>
  C29: a finished incremental backfill hands over exactly the watermark captured before it began. A
  plan annotated with columns, types, start values and lookback, stored as JSON and read back,
  promotes to the incremental cursor with those columns, types, start values and lookback, whatever
  characters the values contain.
\<close>

theorem backfill_promotes:
  assumes "plan_text_ok plan" "list_all utf8_valid (cols @ types @ start)" "cols \<noteq> []" "length cols = length types"
    and "f = id \<or> f = stored"
  shows "PromoteIncrementalBackfill (Some (f (ToCheckpoint (AsIncrementalBackfill plan cols types start lookback) r))) =
    (Some (ToCheckpoint (incremental_plan cols types start lookback) r), True)"
proof -
  let ?k = "AsIncrementalBackfill plan cols types start lookback"
  have "ks_Mode ?k \<in> set keyset_modes"
    by (simp add: AsIncrementalBackfill_def keyset_modes_def)
  then have "ParseKeyset (Some (f (ToCheckpoint ?k r))) = Some ?k"
    using assms(5) ParseKeyset_ToCheckpoint ParseKeyset_stored backfill_text_ok [OF assms(1)] by auto
  moreover have "cp_Resource (f (ToCheckpoint ?k r)) = r"
    using assms(5) by (auto simp: stored_def ToCheckpoint_def Let_def)
  ultimately show ?thesis
    using promote_plan [of "f (ToCheckpoint ?k r)"] assms(2-4) by simp
qed

theorem backfill_promotes_witness:
  "PromoteIncrementalBackfill (Some (stored (ToCheckpoint
      (AsIncrementalBackfill demo_plan [''updated_at''] [''text''] [[CHR 0x22, CHR ''<'']] 60) ''orders''))) =
    (Some (ToCheckpoint (incremental_plan [''updated_at''] [''text''] [[CHR 0x22, CHR ''<'']] 60) ''orders''), True)"
  by (rule backfill_promotes [OF demo_plan_ok(2)]) (simp_all add: literal_valid)

end
