(* ===== verification/ArrowBatch.thy ===== *)
theory ArrowBatch
  imports RowModel Checkpoint
begin

text \<open>
  Row batches (\<^verbatim>\<open>arrowbatch\<close>): the mapping of a schema to Arrow storage types, owned batches with
  their reference count, and the builder that turns appended values into batches. An Arrow array is
  the list of its values; a column builder is the list of values appended so far; a decimal is its
  unscaled integer and a float its bit pattern.
\<close>

section \<open>Storage types\<close>

datatype arrow_type =
    ArrowBoolean | ArrowInt16 | ArrowInt32 | ArrowInt64 | ArrowFloat32 | ArrowFloat64
  | ArrowDecimal128 int int | ArrowString | ArrowBinary | ArrowDate32 | ArrowTime64us
  | ArrowTimestamp string

definition Type :: "field \<Rightarrow> arrow_type" where
  "Type f =
     (if fd_Logical f = ''bool'' then ArrowBoolean
      else if fd_Logical f = ''int16'' then ArrowInt16
      else if fd_Logical f = ''int32'' then ArrowInt32
      else if fd_Logical f = ''int64'' then ArrowInt64
      else if fd_Logical f = ''float32'' then ArrowFloat32
      else if fd_Logical f = ''float64'' then ArrowFloat64
      else if fd_Logical f = ''decimal'' then
        (if 0 < fd_Precision f \<and> fd_Precision f \<le> 38 then ArrowDecimal128 (fd_Precision f) (wrap32 (fd_Scale f)) else ArrowString)
      else if fd_Logical f = ''bytes'' then ArrowBinary
      else if fd_Logical f = ''date'' then ArrowDate32
      else if fd_Logical f = ''time'' then ArrowTime64us
      else if fd_Logical f = ''timestamp'' then ArrowTimestamp []
      else if fd_Logical f = ''timestamptz'' then ArrowTimestamp ''UTC''
      else ArrowString)"

record arrow_field =
  af_Name :: string
  af_Type :: arrow_type
  af_Nullable :: bool
  af_Logical :: string
  af_Native :: string

definition Field :: "field \<Rightarrow> arrow_field" where
  "Field f = \<lparr>af_Name = fd_Name f, af_Type = Type f, af_Nullable = fd_Nullable f, af_Logical = fd_Logical f, af_Native = fd_Native f\<rparr>"

type_synonym arrow_schema = "arrow_field list"

definition Schema :: "schema \<Rightarrow> arrow_schema" where
  "Schema rs = map Field (sc_Fields rs)"

definition LogicalOf :: "arrow_field \<Rightarrow> logical_type" where
  "LogicalOf f = af_Logical f"

definition NativeOf :: "arrow_field \<Rightarrow> string" where
  "NativeOf f = af_Native f"

section \<open>Batches\<close>

datatype cell =
    CNull | CBool bool | CInt16 int | CInt32 int | CInt64 int | CFloat32 nat | CFloat64 nat
  | CDecimal int | CString string | CBinary string | CDate int | CTime int | CTimestamp int

record record_batch =
  rb_Schema :: arrow_schema
  rb_Columns :: "cell list list"
  rb_NumRows :: nat

text \<open>A nil key is told apart from an empty one.\<close>

record meta =
  mt_Op :: operation
  mt_Key :: "string list option"
  mt_Coarse :: bool
  mt_LSN :: string
  mt_Seq :: nat
  mt_Stream :: "event_identity option"

definition no_meta :: meta where
  "no_meta = \<lparr>mt_Op = OpInsert, mt_Key = None, mt_Coarse = False, mt_LSN = [], mt_Seq = 0, mt_Stream = None\<rparr>"

record batch =
  bt_refs :: int
  bt_rows :: "record_batch option"
  bt_ops :: "operation list"
  bt_Resource :: string
  bt_Part :: int
  bt_Seq :: nat
  bt_Cursor :: checkpoint
  bt_Drained :: bool
  bt_Control :: "control option"
  bt_Last :: meta

definition NewBatch :: "record_batch \<Rightarrow> operation list \<Rightarrow> batch" where
  "NewBatch rows ops =
     \<lparr>bt_refs = 1, bt_rows = Some rows, bt_ops = ops, bt_Resource = [], bt_Part = 0, bt_Seq = 0, bt_Cursor = None,
      bt_Drained = False, bt_Control = None, bt_Last = no_meta\<rparr>"

definition WithRows :: "batch \<Rightarrow> record_batch \<Rightarrow> batch" where
  "WithRows b rows =
     (NewBatch rows (bt_ops b))\<lparr>bt_Resource := bt_Resource b, bt_Part := bt_Part b, bt_Seq := bt_Seq b,
        bt_Cursor := bt_Cursor b, bt_Drained := bt_Drained b, bt_Last := bt_Last b\<rparr>"

definition empty_batch :: batch where
  "empty_batch =
     \<lparr>bt_refs = 1, bt_rows = None, bt_ops = [], bt_Resource = [], bt_Part = 0, bt_Seq = 0, bt_Cursor = None,
      bt_Drained = False, bt_Control = None, bt_Last = no_meta\<rparr>"

definition NewMarker :: batch where
  "NewMarker = empty_batch\<lparr>bt_Drained := True\<rparr>"

definition NewControl :: "control \<Rightarrow> batch res" where
  "NewControl c = check_err (Control_Validate c) (Inr (empty_batch\<lparr>bt_Control := Some c\<rparr>))"

definition NumRows :: "batch \<Rightarrow> nat" where
  "NumRows b = (case bt_rows b of None \<Rightarrow> 0 | Some r \<Rightarrow> rb_NumRows r)"

text \<open>Row \<open>i\<close> is assumed in range, as in the code, which would panic otherwise.\<close>

definition Op :: "batch \<Rightarrow> nat \<Rightarrow> operation" where
  "Op b i = (if length (bt_ops b) = 0 then OpInsert else bt_ops b ! i)"

definition SeqString :: "batch \<Rightarrow> string" where
  "SeqString b = format_uint (bt_Seq b)"

text \<open>Ownership: None is the panic of a retain after release or of a release too many.\<close>

definition Retain :: "batch \<Rightarrow> batch option" where
  "Retain b = (if bt_refs b \<le> 0 then None else Some (b\<lparr>bt_refs := bt_refs b + 1\<rparr>))"

definition Release :: "batch \<Rightarrow> batch option" where
  "Release b =
     (let refs = bt_refs b - 1 in
      if refs < 0 then None
      else if refs = 0 then Some (b\<lparr>bt_refs := refs, bt_rows := None, bt_ops := [], bt_Control := None\<rparr>)
      else Some (b\<lparr>bt_refs := refs\<rparr>))"

section \<open>The builder\<close>

text \<open>
  The receiver of finished batches is a state with two operations, each of which may fail. The
  builder's methods return the builder, the receiver's state and the error.
\<close>

record 'r receiver =
  rv_Chunk :: "'r \<Rightarrow> batch \<Rightarrow> 'r \<times> goerr option"
  rv_Drained :: "'r \<Rightarrow> meta \<Rightarrow> nat \<Rightarrow> 'r \<times> goerr option"

record options =
  op_MaxRows :: int
  op_MaxBytes :: int

record builder =
  bd_schema :: arrow_schema
  bd_opts :: options
  bd_cols :: "cell list list"
  bd_cur :: nat
  bd_rows :: nat
  bd_bytes :: int
  bd_ops :: "operation list option"
  bd_last :: meta
  bd_total :: nat
  bd_err :: "goerr option"
  bd_flushReq :: bool
  bd_closed :: bool

text \<open>None is the panic on a row limit that is not positive.\<close>

definition NewBuilder :: "arrow_schema \<Rightarrow> options \<Rightarrow> builder option" where
  "NewBuilder schema opts =
     (if op_MaxRows opts \<le> 0 then None
      else Some \<lparr>bd_schema = schema, bd_opts = opts, bd_cols = replicate (length schema) [], bd_cur = 0, bd_rows = 0,
        bd_bytes = 0, bd_ops = None, bd_last = no_meta, bd_total = 0, bd_err = None, bd_flushReq = False, bd_closed = False\<rparr>)"

text \<open>The column the next value goes to, with the builder after the check.\<close>

definition open_column :: "builder \<Rightarrow> builder \<times> nat option" where
  "open_column b =
     (if bd_closed b then (b\<lparr>bd_err := Some ErrBuilderClosed\<rparr>, None)
      else if bd_err b \<noteq> None then (b, None)
      else if bd_cur b \<ge> length (bd_cols b) then (b\<lparr>bd_err := Some (ErrMsg ''batch: row has too many columns'')\<rparr>, None)
      else (b, Some (bd_cur b)))"

definition mismatch :: "string \<Rightarrow> builder \<Rightarrow> builder" where
  "mismatch want b = b\<lparr>bd_err := Some (ErrMsg (want @ '' append on column''))\<rparr>"

definition put_cell :: "cell \<Rightarrow> int \<Rightarrow> builder \<Rightarrow> builder" where
  "put_cell v width b =
     b\<lparr>bd_cols := (bd_cols b)[bd_cur b := bd_cols b ! bd_cur b @ [v]], bd_cur := bd_cur b + 1,
       bd_bytes := wrap64 (bd_bytes b + width)\<rparr>"

definition Null :: "builder \<Rightarrow> builder" where
  "Null b = (case open_column b of (b, None) \<Rightarrow> b | (b, Some _) \<Rightarrow> put_cell CNull 0 b)"

text \<open>A typed append: the value goes in when the column has the storage type of the method.\<close>

definition typed :: "(arrow_type \<Rightarrow> bool) \<Rightarrow> cell \<Rightarrow> int \<Rightarrow> string \<Rightarrow> builder \<Rightarrow> builder" where
  "typed ok v width want b =
     (case open_column b of
        (b, None) \<Rightarrow> b
      | (b, Some i) \<Rightarrow> if ok (af_Type (bd_schema b ! i)) then put_cell v width b else mismatch want b)"

definition Builder_Bool :: "bool \<Rightarrow> builder \<Rightarrow> builder" where
  "Builder_Bool v = typed (\<lambda>t. t = ArrowBoolean) (CBool v) 1 ''bool''"

definition Builder_Int16 :: "int \<Rightarrow> builder \<Rightarrow> builder" where
  "Builder_Int16 v = typed (\<lambda>t. t = ArrowInt16) (CInt16 v) 2 ''int16''"

definition Builder_Int32 :: "int \<Rightarrow> builder \<Rightarrow> builder" where
  "Builder_Int32 v = typed (\<lambda>t. t = ArrowInt32) (CInt32 v) 4 ''int32''"

definition Builder_Int64 :: "int \<Rightarrow> builder \<Rightarrow> builder" where
  "Builder_Int64 v = typed (\<lambda>t. t = ArrowInt64) (CInt64 v) 8 ''int64''"

definition Builder_Float32 :: "nat \<Rightarrow> builder \<Rightarrow> builder" where
  "Builder_Float32 v = typed (\<lambda>t. t = ArrowFloat32) (CFloat32 v) 4 ''float32''"

definition Builder_Float64 :: "nat \<Rightarrow> builder \<Rightarrow> builder" where
  "Builder_Float64 v = typed (\<lambda>t. t = ArrowFloat64) (CFloat64 v) 8 ''float64''"

definition Builder_Decimal :: "int \<Rightarrow> builder \<Rightarrow> builder" where
  "Builder_Decimal v = typed (\<lambda>t. case t of ArrowDecimal128 _ _ \<Rightarrow> True | _ \<Rightarrow> False) (CDecimal v) 16 ''decimal''"

definition Builder_String :: "string \<Rightarrow> builder \<Rightarrow> builder" where
  "Builder_String v = typed (\<lambda>t. t = ArrowString) (CString v) (int (length v) + 4) ''string''"

definition Builder_StringBytes :: "string \<Rightarrow> builder \<Rightarrow> builder" where
  "Builder_StringBytes v = typed (\<lambda>t. t = ArrowString) (CString v) (int (length v) + 4) ''string''"

definition Builder_Bytes :: "string \<Rightarrow> builder \<Rightarrow> builder" where
  "Builder_Bytes v = typed (\<lambda>t. t = ArrowBinary) (CBinary v) (int (length v) + 4) ''bytes''"

definition Builder_Date :: "int \<Rightarrow> builder \<Rightarrow> builder" where
  "Builder_Date v = typed (\<lambda>t. t = ArrowDate32) (CDate v) 4 ''date''"

definition Builder_Time :: "int \<Rightarrow> builder \<Rightarrow> builder" where
  "Builder_Time v = typed (\<lambda>t. t = ArrowTime64us) (CTime v) 8 ''time''"

definition Builder_Timestamp :: "int \<Rightarrow> builder \<Rightarrow> builder" where
  "Builder_Timestamp v = typed (\<lambda>t. case t of ArrowTimestamp _ \<Rightarrow> True | _ \<Rightarrow> False) (CTimestamp v) 8 ''timestamp''"

definition chunk_batch :: "builder \<Rightarrow> batch" where
  "chunk_batch b =
     (NewBatch \<lparr>rb_Schema = bd_schema b, rb_Columns = bd_cols b, rb_NumRows = bd_rows b\<rparr>
        (case bd_ops b of None \<Rightarrow> [] | Some ops \<Rightarrow> ops))\<lparr>bt_Last := bd_last b\<rparr>"

definition builder_flush :: "'r receiver \<Rightarrow> 'r \<Rightarrow> builder \<Rightarrow> builder \<times> 'r \<times> goerr option" where
  "builder_flush recv r b =
     (if bd_cur b \<noteq> 0 then
        (let e = Some (ErrMsg ''batch: flush inside a row'') in (b\<lparr>bd_err := e\<rparr>, r, e))
      else if bd_rows b = 0 then (b\<lparr>bd_flushReq := False\<rparr>, r, None)
      else
        (let out = chunk_batch b;
             b = b\<lparr>bd_cols := replicate (length (bd_schema b)) [], bd_ops := None, bd_rows := 0, bd_bytes := 0\<rparr>
         in case rv_Chunk recv r out of
              (r, Some e) \<Rightarrow> (b\<lparr>bd_err := Some e\<rparr>, r, Some e)
            | (r, None) \<Rightarrow> (b\<lparr>bd_flushReq := False\<rparr>, r, None)))"

definition EndRow :: "'r receiver \<Rightarrow> 'r \<Rightarrow> meta \<Rightarrow> builder \<Rightarrow> builder \<times> 'r \<times> goerr option" where
  "EndRow recv r meta b =
     (if bd_closed b then (b, r, Some ErrBuilderClosed)
      else
        let b = (if bd_err b = None \<and> bd_cur b \<noteq> length (bd_cols b)
                 then b\<lparr>bd_err := Some (ErrMsg ''batch: row has too few columns'')\<rparr> else b);
            b = b\<lparr>bd_cur := 0\<rparr>
        in case bd_err b of
             Some e \<Rightarrow> (b, r, Some e)
           | None \<Rightarrow>
               let b = (if mt_Op meta \<noteq> OpInsert \<and> bd_ops b = None
                        then b\<lparr>bd_ops := Some (replicate (bd_rows b) OpInsert)\<rparr> else b);
                   b = (case bd_ops b of None \<Rightarrow> b | Some ops \<Rightarrow> b\<lparr>bd_ops := Some (ops @ [mt_Op meta])\<rparr>);
                   b = b\<lparr>bd_last := meta, bd_rows := bd_rows b + 1, bd_total := bd_total b + 1\<rparr>
               in if int (bd_rows b) \<ge> op_MaxRows (bd_opts b)
                     \<or> (op_MaxBytes (bd_opts b) > 0 \<and> bd_bytes b \<ge> op_MaxBytes (bd_opts b))
                  then builder_flush recv r b
                  else if bd_flushReq b then builder_flush recv r (b\<lparr>bd_flushReq := False\<rparr>)
                  else (b, r, None))"

definition RequestFlush :: "builder \<Rightarrow> builder" where
  "RequestFlush b = b\<lparr>bd_flushReq := True\<rparr>"

definition Builder_Flush :: "'r receiver \<Rightarrow> 'r \<Rightarrow> builder \<Rightarrow> builder \<times> 'r \<times> goerr option" where
  "Builder_Flush recv r b =
     (if bd_closed b then (b, r, Some ErrBuilderClosed)
      else case bd_err b of Some e \<Rightarrow> (b, r, Some e) | None \<Rightarrow> builder_flush recv r b)"

definition Builder_Drain :: "'r receiver \<Rightarrow> 'r \<Rightarrow> meta \<Rightarrow> builder \<Rightarrow> builder \<times> 'r \<times> goerr option" where
  "Builder_Drain recv r meta b =
     (if bd_closed b then (b, r, Some ErrBuilderClosed)
      else case bd_err b of
        Some e \<Rightarrow> (b, r, Some e)
      | None \<Rightarrow>
          (case builder_flush recv r b of
             (b, r, Some e) \<Rightarrow> (b, r, Some e)
           | (b, r, None) \<Rightarrow>
               (case rv_Drained recv r meta (bd_total b) of
                  (r, Some e) \<Rightarrow> (b\<lparr>bd_err := Some e\<rparr>, r, Some e)
                | (r, None) \<Rightarrow> (b, r, None))))"

definition Builder_Close :: "builder \<Rightarrow> builder" where
  "Builder_Close b =
     (if bd_closed b then b
      else b\<lparr>bd_closed := True, bd_cols := [], bd_ops := None, bd_rows := 0, bd_cur := 0\<rparr>)"

section \<open>Calls on a builder\<close>

datatype append_call =
    ANull | ABool bool | AInt16 int | AInt32 int | AInt64 int | AFloat32 nat | AFloat64 nat | ADecimal int
  | AString string | AStringBytes string | ABytes string | ADate int | ATime int | ATimestamp int

fun do_append :: "append_call \<Rightarrow> builder \<Rightarrow> builder" where
  "do_append ANull = Null"
| "do_append (ABool v) = Builder_Bool v"
| "do_append (AInt16 v) = Builder_Int16 v"
| "do_append (AInt32 v) = Builder_Int32 v"
| "do_append (AInt64 v) = Builder_Int64 v"
| "do_append (AFloat32 v) = Builder_Float32 v"
| "do_append (AFloat64 v) = Builder_Float64 v"
| "do_append (ADecimal v) = Builder_Decimal v"
| "do_append (AString v) = Builder_String v"
| "do_append (AStringBytes v) = Builder_StringBytes v"
| "do_append (ABytes v) = Builder_Bytes v"
| "do_append (ADate v) = Builder_Date v"
| "do_append (ATime v) = Builder_Time v"
| "do_append (ATimestamp v) = Builder_Timestamp v"

fun call_value :: "append_call \<Rightarrow> cell" where
  "call_value ANull = CNull"
| "call_value (ABool v) = CBool v"
| "call_value (AInt16 v) = CInt16 v"
| "call_value (AInt32 v) = CInt32 v"
| "call_value (AInt64 v) = CInt64 v"
| "call_value (AFloat32 v) = CFloat32 v"
| "call_value (AFloat64 v) = CFloat64 v"
| "call_value (ADecimal v) = CDecimal v"
| "call_value (AString v) = CString v"
| "call_value (AStringBytes v) = CString v"
| "call_value (ABytes v) = CBinary v"
| "call_value (ADate v) = CDate v"
| "call_value (ATime v) = CTime v"
| "call_value (ATimestamp v) = CTimestamp v"

text \<open>Which values a column of a storage type may hold.\<close>

fun fits :: "arrow_type \<Rightarrow> cell \<Rightarrow> bool" where
  "fits t CNull = True"
| "fits t (CBool _) = (t = ArrowBoolean)"
| "fits t (CInt16 _) = (t = ArrowInt16)"
| "fits t (CInt32 _) = (t = ArrowInt32)"
| "fits t (CInt64 _) = (t = ArrowInt64)"
| "fits t (CFloat32 _) = (t = ArrowFloat32)"
| "fits t (CFloat64 _) = (t = ArrowFloat64)"
| "fits t (CDecimal _) = (case t of ArrowDecimal128 _ _ \<Rightarrow> True | _ \<Rightarrow> False)"
| "fits t (CString _) = (t = ArrowString)"
| "fits t (CBinary _) = (t = ArrowBinary)"
| "fits t (CDate _) = (t = ArrowDate32)"
| "fits t (CTime _) = (t = ArrowTime64us)"
| "fits t (CTimestamp _) = (case t of ArrowTimestamp _ \<Rightarrow> True | _ \<Rightarrow> False)"

datatype builder_op = BAppend append_call | BEndRow meta | BRequestFlush | BFlush | BDrain meta | BClose

fun builder_step :: "'r receiver \<Rightarrow> builder_op \<Rightarrow> builder \<times> 'r \<Rightarrow> builder \<times> 'r" where
  "builder_step recv (BAppend a) (b, r) = (do_append a b, r)"
| "builder_step recv (BEndRow m) (b, r) = (case EndRow recv r m b of (b, r, _) \<Rightarrow> (b, r))"
| "builder_step recv BRequestFlush (b, r) = (RequestFlush b, r)"
| "builder_step recv BFlush (b, r) = (case Builder_Flush recv r b of (b, r, _) \<Rightarrow> (b, r))"
| "builder_step recv (BDrain m) (b, r) = (case Builder_Drain recv r m b of (b, r, _) \<Rightarrow> (b, r))"
| "builder_step recv BClose (b, r) = (Builder_Close b, r)"

definition builder_run :: "'r receiver \<Rightarrow> builder_op list \<Rightarrow> builder \<times> 'r \<Rightarrow> builder \<times> 'r" where
  "builder_run recv ops st = fold (builder_step recv) ops st"

section \<open>What a builder promises\<close>

text \<open>
  The specification of a row writer: values collect in an open row, ending the row appends it, with
  its operation, to the rows written.
\<close>

type_synonym row = "cell list \<times> operation"

fun spec_step :: "builder_op \<Rightarrow> cell list \<times> row list \<Rightarrow> cell list \<times> row list" where
  "spec_step (BAppend a) (cur, done) = (cur @ [call_value a], done)"
| "spec_step (BEndRow m) (cur, done) = ([], done @ [(cur, mt_Op m)])"
| "spec_step _ s = s"

definition spec_run :: "builder_op list \<Rightarrow> cell list \<times> row list \<Rightarrow> cell list \<times> row list" where
  "spec_run ops s = fold spec_step ops s"

definition batch_rows :: "record_batch \<times> operation list \<Rightarrow> row list" where
  "batch_rows x = (case x of (rb, ops) \<Rightarrow>
     map (\<lambda>i. (map (\<lambda>c. c ! i) (rb_Columns rb), if ops = [] then OpInsert else ops ! i)) [0..<rb_NumRows rb])"

definition batch_ok :: "arrow_schema \<Rightarrow> options \<Rightarrow> record_batch \<times> operation list \<Rightarrow> bool" where
  "batch_ok schema opts x \<longleftrightarrow> (case x of (rb, ops) \<Rightarrow>
     rb_Schema rb = schema \<and> 1 \<le> rb_NumRows rb \<and> int (rb_NumRows rb) \<le> op_MaxRows opts \<and>
     length (rb_Columns rb) = length schema \<and>
     (\<forall>j < length schema. length (rb_Columns rb ! j) = rb_NumRows rb \<and>
        (\<forall>v \<in> set (rb_Columns rb ! j). fits (af_Type (schema ! j)) v)) \<and>
     (ops = [] \<or> length ops = rb_NumRows rb))"

text \<open>The builder's columns, operations and counters as a view of the open chunk and the open row.\<close>

definition holds :: "builder \<Rightarrow> row list \<Rightarrow> cell list \<Rightarrow> bool" where
  "holds b chunk cur \<longleftrightarrow>
     length (bd_cols b) = length (bd_schema b) \<and> bd_cur b = length cur \<and> length cur \<le> length (bd_schema b) \<and>
     bd_rows b = length chunk \<and>
     (\<forall>row \<in> set chunk. length (fst row) = length (bd_schema b)) \<and>
     (\<forall>j < length (bd_schema b). bd_cols b ! j = map (\<lambda>row. fst row ! j) chunk @ (if j < length cur then [cur ! j] else []) \<and>
        (\<forall>v \<in> set (bd_cols b ! j). fits (af_Type (bd_schema b ! j)) v)) \<and>
     (case bd_ops b of None \<Rightarrow> \<forall>row \<in> set chunk. snd row = OpInsert | Some ops \<Rightarrow> ops = map snd chunk)"

lemma holds_flushReq [simp]: "holds (b\<lparr>bd_flushReq := f\<rparr>) chunk cur = holds b chunk cur"
  by (simp add: holds_def)

lemma open_column_ok:
  "bd_err b = None \<Longrightarrow> \<not> bd_closed b \<Longrightarrow> bd_cur b < length (bd_cols b) \<Longrightarrow> open_column b = (b, Some (bd_cur b))"
  by (simp add: open_column_def)

lemma open_column_None:
  assumes "open_column b = (b', None)"
  obtains e where "b' = b\<lparr>bd_err := Some e\<rparr>"
proof (cases "bd_closed b \<or> bd_err b = None")
  case True
  with assms that show thesis by (auto simp: open_column_def split: if_splits)
next
  case False
  then obtain e where e: "bd_err b = Some e" by auto
  then have "b\<lparr>bd_err := Some e\<rparr> = b" by (cases b) simp
  with False assms e that [of e] show thesis by (simp add: open_column_def)
qed

lemma open_column_Some:
  "open_column b = (b', Some i) \<Longrightarrow>
    b' = b \<and> i = bd_cur b \<and> bd_err b = None \<and> \<not> bd_closed b \<and> bd_cur b < length (bd_cols b)"
  by (auto simp: open_column_def split: if_splits)

lemmas append_defs = Null_def typed_def Builder_Bool_def Builder_Int16_def Builder_Int32_def
  Builder_Int64_def Builder_Float32_def Builder_Float64_def Builder_Decimal_def Builder_String_def
  Builder_StringBytes_def Builder_Bytes_def Builder_Date_def Builder_Time_def Builder_Timestamp_def

text \<open>Every append either puts its value into a column it fits or leaves an error.\<close>

lemma do_append_cases:
  obtains (err) e where "do_append a b = b\<lparr>bd_err := Some e\<rparr>"
  | (put) w where "do_append a b = put_cell (call_value a) w b" "bd_err b = None" "\<not> bd_closed b"
      "bd_cur b < length (bd_cols b)" "fits (af_Type (bd_schema b ! bd_cur b)) (call_value a)"
proof -
  obtain b' i where o: "open_column b = (b', i)" by (cases "open_column b")
  show thesis
  proof (cases i)
    case None
    then obtain e where e: "b' = b\<lparr>bd_err := Some e\<rparr>"
      using open_column_None o by metis
    have "do_append a b = b'"
      using None o by (cases a) (simp_all add: append_defs)
    with e err show thesis by simp
  next
    case (Some j)
    have st: "b' = b" "j = bd_cur b" "bd_err b = None" "\<not> bd_closed b" "bd_cur b < length (bd_cols b)"
      using open_column_Some [of b b' j] o Some by auto
    have "(\<exists>w. do_append a b = put_cell (call_value a) w b \<and> fits (af_Type (bd_schema b ! bd_cur b)) (call_value a)) \<or>
      (\<exists>e. do_append a b = b\<lparr>bd_err := Some e\<rparr>)"
      using o Some st by (cases a) (auto simp: mismatch_def append_defs)
    with st err put show thesis by blast
  qed
qed

definition builder_inv ::
  "arrow_schema \<Rightarrow> options \<Rightarrow> (record_batch \<times> operation list) list \<Rightarrow> cell list \<times> row list \<Rightarrow> builder \<Rightarrow> bool" where
  "builder_inv schema opts sent spec b \<longleftrightarrow>
     bd_schema b = schema \<and> bd_opts b = opts \<and> (\<forall>x \<in> set sent. batch_ok schema opts x) \<and>
     prefix (concat (map batch_rows sent)) (snd spec) \<and>
     (bd_err b = None \<and> \<not> bd_closed b \<longrightarrow>
       (\<exists>chunk. holds b chunk (fst spec) \<and> snd spec = concat (map batch_rows sent) @ chunk \<and>
          int (length chunk) < op_MaxRows opts))"

lemma chunk_batch_rows:
  assumes "holds b chunk []" "chunk \<noteq> []" "int (length chunk) \<le> op_MaxRows (bd_opts b)"
  obtains rb where "bt_rows (chunk_batch b) = Some rb" "batch_ok (bd_schema b) (bd_opts b) (rb, bt_ops (chunk_batch b))"
    "batch_rows (rb, bt_ops (chunk_batch b)) = chunk"
proof
  let ?rb = "\<lparr>rb_Schema = bd_schema b, rb_Columns = bd_cols b, rb_NumRows = bd_rows b\<rparr>"
  have ops: "bt_ops (chunk_batch b) = [] \<and> (\<forall>row \<in> set chunk. snd row = OpInsert) \<or> bt_ops (chunk_batch b) = map snd chunk"
    using assms(1) by (auto simp: chunk_batch_def NewBatch_def holds_def split: option.splits)
  show "bt_rows (chunk_batch b) = Some ?rb"
    by (simp add: chunk_batch_def NewBatch_def)
  show "batch_ok (bd_schema b) (bd_opts b) (?rb, bt_ops (chunk_batch b))"
    using assms ops by (auto simp: batch_ok_def holds_def Suc_le_eq)
  have "map (\<lambda>c. c ! i) (bd_cols b) = fst (chunk ! i)" if "i < length chunk" for i
    using that assms(1) by (intro nth_equalityI) (auto simp: holds_def)
  then show "batch_rows (?rb, bt_ops (chunk_batch b)) = chunk"
    using assms(1,2) ops by (intro nth_equalityI) (auto simp: batch_rows_def holds_def prod_eq_iff)
qed

lemma holds_put_cell:
  assumes "holds b chunk cur" "bd_cur b < length (bd_cols b)" "fits (af_Type (bd_schema b ! bd_cur b)) v"
  shows "holds (put_cell v w b) chunk (cur @ [v])"
  using assms by (auto simp: holds_def put_cell_def nth_list_update nth_append less_Suc_eq split: option.splits)

text \<open>The state \<^verbatim>\<open>EndRow\<close> builds before it decides to flush.\<close>

definition end_row :: "meta \<Rightarrow> builder \<Rightarrow> builder" where
  "end_row m b =
     b\<lparr>bd_cur := 0,
       bd_ops := (case bd_ops b of
          None \<Rightarrow> if mt_Op m \<noteq> OpInsert then Some (replicate (bd_rows b) OpInsert @ [mt_Op m]) else None
        | Some ops \<Rightarrow> Some (ops @ [mt_Op m])),
       bd_last := m, bd_rows := bd_rows b + 1, bd_total := bd_total b + 1\<rparr>"

lemma EndRow_cases:
  assumes "bd_err b = None" "\<not> bd_closed b" "bd_cur b = length (bd_cols b)"
  shows "EndRow recv r m b =
    (if int (bd_rows b + 1) \<ge> op_MaxRows (bd_opts b) \<or> (op_MaxBytes (bd_opts b) > 0 \<and> bd_bytes b \<ge> op_MaxBytes (bd_opts b))
     then builder_flush recv r (end_row m b)
     else if bd_flushReq b then builder_flush recv r (end_row m b\<lparr>bd_flushReq := False\<rparr>)
     else (end_row m b, r, None))"
  using assms by (cases b) (auto simp: EndRow_def end_row_def Let_def split: option.splits)

lemma holds_end_row:
  assumes "holds b chunk cur" "bd_cur b = length (bd_cols b)"
  shows "holds (end_row m b) (chunk @ [(cur, mt_Op m)]) []"
proof -
  have "map snd chunk = replicate (length chunk) OpInsert" if "\<forall>row \<in> set chunk. snd row = OpInsert"
    using that by (intro nth_equalityI) auto
  then show ?thesis
    using assms by (auto simp: holds_def end_row_def split: option.splits)
qed

text \<open>What every hand-over of a row batch keeps is kept by the calls that make one.\<close>

lemma builder_flush_keeps:
  assumes "\<And>r b. P r \<Longrightarrow> \<not> bt_Drained b \<Longrightarrow> bt_Control b = None \<Longrightarrow> bt_rows b \<noteq> None \<Longrightarrow> P (fst (rv_Chunk recv r b))" "P r"
    "builder_flush recv r b = (b', r', e)"
  shows "P r'"
proof -
  have "P (fst (rv_Chunk recv r (chunk_batch b)))"
    using assms(1,2) by (simp add: chunk_batch_def NewBatch_def)
  then show ?thesis
    using assms(2,3) by (auto simp: builder_flush_def Let_def split: if_splits prod.splits option.splits)
qed

lemma Builder_Flush_keeps:
  assumes "\<And>r b. P r \<Longrightarrow> \<not> bt_Drained b \<Longrightarrow> bt_Control b = None \<Longrightarrow> bt_rows b \<noteq> None \<Longrightarrow> P (fst (rv_Chunk recv r b))" "P r"
    "Builder_Flush recv r b = (b', r', e)"
  shows "P r'"
proof -
  have "r' = r \<or> (\<exists>b1. builder_flush recv r b1 = (b', r', e))"
    using assms(3) by (auto simp: Builder_Flush_def split: if_splits option.splits)
  then show ?thesis
    using assms(2) builder_flush_keeps [OF assms(1,2)] by blast
qed

lemma EndRow_keeps:
  assumes "\<And>r b. P r \<Longrightarrow> \<not> bt_Drained b \<Longrightarrow> bt_Control b = None \<Longrightarrow> bt_rows b \<noteq> None \<Longrightarrow> P (fst (rv_Chunk recv r b))" "P r"
    "EndRow recv r m b = (b', r', e)"
  shows "P r'"
proof -
  have "r' = r \<or> (\<exists>b1. builder_flush recv r b1 = (b', r', e))"
    using assms(3) by (auto simp: EndRow_def Let_def split: if_splits option.splits)
  then show ?thesis
    using assms(2) builder_flush_keeps [OF assms(1,2)] by blast
qed

text \<open>A flush with nothing to hand over.\<close>

lemma Builder_Flush_idle:
  "holds b [] [] \<Longrightarrow> bd_err b = None \<Longrightarrow> \<not> bd_closed b \<Longrightarrow>
    Builder_Flush recv r b = (b\<lparr>bd_flushReq := False\<rparr>, r, None)"
  by (simp add: Builder_Flush_def builder_flush_def holds_def)

text \<open>
  The contract of a receiver: a successful hand-over adds the batch to what was received, a failed
  one and a completion report add nothing.
\<close>

locale batch_receiver =
  fixes recv :: "'r receiver" and received :: "'r \<Rightarrow> (record_batch \<times> operation list) list"
  assumes chunk_ok: "rv_Chunk recv r b = (r', None) \<Longrightarrow> bt_rows b = Some rb \<Longrightarrow> received r' = received r @ [(rb, bt_ops b)]"
    and chunk_err: "rv_Chunk recv r b = (r', Some e) \<Longrightarrow> received r' = received r"
    and drained: "rv_Drained recv r m n = (r', x) \<Longrightarrow> received r' = received r"
begin

text \<open>A flush of a closed row delivers the open chunk, and nothing when it fails.\<close>

lemma flush_delivers:
  assumes "builder_flush recv r b = (b', r', e)" "holds b chunk []" "int (length chunk) \<le> op_MaxRows (bd_opts b)"
    "bd_err b = None"
  shows "bd_schema b' = bd_schema b \<and> bd_opts b' = bd_opts b \<and> bd_closed b' = bd_closed b \<and> bd_total b' = bd_total b \<and> bd_err b' = e \<and>
    (e = None \<longrightarrow> holds b' [] [] \<and> concat (map batch_rows (received r')) = concat (map batch_rows (received r)) @ chunk) \<and>
    (e \<noteq> None \<longrightarrow> received r' = received r) \<and>
    (\<forall>x \<in> set (received r'). x \<in> set (received r) \<or> batch_ok (bd_schema b) (bd_opts b) x)"
proof (cases "chunk = []")
  case True
  then have "b' = b\<lparr>bd_flushReq := False\<rparr> \<and> r' = r \<and> e = None"
    using assms by (auto simp: builder_flush_def holds_def)
  then show ?thesis
    using assms(2,4) True by (auto simp: holds_def)
next
  case False
  obtain rb where rb: "bt_rows (chunk_batch b) = Some rb" "batch_ok (bd_schema b) (bd_opts b) (rb, bt_ops (chunk_batch b))"
    "batch_rows (rb, bt_ops (chunk_batch b)) = chunk"
    using chunk_batch_rows [OF assms(2) False assms(3)] .
  obtain r2 e2 where c: "rv_Chunk recv r (chunk_batch b) = (r2, e2)"
    by (cases "rv_Chunk recv r (chunk_batch b)")
  have r2: "r' = r2" "e = e2"
    using assms(1,2) False c by (auto simp: builder_flush_def holds_def Let_def split: option.splits)
  have b': "b' = b\<lparr>bd_cols := replicate (length (bd_schema b)) [], bd_ops := None, bd_rows := 0, bd_bytes := 0,
      bd_err := e2, bd_flushReq := (if e2 = None then False else bd_flushReq b)\<rparr>"
    using assms(1,2,4) False c by (cases b) (auto simp: builder_flush_def holds_def Let_def split: option.splits)
  have "received r' = (if e = None then received r @ [(rb, bt_ops (chunk_batch b))] else received r)"
    using c r2 chunk_ok [OF _ rb(1)] chunk_err by (cases e2) auto
  then show ?thesis
    using rb(2,3) r2 assms(2) by (auto simp: b' holds_def)
qed

lemma EndRow_inv:
  assumes "builder_inv schema opts (received r) (cur, rows) b" "EndRow recv r m b = (b', r', e)"
  shows "builder_inv schema opts (received r') ([], rows @ [(cur, mt_Op m)]) b'"
proof (cases "bd_err b = None \<and> \<not> bd_closed b \<and> bd_cur b = length (bd_cols b)")
  case False
  then have "r' = r \<and> (bd_err b' \<noteq> None \<or> bd_closed b') \<and> bd_schema b' = bd_schema b \<and> bd_opts b' = bd_opts b"
    using assms(2) by (cases "bd_err b") (auto simp: EndRow_def Let_def simp del: not_None_eq split: if_splits)
  then show ?thesis
    using assms(1) by (auto simp: builder_inv_def)
next
  case True
  then obtain chunk where chunk: "holds b chunk cur" "rows = concat (map batch_rows (received r)) @ chunk"
    "int (length chunk) < op_MaxRows opts"
    using assms(1) by (auto simp: builder_inv_def)
  have inv: "bd_schema b = schema" "bd_opts b = opts" "\<forall>x \<in> set (received r). batch_ok schema opts x"
    using assms(1) by (auto simp: builder_inv_def)
  let ?chunk = "chunk @ [(cur, mt_Op m)]"
  let ?b = "\<lambda>f. end_row m b\<lparr>bd_flushReq := f\<rparr>"
  have held: "holds (?b f) ?chunk []" for f
    using holds_end_row [OF chunk(1)] True by simp
  have sel: "bd_schema (?b f) = schema" "bd_opts (?b f) = opts" "bd_err (?b f) = None" "\<not> bd_closed (?b f)" for f
    using True inv by (simp_all add: end_row_def)
  have rows: "bd_rows b = length chunk"
    using chunk(1) by (simp add: holds_def)
  have flushed: ?thesis if "builder_flush recv r (?b f) = (b', r', e)" for f
    using flush_delivers [OF that held] sel [of f] chunk(2,3) inv(3)
    by (cases e) (auto simp: builder_inv_def)
  have keep: "end_row m b = ?b (bd_flushReq b)"
    by (cases b) (simp add: end_row_def)
  show ?thesis
  proof (cases "b' = end_row m b \<and> r' = r \<and> int (length ?chunk) < op_MaxRows opts")
    case True
    then show ?thesis
      using held [of "bd_flushReq b"] sel [of "bd_flushReq b"] chunk(2) inv(3) keep by (auto simp: builder_inv_def)
  next
    case False
    then have "builder_flush recv r (end_row m b) = (b', r', e) \<or> builder_flush recv r (?b False) = (b', r', e)"
      using assms(2) EndRow_cases [of b recv r m] True inv(2) rows by (auto split: if_splits)
    then show ?thesis
      using flushed [of "bd_flushReq b"] flushed [of False] unfolding keep [symmetric] by blast
  qed
qed

lemma flush_inv:
  assumes "builder_inv schema opts (received r) spec b" "Builder_Flush recv r b = (b', r', e)"
  shows "builder_inv schema opts (received r') spec b' \<and>
    (e = None \<longrightarrow> fst spec = [] \<and> snd spec = concat (map batch_rows (received r')) \<and> bd_err b' = None \<and> \<not> bd_closed b')"
proof (cases "bd_err b = None \<and> \<not> bd_closed b")
  case False
  then show ?thesis
    using assms by (auto simp: Builder_Flush_def split: option.splits if_splits)
next
  case True
  then obtain chunk where chunk: "holds b chunk (fst spec)" "snd spec = concat (map batch_rows (received r)) @ chunk"
    "int (length chunk) < op_MaxRows opts" "bd_opts b = opts" "bd_schema b = schema"
    using assms(1) by (auto simp: builder_inv_def)
  have f: "builder_flush recv r b = (b', r', e)"
    using True assms(2) by (auto simp: Builder_Flush_def)
  show ?thesis
  proof (cases "fst spec = []")
    case row: True
    show ?thesis
      using flush_delivers [OF f, of chunk] chunk row True assms(1) by (cases e) (auto simp: builder_inv_def)
  next
    case False
    then have "r' = r \<and> e \<noteq> None \<and> bd_err b' \<noteq> None \<and> bd_schema b' = schema \<and> bd_opts b' = opts"
      using f chunk by (auto simp: builder_flush_def holds_def Let_def)
    then show ?thesis
      using assms(1) by (auto simp: builder_inv_def)
  qed
qed

lemma drain_inv:
  assumes "builder_inv schema opts (received r) spec b" "Builder_Drain recv r m b = (b', r', e)"
  shows "builder_inv schema opts (received r') spec b'"
proof -
  obtain b1 r1 e1 where f: "Builder_Flush recv r b = (b1, r1, e1)" by (cases "Builder_Flush recv r b") auto
  then have inv: "builder_inv schema opts (received r1) spec b1"
    using flush_inv [OF assms(1)] by blast
  obtain r2 e2 where d: "rv_Drained recv r1 m (bd_total b1) = (r2, e2)" by (cases "rv_Drained recv r1 m (bd_total b1)")
  have "b' = b1 \<and> r' = r1 \<or> r' = r2 \<and> (b' = b1 \<or> (\<exists>x. b' = b1\<lparr>bd_err := Some x\<rparr>))"
    using assms(2) f d by (auto simp: Builder_Drain_def Builder_Flush_def split: if_splits option.splits prod.splits)
  then show ?thesis
    using inv drained [OF d] by (auto simp: builder_inv_def)
qed

lemma step_inv:
  assumes "builder_inv schema opts (received r) spec b" "builder_step recv op (b, r) = (b', r')"
  shows "builder_inv schema opts (received r') (spec_step op spec) b'"
proof (cases op)
  case (BAppend a)
  obtain cur rows where spec: "spec = (cur, rows)" by (cases spec)
  show ?thesis
  proof (cases a b rule: do_append_cases)
    case (err e)
    have "b' = b\<lparr>bd_err := Some e\<rparr>" "r' = r"
      using assms(2) BAppend err by simp_all
    then show ?thesis using assms(1) BAppend spec by (auto simp: builder_inv_def)
  next
    case (put w)
    have st: "b' = put_cell (call_value a) w b" "r' = r"
      using assms(2) BAppend put by simp_all
    have "bd_schema b' = bd_schema b" "bd_opts b' = bd_opts b" "bd_total b' = bd_total b"
      by (simp_all add: st put_cell_def)
    then show ?thesis
      using assms(1) BAppend spec put holds_put_cell [of b _ cur "call_value a" w] by (auto simp: builder_inv_def st)
  qed
next
  case (BEndRow m)
  then show ?thesis
    using assms EndRow_inv [of schema opts r "fst spec" "snd spec" b m] by (cases spec) (auto split: prod.splits)
next
  case BFlush
  then show ?thesis
    using assms flush_inv [OF assms(1)] by (auto split: prod.splits)
next
  case (BDrain m)
  then show ?thesis
    using assms drain_inv [OF assms(1)] by (auto split: prod.splits)
next
  case BClose
  then show ?thesis
    using assms by (auto simp: builder_inv_def Builder_Close_def)
next
  case BRequestFlush
  then show ?thesis
    using assms by (auto simp: builder_inv_def RequestFlush_def holds_def)
qed

lemma run_inv:
  assumes "builder_inv schema opts (received r) spec b" "builder_run recv ops (b, r) = (b', r')"
  shows "builder_inv schema opts (received r') (spec_run ops spec) b'"
  using assms
proof (induction ops arbitrary: b r spec)
  case (Cons op ops)
  obtain b1 r1 where s: "builder_step recv op (b, r) = (b1, r1)" by (cases "builder_step recv op (b, r)")
  show ?case
    using Cons.IH [OF step_inv [OF Cons.prems(1) s]] Cons.prems(2) s by (simp add: builder_run_def spec_run_def)
qed (simp add: builder_run_def spec_run_def)

lemma new_inv:
  assumes "NewBuilder schema opts = Some b" "received r = []"
  shows "builder_inv schema opts (received r) ([], []) b"
  using assms by (auto simp: NewBuilder_def builder_inv_def holds_def split: if_splits)

text \<open>From a fresh builder, whatever is called on it, and then a flush that succeeds.\<close>

lemma delivers:
  assumes "NewBuilder schema opts = Some b" "received r = []" "builder_run recv ops (b, r) = (b1, r1)"
    "Builder_Flush recv r1 b1 = (b2, r2, e)"
  shows "prefix (concat (map batch_rows (received r2))) (snd (spec_run ops ([], []))) \<and>
    (\<forall>x \<in> set (received r2). batch_ok schema opts x) \<and>
    (e = None \<longrightarrow> concat (map batch_rows (received r2)) = snd (spec_run ops ([], [])))"
  using flush_inv [OF run_inv [OF new_inv [OF assms(1,2)] assms(3)] assms(4)] by (auto simp: builder_inv_def)

end

end
