(* ===== verification/RunModel.thy ===== *)
theory RunModel
  imports Epoch ArrowBatch
begin

text \<open>
  Runs and their policies (\<^verbatim>\<open>run.go\<close>, \<^verbatim>\<open>stream.go\<close>, \<^verbatim>\<open>source.go\<close>, \<^verbatim>\<open>sink.go\<close>): ingestion types, read and
  write policies, write capabilities, the run specification and request, worker shapes and checkpoint
  keys. String enumerations are datatypes with a constructor for the empty string where the code
  gives it a meaning and one for any other text.
\<close>

section \<open>Modes and policies\<close>

datatype ingestion_type =
    IngestionUnset
  | IngestionFullReplace
  | IngestionFullUpsert
  | IngestionFullAppend
  | IngestionIncrementalAppend
  | IngestionIncrementalUpsert
  | IngestionIncrementalDelete
  | IngestionCDCMerge
  | IngestionCDCAppend
  | IngestionOther string

datatype read_mode = ModeFull | ModeIncremental | ModeCDC | ModeOther int

datatype write_mode = WriteUnset | WriteAppend | WriteReplace | WriteUpsert | WriteDelete | WriteMerge | WriteOther string

datatype write_atomicity = AtomicityUnset | AtomicityRecord | AtomicityBatch | AtomicityResource | AtomicityRun | AtomicityOther string

datatype checkpoint_policy = CheckpointUnset | CheckpointNone | CheckpointAfterBatch | CheckpointAfterCommit | CheckpointOther string

datatype write_durability = DurabilityUnset | DurabilityAfterApply | DurabilityAfterCommit | DurabilityOther string

datatype version_strategy = VersionUnset | VersionInsertOrder | VersionCursor | VersionOther string

text \<open>
  The accepted operations are compared with \<^verbatim>\<open>reflect.DeepEqual\<close>, which tells nil from empty: None is
  the nil slice.
\<close>

record write_policy_capability =
  wc_Mode :: write_mode
  wc_RequiresPK :: bool
  wc_RequiresOrder :: bool
  wc_AcceptsOps :: "operation list option"
  wc_Atomicity :: write_atomicity
  wc_Durability :: write_durability

definition slice :: "'a list option \<Rightarrow> 'a list" where
  "slice s = (case s of None \<Rightarrow> [] | Some xs \<Rightarrow> xs)"

lemma slice_simps [simp]: "slice None = []" "slice (Some xs) = xs"
  by (simp_all add: slice_def)

record version_policy =
  vp_Strategy :: version_strategy
  vp_Field :: string
  vp_Logical :: logical_type
  vp_Native :: string

definition no_version :: version_policy where
  "no_version = \<lparr>vp_Strategy = VersionUnset, vp_Field = [], vp_Logical = [], vp_Native = []\<rparr>"

record write_policy =
  wp_DestinationResource :: string
  wp_Capability :: write_policy_capability
  wp_Resource :: string
  wp_Keys :: "string list"
  wp_Version :: version_policy
  wp_Checkpoint :: checkpoint_policy

record source_policy =
  so_Mode :: read_mode
  so_EmitsOps :: "operation list"
  so_Ordered :: bool
  so_Checkpointing :: checkpoint_policy

section \<open>Ingestion types\<close>

definition OrDefault :: "ingestion_type \<Rightarrow> ingestion_type" where
  "OrDefault t = (if t = IngestionUnset then IngestionFullReplace else t)"

definition capability_for :: "ingestion_type \<Rightarrow> write_policy_capability \<times> checkpoint_policy" where
  "capability_for t =
     (let capability = \<lparr>wc_Mode = WriteUnset, wc_RequiresPK = False, wc_RequiresOrder = False,
            wc_AcceptsOps = Some [OpInsert], wc_Atomicity = AtomicityBatch, wc_Durability = DurabilityAfterApply\<rparr>
      in case OrDefault t of
        IngestionFullReplace \<Rightarrow>
          (capability\<lparr>wc_Mode := WriteReplace, wc_Atomicity := AtomicityResource\<rparr>, CheckpointNone)
      | IngestionFullUpsert \<Rightarrow>
          (capability\<lparr>wc_Mode := WriteUpsert, wc_RequiresPK := True\<rparr>, CheckpointAfterBatch)
      | IngestionIncrementalUpsert \<Rightarrow>
          (capability\<lparr>wc_Mode := WriteUpsert, wc_RequiresPK := True, wc_AcceptsOps := Some [OpInsert, OpUpdate]\<rparr>,
           CheckpointAfterBatch)
      | IngestionFullAppend \<Rightarrow> (capability\<lparr>wc_Mode := WriteAppend\<rparr>, CheckpointNone)
      | IngestionIncrementalAppend \<Rightarrow>
          (capability\<lparr>wc_Mode := WriteAppend, wc_AcceptsOps := Some [OpInsert, OpUpdate]\<rparr>, CheckpointAfterBatch)
      | IngestionIncrementalDelete \<Rightarrow>
          (capability\<lparr>wc_Mode := WriteDelete, wc_RequiresPK := True, wc_AcceptsOps := Some [OpDelete]\<rparr>,
           CheckpointAfterBatch)
      | IngestionCDCMerge \<Rightarrow>
          (capability\<lparr>wc_Mode := WriteMerge, wc_RequiresPK := True, wc_RequiresOrder := True,
             wc_AcceptsOps := Some [OpInsert, OpUpdate, OpDelete]\<rparr>, CheckpointAfterCommit)
      | IngestionCDCAppend \<Rightarrow>
          (capability\<lparr>wc_Mode := WriteAppend, wc_RequiresPK := True, wc_RequiresOrder := True,
             wc_AcceptsOps := Some [OpInsert, OpUpdate, OpDelete]\<rparr>, CheckpointAfterCommit)
      | _ \<Rightarrow> (capability, CheckpointNone))"

definition WritePolicyForIngestion :: "ingestion_type \<Rightarrow> write_policy" where
  "WritePolicyForIngestion t =
     (let (capability, checkpoint) = capability_for t in
      \<lparr>wp_DestinationResource = [], wp_Capability = capability, wp_Resource = [], wp_Keys = [],
       wp_Version = (if wc_Mode capability = WriteUpsert then no_version\<lparr>vp_Strategy := VersionInsertOrder\<rparr> else no_version),
       wp_Checkpoint = checkpoint\<rparr>)"

definition WriteCapability :: "ingestion_type \<Rightarrow> write_policy_capability" where
  "WriteCapability t = wp_Capability (WritePolicyForIngestion t)"

definition SourcePolicyForIngestion :: "ingestion_type \<Rightarrow> source_policy" where
  "SourcePolicyForIngestion t =
     (case OrDefault t of
        IngestionCDCMerge \<Rightarrow>
          \<lparr>so_Mode = ModeCDC, so_EmitsOps = [OpInsert, OpUpdate, OpDelete], so_Ordered = True, so_Checkpointing = CheckpointAfterCommit\<rparr>
      | IngestionCDCAppend \<Rightarrow>
          \<lparr>so_Mode = ModeCDC, so_EmitsOps = [OpInsert, OpUpdate, OpDelete], so_Ordered = True, so_Checkpointing = CheckpointAfterCommit\<rparr>
      | IngestionFullUpsert \<Rightarrow>
          \<lparr>so_Mode = ModeFull, so_EmitsOps = [OpInsert], so_Ordered = False, so_Checkpointing = CheckpointAfterBatch\<rparr>
      | IngestionIncrementalAppend \<Rightarrow>
          \<lparr>so_Mode = ModeIncremental, so_EmitsOps = [OpInsert, OpUpdate], so_Ordered = True, so_Checkpointing = CheckpointAfterBatch\<rparr>
      | IngestionIncrementalUpsert \<Rightarrow>
          \<lparr>so_Mode = ModeIncremental, so_EmitsOps = [OpInsert, OpUpdate], so_Ordered = True, so_Checkpointing = CheckpointAfterBatch\<rparr>
      | IngestionIncrementalDelete \<Rightarrow>
          \<lparr>so_Mode = ModeIncremental, so_EmitsOps = [OpInsert, OpUpdate], so_Ordered = True, so_Checkpointing = CheckpointAfterBatch\<rparr>
      | _ \<Rightarrow> \<lparr>so_Mode = ModeFull, so_EmitsOps = [OpInsert], so_Ordered = False, so_Checkpointing = CheckpointNone\<rparr>)"

definition IsCDCIngestion :: "ingestion_type \<Rightarrow> bool" where
  "IsCDCIngestion t = (case OrDefault t of IngestionCDCMerge \<Rightarrow> True | IngestionCDCAppend \<Rightarrow> True | _ \<Rightarrow> False)"

definition IsCDC :: "(string \<times> ingestion_type) list \<Rightarrow> bool" where
  "IsCDC types = (\<exists>e \<in> set types. IsCDCIngestion (snd e))"

definition IsCDCAppend :: "(string \<times> ingestion_type) list \<Rightarrow> bool" where
  "IsCDCAppend types = (\<exists>e \<in> set types. snd e = IngestionCDCAppend)"

text \<open>Reading an absent key of a Go map gives the zero value.\<close>

definition type_at :: "(string \<times> ingestion_type) list \<Rightarrow> string \<Rightarrow> ingestion_type" where
  "type_at types k = (case map_of types k of Some t \<Rightarrow> t | None \<Rightarrow> IngestionUnset)"

definition TypeFor :: "(string \<times> ingestion_type) list \<Rightarrow> string \<Rightarrow> ingestion_type" where
  "TypeFor types resource =
     (case map_of types resource of Some t \<Rightarrow> OrDefault t | None \<Rightarrow> OrDefault (type_at types []))"

definition WriteCapabilities :: "ingestion_type list \<Rightarrow> write_policy_capability list" where
  "WriteCapabilities types = map WriteCapability types"

definition SourcePolicies :: "ingestion_type list \<Rightarrow> source_policy list" where
  "SourcePolicies types = map SourcePolicyForIngestion types"

definition IngestionFor :: "read_mode \<Rightarrow> write_mode \<Rightarrow> ingestion_type res" where
  "IngestionFor rd wr =
     (let wr = (if wr = WriteUnset then WriteUpsert else wr) in
      case (rd, wr) of
        (ModeFull, WriteReplace) \<Rightarrow> Inr IngestionFullReplace
      | (ModeFull, WriteUpsert) \<Rightarrow> Inr IngestionFullUpsert
      | (ModeFull, WriteAppend) \<Rightarrow> Inr IngestionFullAppend
      | (ModeIncremental, WriteAppend) \<Rightarrow> Inr IngestionIncrementalAppend
      | (ModeIncremental, WriteUpsert) \<Rightarrow> Inr IngestionIncrementalUpsert
      | (ModeIncremental, WriteDelete) \<Rightarrow> Inr IngestionIncrementalDelete
      | _ \<Rightarrow> Inl (ErrMsg ''read mode cannot combine with write mode''))"

fun WriteModesFor :: "read_mode \<Rightarrow> write_mode list" where
  "WriteModesFor ModeFull = [WriteAppend, WriteReplace, WriteUpsert]"
| "WriteModesFor ModeIncremental = [WriteAppend, WriteUpsert]"
| "WriteModesFor ModeCDC = [WriteAppend, WriteMerge]"
| "WriteModesFor (ModeOther _) = []"

section \<open>Operations admitted by a policy\<close>

definition Accepts :: "write_policy_capability \<Rightarrow> operation \<Rightarrow> bool" where
  "Accepts c op = (if slice (wc_AcceptsOps c) = [] then True else op \<in> set (slice (wc_AcceptsOps c)))"

definition ValidateOps :: "write_policy \<Rightarrow> operation list \<Rightarrow> goerr option" where
  "ValidateOps p ops =
     (if slice (wc_AcceptsOps (wp_Capability p)) = [] then None
      else first_err (\<lambda>op. if \<not> Accepts (wp_Capability p) op
             then Some (ErrMsg ''write policy does not accept row'') else None) ops)"

text \<open>
  \<^verbatim>\<open>arrow.Array.ValueStr\<close>, the text of a value, is the parameter \<open>value_str\<close>. A text is blank when trimming
  white space leaves nothing of it.
\<close>

definition blank :: "string \<Rightarrow> bool" where
  "blank s = (string_fields s = [])"

definition FieldIndices :: "arrow_schema \<Rightarrow> string \<Rightarrow> nat list" where
  "FieldIndices schema name = filter (\<lambda>i. af_Name (schema ! i) = name) [0..<length schema]"

definition key_err :: "(cell \<Rightarrow> string) \<Rightarrow> record_batch \<Rightarrow> string \<Rightarrow> goerr option" where
  "key_err value_str rb key =
     (case FieldIndices (rb_Schema rb) key of
        [i] \<Rightarrow>
          (let col = rb_Columns rb ! i in
           if CNull \<in> set col then Some (ErrMsg ''write policy: resource contains null primary key'')
           else first_err (\<lambda>v. if blank (value_str v) then Some (ErrMsg ''write policy: resource contains empty primary key'')
                  else None) col)
      | _ \<Rightarrow> Some (ErrMsg ''write policy requires key in resource''))"

definition ValidateBatch :: "(cell \<Rightarrow> string) \<Rightarrow> write_policy \<Rightarrow> batch \<Rightarrow> goerr option" where
  "ValidateBatch value_str p b =
     orelse_err
       (case bt_rows b of
          None \<Rightarrow> None
        | Some rb \<Rightarrow>
            if wc_RequiresPK (wp_Capability p) \<and> NumRows b > 0 then first_err (key_err value_str rb) (wp_Keys p) else None)
       (if slice (wc_AcceptsOps (wp_Capability p)) = [] then None
        else first_err (\<lambda>i. if \<not> Accepts (wp_Capability p) (Op b i)
               then Some (ErrMsg ''write policy does not accept row'') else None) [0..<NumRows b])"

fun OperationName :: "operation \<Rightarrow> string" where
  "OperationName OpInsert = ''insert''"
| "OperationName OpUpdate = ''update''"
| "OperationName OpDelete = ''delete''"
| "OperationName (OpOther n) = ''operation('' @ format_uint n @ '')''"

datatype checkpoint_coverage = CheckpointCoverageNone | CheckpointCoverageSome | CheckpointCoverageAll

definition checkpointed :: "ingestion_type \<Rightarrow> bool" where
  "checkpointed t = (so_Checkpointing (SourcePolicyForIngestion t) \<noteq> CheckpointNone)"

definition CheckpointCoverageFor :: "string list \<Rightarrow> (string \<times> ingestion_type) list \<Rightarrow> checkpoint_coverage" where
  "CheckpointCoverageFor resources types =
     (let (total, done) =
        (if resources \<noteq> []
         then (length resources, length (filter (\<lambda>r. checkpointed (TypeFor types r)) resources))
         else (length types, length (filter (\<lambda>e. checkpointed (snd e)) types)))
      in if done = 0 then CheckpointCoverageNone
         else if done = total then CheckpointCoverageAll else CheckpointCoverageSome)"

section \<open>Execution modes and stream capabilities\<close>

datatype execution_mode = ExecutionUnset | ExecutionBounded | ExecutionContinuous | ExecutionOther string

definition ExecutionMode_Normalize :: "execution_mode \<Rightarrow> execution_mode" where
  "ExecutionMode_Normalize e = (if e = ExecutionUnset then ExecutionBounded else e)"

definition ExecutionMode_Validate :: "execution_mode \<Rightarrow> goerr option" where
  "ExecutionMode_Validate e =
     (case ExecutionMode_Normalize e of
        ExecutionBounded \<Rightarrow> None | ExecutionContinuous \<Rightarrow> None | _ \<Rightarrow> Some (ErrMsg ''unknown execution mode''))"

datatype input_semantics = InputRows | InputChanges | InputMessages | InputOther string

datatype ordering = OrderingUnset | OrderingNone | OrderingPartition | OrderingTransaction | OrderingGlobalStrict | OrderingOther string

datatype delivery_guarantee = DeliveryReplayableAtLeastOnce | DeliveryBestEffort | DeliveryOther string

record stream_capabilities =
  st_EmitsOps :: "operation list"
  st_Input :: input_semantics
  st_Ordering :: "ordering list"
  st_Delivery :: delivery_guarantee

record connector_spec =
  cs_Name :: string
  cs_Stream :: "stream_capabilities option"
  cs_Modes :: "read_mode list"
  cs_SourcePolicies :: "source_policy list"

record sink_capabilities =
  sk_ReusableSession :: bool
  sk_Schematized :: bool
  sk_EncodedIntegrity :: bool
  sk_WritePolicies :: "write_policy_capability list"
  sk_PreferredBatchRows :: int
  sk_PreferredBatchBytes :: int
  sk_PreferredFlushInterval :: int

record sink_spec =
  ss_Name :: string
  ss_Capabilities :: sink_capabilities

section \<open>Worker shapes\<close>

type_synonym string_map = "(string \<times> string) list"

record worker_resources =
  wr_Requests :: string_map
  wr_Limits :: string_map

definition WorkerResources_IsZero :: "worker_resources \<Rightarrow> bool" where
  "WorkerResources_IsZero w = (length (wr_Requests w) = 0 \<and> length (wr_Limits w) = 0)"

text \<open>\<^verbatim>\<open>maps.Copy(out, base); maps.Copy(out, over)\<close>: the entries of \<open>over\<close> win.\<close>

definition mergeStringMaps :: "string_map \<Rightarrow> string_map \<Rightarrow> string_map" where
  "mergeStringMaps over base = fold (\<lambda>(k, v). AList.update k v) over (fold (\<lambda>(k, v). AList.update k v) base [])"

definition WorkerResources_Merge :: "worker_resources \<Rightarrow> worker_resources \<Rightarrow> worker_resources" where
  "WorkerResources_Merge w base =
     \<lparr>wr_Requests = mergeStringMaps (wr_Requests w) (wr_Requests base),
      wr_Limits = mergeStringMaps (wr_Limits w) (wr_Limits base)\<rparr>"

record worker_toleration =
  wt_Key :: string
  wt_Operator :: string
  wt_Value :: string
  wt_Effect :: string

record worker_configuration =
  wk_Resources :: worker_resources
  wk_NodeSelector :: string_map
  wk_Tolerations :: "worker_toleration list"

definition WorkerConfiguration_IsZero :: "worker_configuration \<Rightarrow> bool" where
  "WorkerConfiguration_IsZero w =
     (WorkerResources_IsZero (wk_Resources w) \<and> length (wk_NodeSelector w) = 0 \<and> length (wk_Tolerations w) = 0)"

definition WorkerConfiguration_Merge :: "worker_configuration \<Rightarrow> worker_configuration \<Rightarrow> worker_configuration" where
  "WorkerConfiguration_Merge w base =
     (let out = \<lparr>wk_Resources = WorkerResources_Merge (wk_Resources w) (wk_Resources base),
            wk_NodeSelector = wk_NodeSelector base, wk_Tolerations = wk_Tolerations base\<rparr>
      in if length (wk_NodeSelector w) > 0 \<or> length (wk_Tolerations w) > 0
         then out\<lparr>wk_NodeSelector := wk_NodeSelector w, wk_Tolerations := wk_Tolerations w\<rparr> else out)"

section \<open>Run specifications\<close>

record boundary =
  by_MaxRecords :: int
  by_MaxBytes :: int
  by_MaxWait :: int
  by_MaxAge :: int

record rate_policy =
  ra_RequestsPerSecond :: rat
  ra_Burst :: int

record run_options =
  ro_Execution :: execution_mode
  ro_EpochBoundary :: "boundary option"
  ro_FetchSize :: int
  ro_BatchMaxRows :: int
  ro_BatchMaxBytes :: int
  ro_RateLimit :: "rate_policy option"
  ro_SnapshotParallelism :: int
  ro_CheckpointEvery :: int

record stream_ref =
  sr_ID :: string
  sr_Generation :: int

record resource_cursor_config =
  rcc_Field :: string
  rcc_LookbackSeconds :: int

record connector_ref =
  rf_Connector :: string
  rf_ConfigRef :: string
  rf_Config :: cursor
  rf_SecretRefs :: string_map

text \<open>
  A column selection that is absent or nil reads every column, an empty one none: the selections are
  kept as optional lists. Times are seconds; 0 is the zero time.
\<close>

record run_request =
  rq_WritePolicies :: "(string \<times> write_policy) list"
  rq_Tenant :: string
  rq_PipelineID :: string
  rq_PipelineVersionID :: string
  rq_IdempotencyKey :: string
  rq_Source :: connector_ref
  rq_Sink :: connector_ref
  rq_SourceConnectionID :: string
  rq_SinkConnectionID :: string
  rq_Resources :: "string list"
  rq_Selectors :: "string list"
  rq_IngestionTypes :: "(string \<times> ingestion_type) list"
  rq_CheckpointRoute :: string
  rq_ReplicationStream :: "stream_ref option"
  rq_CursorConfigs :: "(string \<times> resource_cursor_config) list"
  rq_Columns :: "(string \<times> string list option) list"
  rq_Partitions :: "(string \<times> string list option) list"
  rq_Resync :: "string list"
  rq_Options :: run_options
  rq_ScheduleID :: string
  rq_ScheduledFor :: int
  rq_WorkerConfiguration :: worker_configuration
  rq_Transform :: string

record run_spec =
  sp_StreamAttempt :: "attempt_ref option"
  sp_Tenant :: string
  sp_Run :: string
  sp_StartedAt :: int
  sp_SinkWriteID :: string
  sp_SinkWriteStartedAt :: int
  sp_ExecutionID :: string
  sp_PipelineID :: string
  sp_PipelineVersionID :: string
  sp_SourceConnectionID :: string
  sp_SinkConnectionID :: string
  sp_CheckpointRoute :: string
  sp_ReplicationStream :: "stream_ref option"
  sp_CursorConfigs :: "(string \<times> resource_cursor_config) list"
  sp_Columns :: "(string \<times> string list option) list"
  sp_Partitions :: "(string \<times> string list option) list"
  sp_Resync :: "string list"
  sp_Source :: connector_ref
  sp_Sink :: connector_ref
  sp_Resources :: "string list"
  sp_Selectors :: "string list"
  sp_IngestionTypes :: "(string \<times> ingestion_type) list"
  sp_Options :: run_options
  sp_WritePolicies :: "(string \<times> write_policy) list"
  sp_WorkerConfiguration :: worker_configuration
  sp_Transform :: string

text \<open>Reading an absent key gives the nil selection, or the zero policy.\<close>

definition selection_at :: "(string \<times> string list option) list \<Rightarrow> string \<Rightarrow> string list option" where
  "selection_at m k = (case map_of m k of Some v \<Rightarrow> v | None \<Rightarrow> None)"

definition destination_at :: "(string \<times> write_policy) list \<Rightarrow> string \<Rightarrow> string" where
  "destination_at m k = (case map_of m k of Some p \<Rightarrow> wp_DestinationResource p | None \<Rightarrow> [])"

definition sameColumnSelection :: "string list option \<Rightarrow> string list option \<Rightarrow> bool" where
  "sameColumnSelection a b =
     (if (a = None) \<noteq> (b = None) then False else sort (slice a) = sort (slice b))"

definition ChangedResources :: "run_spec \<Rightarrow> run_spec \<Rightarrow> string list" where
  "ChangedResources s previous =
     filter (\<lambda>resource. resource \<in> set (sp_Resources previous) \<and>
       (\<not> sameColumnSelection (selection_at (sp_Columns s) resource) (selection_at (sp_Columns previous) resource)
        \<or> \<not> sameColumnSelection (selection_at (sp_Partitions s) resource) (selection_at (sp_Partitions previous) resource)
        \<or> destination_at (sp_WritePolicies s) resource \<noteq> destination_at (sp_WritePolicies previous) resource))
       (sp_Resources s)"

definition SinkWriteIdentity :: "run_spec \<Rightarrow> string" where
  "SinkWriteIdentity s = (if sp_SinkWriteID s \<noteq> [] then sp_SinkWriteID s else sp_Run s)"

record resource_checkpoint_key =
  ky_PipelineID :: string
  ky_PipelineVersionID :: string
  ky_Route :: string
  ky_Resource :: string
  ky_ReplicationStreamID :: string

text \<open>The key and the flag of the Go method: None is the false flag.\<close>

definition checkpoint_key ::
  "string \<Rightarrow> string \<Rightarrow> string \<Rightarrow> stream_ref option \<Rightarrow> string \<Rightarrow> resource_checkpoint_key option" where
  "checkpoint_key pipelineID versionID route stream resource =
     (if pipelineID = [] \<or> route = [] \<or> resource = [] then None
      else case stream of
        Some ref \<Rightarrow>
          if sr_ID ref \<noteq> []
          then Some \<lparr>ky_PipelineID = pipelineID, ky_PipelineVersionID = versionID, ky_Route = route, ky_Resource = resource,
                     ky_ReplicationStreamID = sr_ID ref\<rparr>
          else if versionID = [] then None
          else Some \<lparr>ky_PipelineID = pipelineID, ky_PipelineVersionID = versionID, ky_Route = route, ky_Resource = resource,
                     ky_ReplicationStreamID = []\<rparr>
      | None \<Rightarrow>
          if versionID = [] then None
          else Some \<lparr>ky_PipelineID = pipelineID, ky_PipelineVersionID = versionID, ky_Route = route, ky_Resource = resource,
                     ky_ReplicationStreamID = []\<rparr>)"

definition RunRequest_ResourceCheckpointKey :: "run_request \<Rightarrow> string \<Rightarrow> resource_checkpoint_key option" where
  "RunRequest_ResourceCheckpointKey r resource =
     checkpoint_key (rq_PipelineID r) (rq_PipelineVersionID r) (rq_CheckpointRoute r) (rq_ReplicationStream r) resource"

definition RunSpec_ResourceCheckpointKey :: "run_spec \<Rightarrow> string \<Rightarrow> resource_checkpoint_key option" where
  "RunSpec_ResourceCheckpointKey s resource =
     checkpoint_key (sp_PipelineID s) (sp_PipelineVersionID s) (sp_CheckpointRoute s) (sp_ReplicationStream s) resource"

definition ValidateStreamAttempt :: "run_spec \<Rightarrow> goerr option" where
  "ValidateStreamAttempt s =
     orelse_err (ExecutionMode_Validate (ro_Execution (sp_Options s)))
       (if ExecutionMode_Normalize (ro_Execution (sp_Options s)) \<noteq> ExecutionContinuous then None
        else case sp_StreamAttempt s of
          None \<Rightarrow> Some (ErrMsg ''stream: admitted attempt required'')
        | Some a \<Rightarrow>
            orelse_err (AttemptRef_Validate a)
              (if (sp_Run s \<noteq> [] \<and> sp_Run s \<noteq> at_RunID a) \<or> (sp_ExecutionID s \<noteq> [] \<and> sp_ExecutionID s \<noteq> at_ExecutionID a)
                  \<or> (case sp_ReplicationStream s of
                        None \<Rightarrow> False
                      | Some r \<Rightarrow> sr_ID r \<noteq> at_StreamID a \<or> sr_Generation r \<noteq> at_Generation a)
               then Some (ErrMsg ''stream: run identity conflicts with admitted attempt'') else None))"

datatype run_status =
  RunRequested | RunRunning | RunCompleted | RunFailed | RunCanceled | RunPaused | RunPartial | RunScheduled

record resource_state =
  rs_Run :: string
  rs_Tenant :: string
  rs_Resource :: string
  rs_Enabled :: bool
  rs_Status :: run_status
  rs_Records :: int
  rs_Bytes :: int
  rs_Error :: string

record run_state =
  rn_Run :: string
  rn_Tenant :: string
  rn_Status :: run_status
  rn_Request :: run_request
  rn_Resources :: "resource_state list"
  rn_Records :: int
  rn_Bytes :: int
  rn_CreatedAt :: int
  rn_ScheduledAt :: int
  rn_RequestedAt :: int
  rn_StartedAt :: int
  rn_EndedAt :: "int option"
  rn_UpdatedAt :: int
  rn_Error :: string
  rn_ScheduleID :: string
  rn_CPUSeconds :: rat
  rn_MemoryPeakBytes :: int

definition ExecutionSpec :: "run_state \<Rightarrow> run_spec" where
  "ExecutionSpec s =
     (let r = rn_Request s in
      \<lparr>sp_StreamAttempt = None, sp_Tenant = rq_Tenant r, sp_Run = rn_Run s, sp_StartedAt = rn_StartedAt s,
       sp_SinkWriteID = [], sp_SinkWriteStartedAt = 0, sp_ExecutionID = [],
       sp_PipelineID = rq_PipelineID r, sp_PipelineVersionID = rq_PipelineVersionID r,
       sp_SourceConnectionID = rq_SourceConnectionID r, sp_SinkConnectionID = rq_SinkConnectionID r,
       sp_CheckpointRoute = rq_CheckpointRoute r, sp_ReplicationStream = rq_ReplicationStream r,
       sp_CursorConfigs = rq_CursorConfigs r, sp_Columns = rq_Columns r, sp_Partitions = rq_Partitions r,
       sp_Resync = rq_Resync r, sp_Source = rq_Source r, sp_Sink = rq_Sink r, sp_Resources = rq_Resources r,
       sp_Selectors = rq_Selectors r, sp_IngestionTypes = rq_IngestionTypes r, sp_Options = rq_Options r,
       sp_WritePolicies = rq_WritePolicies r, sp_WorkerConfiguration = rq_WorkerConfiguration r,
       sp_Transform = rq_Transform r\<rparr>)"

section \<open>Policies agree with each other\<close>

lemmas policy_defs = WritePolicyForIngestion_def capability_for_def SourcePolicyForIngestion_def OrDefault_def Let_def

lemma OrDefault_cases: "OrDefault t \<noteq> IngestionUnset" "OrDefault (OrDefault t) = OrDefault t"
  by (simp_all add: OrDefault_def)

text \<open>
  C37: the two sides of an ingestion type fit together, for every type, the default of an unset one and
  unknown ones included. Source and sink keep checkpoints at the same point; a sink that needs order is
  fed by an ordered source, and it needs order exactly for change capture, where it also needs a key
  and keeps checkpoints back until it has committed; and the sink accepts every operation the source
  emits, except for incremental delete, where it accepts none of them.
\<close>

theorem policies_agree:
  "so_Checkpointing (SourcePolicyForIngestion t) = wp_Checkpoint (WritePolicyForIngestion t) \<and>
   (wc_RequiresOrder (wp_Capability (WritePolicyForIngestion t)) \<longrightarrow> so_Ordered (SourcePolicyForIngestion t)) \<and>
   (wc_RequiresOrder (wp_Capability (WritePolicyForIngestion t)) \<longleftrightarrow> IsCDCIngestion t) \<and>
   (IsCDCIngestion t \<longrightarrow> wc_RequiresPK (wp_Capability (WritePolicyForIngestion t)) \<and>
      wp_Checkpoint (WritePolicyForIngestion t) = CheckpointAfterCommit) \<and>
   (\<forall>op \<in> set (so_EmitsOps (SourcePolicyForIngestion t)).
      Accepts (wp_Capability (WritePolicyForIngestion t)) op \<longleftrightarrow> OrDefault t \<noteq> IngestionIncrementalDelete)"
  by (cases t) (simp_all add: policy_defs IsCDCIngestion_def Accepts_def)

theorem policies_agree_witness:
  "list_all (Accepts (wp_Capability (WritePolicyForIngestion IngestionCDCMerge)))
    (so_EmitsOps (SourcePolicyForIngestion IngestionCDCMerge)) \<and>
   so_Ordered (SourcePolicyForIngestion IngestionCDCMerge) \<and>
   wp_Checkpoint (WritePolicyForIngestion IngestionCDCMerge) = CheckpointAfterCommit"
  using policies_agree [of IngestionCDCMerge] by (simp add: list_all_iff OrDefault_def IsCDCIngestion_def)



section \<open>Layering of worker shapes\<close>

lemma map_of_fold_update:
  "map_of (fold (\<lambda>(k, v). AList.update k v) over m) k = (case map_of (rev over) k of Some v \<Rightarrow> Some v | None \<Rightarrow> map_of m k)"
  by (induction over arbitrary: m) (auto simp: update_conv' map_of_append split: option.splits)

lemma merge_lookup:
  assumes "distinct (map fst over)" "distinct (map fst base)"
  shows "map_of (mergeStringMaps over base) k = (case map_of over k of Some v \<Rightarrow> Some v | None \<Rightarrow> map_of base k)"
proof -
  have rev: "map_of (rev m) k = map_of m k" if "distinct (map fst m)" for m :: string_map
    using that by (intro fun_cong [of "map_of (rev m)"] map_of_inject_set [THEN iffD2]) (simp_all add: rev_map [symmetric])
  show ?thesis
    using rev [OF assms(1)] rev [OF assms(2)]
    by (simp add: mergeStringMaps_def map_of_fold_update split: option.split)
qed

lemma merge_distinct: "distinct (map fst (mergeStringMaps over base))"
proof -
  have "distinct (map fst m) \<Longrightarrow> distinct (map fst (fold (\<lambda>(k, v). AList.update k v) over m))" for over m :: string_map
    by (induction over arbitrary: m) (auto simp: distinct_update)
  then show ?thesis by (simp add: mergeStringMaps_def)
qed

definition worker_wf :: "worker_configuration \<Rightarrow> bool" where
  "worker_wf w \<longleftrightarrow> distinct (map fst (wr_Requests (wk_Resources w))) \<and> distinct (map fst (wr_Limits (wk_Resources w)))"

definition worker_same :: "worker_configuration \<Rightarrow> worker_configuration \<Rightarrow> bool" where
  "worker_same a b \<longleftrightarrow>
     map_of (wr_Requests (wk_Resources a)) = map_of (wr_Requests (wk_Resources b)) \<and>
     map_of (wr_Limits (wk_Resources a)) = map_of (wr_Limits (wk_Resources b)) \<and>
     wk_NodeSelector a = wk_NodeSelector b \<and> wk_Tolerations a = wk_Tolerations b"

text \<open>
  worker shapes layer. Overriding a pipeline's shape by a run's takes each resource quantity from
  the run when it names it and from the pipeline otherwise, takes placement wholesale from the run
  when it sets any of it, changes nothing when the run sets nothing, and is associative, so folding
  several layers in any grouping gives the same shape.
\<close>

theorem worker_layers:
  assumes "worker_wf u" "worker_wf v" "worker_wf w"
  shows "worker_same (WorkerConfiguration_Merge u (WorkerConfiguration_Merge v w))
      (WorkerConfiguration_Merge (WorkerConfiguration_Merge u v) w) \<and>
    (WorkerConfiguration_IsZero u \<longrightarrow> worker_same (WorkerConfiguration_Merge u v) v) \<and>
    map_of (wr_Requests (wk_Resources (WorkerConfiguration_Merge u v))) k =
      (case map_of (wr_Requests (wk_Resources u)) k of Some q \<Rightarrow> Some q | None \<Rightarrow> map_of (wr_Requests (wk_Resources v)) k) \<and>
    wk_NodeSelector (WorkerConfiguration_Merge u v) =
      (if wk_NodeSelector u = [] \<and> wk_Tolerations u = [] then wk_NodeSelector v else wk_NodeSelector u)"
proof -
  note lookup = merge_lookup merge_distinct
  show ?thesis
    using assms
    by (auto simp: worker_same_def worker_wf_def WorkerConfiguration_Merge_def WorkerResources_Merge_def lookup fun_eq_iff
      WorkerConfiguration_IsZero_def WorkerResources_IsZero_def Let_def split: option.split)
qed

definition demo_worker :: "string_map \<Rightarrow> string_map \<Rightarrow> worker_configuration" where
  "demo_worker requests selector =
     \<lparr>wk_Resources = \<lparr>wr_Requests = requests, wr_Limits = []\<rparr>, wk_NodeSelector = selector, wk_Tolerations = []\<rparr>"

theorem worker_layers_witness:
  "map_of (wr_Requests (wk_Resources (WorkerConfiguration_Merge (demo_worker [(''memory'', ''2Gi'')] [])
      (demo_worker [(''cpu'', ''1''), (''memory'', ''1Gi'')] [(''pool'', ''a'')])))) ''cpu'' = Some ''1'' \<and>
   wk_NodeSelector (WorkerConfiguration_Merge (demo_worker [(''memory'', ''2Gi'')] [])
      (demo_worker [(''cpu'', ''1''), (''memory'', ''1Gi'')] [(''pool'', ''a'')])) = [(''pool'', ''a'')]"
  using worker_layers [of "demo_worker [(''memory'', ''2Gi'')] []" "demo_worker [(''cpu'', ''1''), (''memory'', ''1Gi'')] [(''pool'', ''a'')]"
      "demo_worker [] []" "''cpu''"]
  by (simp add: worker_wf_def demo_worker_def)

section \<open>Changed resources\<close>

lemma sort_eq_mset: "sort a = sort b \<longleftrightarrow> mset a = mset b" for a b :: "'a::linorder list"
  by (metis mset_sort properties_for_sort sorted_sort)

lemma sameColumnSelection_iff:
  "sameColumnSelection a b \<longleftrightarrow> (a = None \<longleftrightarrow> b = None) \<and> mset (slice a) = mset (slice b)"
  by (auto simp: sameColumnSelection_def sort_eq_mset)

text \<open>
  a resource is read again exactly when its shape changed. \<^verbatim>\<open>ChangedResources\<close> lists a resource if and
  only if both specifications select it and they differ in its column or partition selection, as
  multisets with ``everything'' apart from an empty choice, or in its destination; the relation is
  symmetric, and a specification never differs from itself.
\<close>

theorem changed_resources_exact:
  "(r \<in> set (ChangedResources s p) \<longleftrightarrow>
     r \<in> set (sp_Resources s) \<inter> set (sp_Resources p) \<and>
     \<not> ((selection_at (sp_Columns s) r = None \<longleftrightarrow> selection_at (sp_Columns p) r = None) \<and>
        mset (slice (selection_at (sp_Columns s) r)) = mset (slice (selection_at (sp_Columns p) r)) \<and>
        (selection_at (sp_Partitions s) r = None \<longleftrightarrow> selection_at (sp_Partitions p) r = None) \<and>
        mset (slice (selection_at (sp_Partitions s) r)) = mset (slice (selection_at (sp_Partitions p) r)) \<and>
        destination_at (sp_WritePolicies s) r = destination_at (sp_WritePolicies p) r)) \<and>
   set (ChangedResources s p) = set (ChangedResources p s) \<and> ChangedResources s s = []"
  by (auto simp: ChangedResources_def sameColumnSelection_iff)

end
