(* ===== verification/Planning.thy ===== *)
theory Planning
  imports RunModel
begin

text \<open>
  Planning of a run (\<^verbatim>\<open>plan.go\<close>, \<^verbatim>\<open>stream_plan.go\<close>, the version policies of \<^verbatim>\<open>source.go\<close>, the checks of
  \<^verbatim>\<open>stream.go\<close>): the source and the sink are negotiated into one write policy per resource. A source is
  the parameter of these functions: its specification and, for each optional interface it implements,
  the answers it gives during planning.
\<close>

section \<open>Sources\<close>

record resource =
  rsc_Name :: string
  rsc_PrimaryKey :: "string list"

record cursor_column =
  cc_Field :: field
  cc_Eligible :: bool
  cc_Recommended :: bool

record source =
  src_Spec :: connector_spec
  src_Schema :: "(string \<Rightarrow> schema res) option"
  src_Discover :: "resource list res option"
  src_ManagedIncremental :: "(string \<Rightarrow> bool) option"
  src_CursorColumns :: "(string \<Rightarrow> cursor_column list res) option"

datatype replication_mode = ReplicationStandard | ReplicationCDC

definition Config_String :: "cursor \<Rightarrow> string \<Rightarrow> string" where
  "Config_String c k = str_or_empty (raw c k)"

definition ReplicationFor :: "connector_spec \<Rightarrow> cursor \<Rightarrow> replication_mode" where
  "ReplicationFor spec cfg =
     (if Config_String cfg ''replication'' \<noteq> ''cdc'' then ReplicationStandard
      else if \<exists>p \<in> set (cs_SourcePolicies spec). so_Mode p = ModeCDC then ReplicationCDC else ReplicationStandard)"

text \<open>
  \<^verbatim>\<open>strings.EqualFold\<close> compares ASCII text by folding letters; other text goes through the Unicode
  tables, the parameter \<open>uni\<close>.
\<close>

definition equal_fold :: "(string \<Rightarrow> string \<Rightarrow> bool) \<Rightarrow> string \<Rightarrow> string \<Rightarrow> bool" where
  "equal_fold uni a b =
     (if \<forall>c \<in> set (a @ b). byte c < 128 then map ascii_lower a = map ascii_lower b else uni a b)"

text \<open>The loop over the cursor columns: the first name match, or else the first recommended column.\<close>

definition select_cursor :: "(string \<Rightarrow> string \<Rightarrow> bool) \<Rightarrow> string \<Rightarrow> cursor_column list \<Rightarrow> cursor_column option" where
  "select_cursor uni field columns =
     (if field \<noteq> [] then List.find (\<lambda>c. equal_fold uni (fd_Name (cc_Field c)) field) columns
      else List.find cc_Recommended columns)"

definition ResolveCursorVersionPolicy ::
  "(string \<Rightarrow> string \<Rightarrow> bool) \<Rightarrow> source \<Rightarrow> string \<Rightarrow> resource_cursor_config \<Rightarrow> version_policy res" where
  "ResolveCursorVersionPolicy uni src resource config =
     (if (case src_ManagedIncremental src of Some managed \<Rightarrow> managed resource | None \<Rightarrow> False) then
        (if rcc_Field config \<noteq> [] \<or> rcc_LookbackSeconds config \<noteq> 0
         then Inl (ErrMsg ''incremental uses source-managed state'') else Inr no_version)
      else case src_CursorColumns src of
        None \<Rightarrow> Inr no_version
      | Some provider \<Rightarrow>
          (case provider resource of
             Inl e \<Rightarrow> Inl (ErrWrap ''cursor columns'' e)
           | Inr columns \<Rightarrow>
               (case select_cursor uni (rcc_Field config) columns of
                  None \<Rightarrow>
                    if rcc_Field config \<noteq> [] then Inl (ErrMsg ''incremental cursor column does not exist'')
                    else Inl (ErrMsg ''incremental has no recommended cursor column'')
                | Some selected \<Rightarrow>
                    if \<not> cc_Eligible selected
                    then Inl (ErrMsg ''incremental cursor column is not eligible for durable versioning'')
                    else Inr \<lparr>vp_Strategy = VersionCursor, vp_Field = fd_Name (cc_Field selected),
                              vp_Logical = fd_Logical (cc_Field selected), vp_Native = fd_Native (cc_Field selected)\<rparr>)))"

definition ResolveWriteVersionPolicy ::
  "(string \<Rightarrow> string \<Rightarrow> bool) \<Rightarrow> source \<Rightarrow> string \<Rightarrow> resource_cursor_config \<Rightarrow> read_mode \<Rightarrow> write_mode \<Rightarrow> version_policy res" where
  "ResolveWriteVersionPolicy uni src resource config sourceMode writeMode =
     (if writeMode \<noteq> WriteUpsert then Inr no_version
      else
        let fallback = no_version\<lparr>vp_Strategy := VersionInsertOrder\<rparr> in
        if sourceMode \<noteq> ModeIncremental then Inr fallback
        else bind_res (ResolveCursorVersionPolicy uni src resource config) (\<lambda>version.
          if vp_Strategy version = VersionUnset then Inr fallback else Inr version))"

definition PrimaryKeyForResource :: "source \<Rightarrow> string \<Rightarrow> string list res" where
  "PrimaryKeyForResource src resource =
     (case src_Schema src of
        Some schemas \<Rightarrow>
          (case schemas resource of Inl e \<Rightarrow> Inl (ErrWrap ''schema'' e) | Inr schema \<Rightarrow> Inr (sc_PrimaryKey schema))
      | None \<Rightarrow>
          (case src_Discover src of
             Some (Inl e) \<Rightarrow> Inl (ErrWrap ''discover resources'' e)
           | Some (Inr result) \<Rightarrow>
               (case List.find (\<lambda>c. rsc_Name c = resource) result of
                  Some c \<Rightarrow> Inr (rsc_PrimaryKey c) | None \<Rightarrow> Inr [])
           | None \<Rightarrow> Inr []))"

section \<open>Checks\<close>

definition acceptsOperations :: "operation list \<Rightarrow> operation list \<Rightarrow> bool" where
  "acceptsOperations have want =
     (if want = [] then True else if have = [] then False else \<forall>op \<in> set want. op \<in> set have)"

definition ValidateSourceIngestion :: "connector_spec \<Rightarrow> ingestion_type \<Rightarrow> goerr option" where
  "ValidateSourceIngestion spec t =
     (let policy = SourcePolicyForIngestion (OrDefault t) in
      if \<exists>c \<in> set (cs_SourcePolicies spec). so_Mode c = so_Mode policy \<and>
           acceptsOperations (so_EmitsOps c) (so_EmitsOps policy) \<and> (\<not> so_Ordered policy \<or> so_Ordered c)
      then None else Some (ErrMsg ''source does not support ingestion type''))"

definition ValidateReplication :: "replication_mode \<Rightarrow> ingestion_type \<Rightarrow> goerr option" where
  "ValidateReplication replication t =
     (if IsCDCIngestion t \<and> replication \<noteq> ReplicationCDC
      then Some (ErrMsg ''CDC requires a connection created with CDC replication'')
      else if \<not> IsCDCIngestion t \<and> replication = ReplicationCDC
      then Some (ErrMsg ''a CDC connection replicates from the change stream and requires append or merge write mode'')
      else None)"

text \<open>The first candidate that serves the policy decides, also when its durability is not declared.\<close>

definition serves :: "write_policy_capability \<Rightarrow> write_policy_capability \<Rightarrow> bool" where
  "serves candidate want =
     (wc_Mode candidate = wc_Mode want \<and> (\<not> wc_RequiresPK want \<or> wc_RequiresPK candidate) \<and>
      (\<not> wc_RequiresOrder want \<or> wc_RequiresOrder candidate) \<and>
      acceptsOperations (slice (wc_AcceptsOps candidate)) (slice (wc_AcceptsOps want)))"

definition sinkCapabilityForIngestion :: "sink_spec \<Rightarrow> ingestion_type \<Rightarrow> write_policy_capability res" where
  "sinkCapabilityForIngestion spec t =
     (case List.find (\<lambda>c. serves c (wp_Capability (WritePolicyForIngestion t))) (sk_WritePolicies (ss_Capabilities spec)) of
        None \<Rightarrow> Inl (ErrMsg ''sink does not support write policy'')
      | Some c \<Rightarrow>
          if wc_Durability c \<noteq> DurabilityAfterApply \<and> wc_Durability c \<noteq> DurabilityAfterCommit
          then Inl (ErrMsg ''sink write policy must declare durability'') else Inr c)"

definition ValidateSinkIngestion :: "sink_spec \<Rightarrow> ingestion_type \<Rightarrow> goerr option" where
  "ValidateSinkIngestion spec t = (case sinkCapabilityForIngestion spec t of Inl e \<Rightarrow> Some e | Inr _ \<Rightarrow> None)"

definition DefaultWriteMode :: "read_mode \<Rightarrow> sink_spec \<Rightarrow> write_mode" where
  "DefaultWriteMode rd sink =
     (case List.find (\<lambda>wr. case IngestionFor rd wr of Inr t \<Rightarrow> ValidateSinkIngestion sink t = None | Inl _ \<Rightarrow> False)
        [WriteUpsert, WriteAppend] of
        Some wr \<Rightarrow> wr | None \<Rightarrow> WriteUpsert)"

definition IngestionForKeys :: "ingestion_type \<Rightarrow> string list \<Rightarrow> ingestion_type" where
  "IngestionForKeys t keys =
     (if keys = [] then
        (case OrDefault t of
           IngestionFullUpsert \<Rightarrow> IngestionFullAppend
         | IngestionIncrementalUpsert \<Rightarrow> IngestionIncrementalAppend
         | _ \<Rightarrow> OrDefault t)
      else OrDefault t)"

definition bindSinkDurability :: "write_policy \<Rightarrow> write_policy_capability \<Rightarrow> write_policy" where
  "bindSinkDurability policy capability =
     (let policy = policy\<lparr>wp_Capability := (wp_Capability policy)\<lparr>wc_Atomicity := wc_Atomicity capability,
            wc_Durability := wc_Durability capability\<rparr>\<rparr>
      in if wp_Checkpoint policy \<noteq> CheckpointNone \<and> wc_Durability capability = DurabilityAfterCommit
         then policy\<lparr>wp_Checkpoint := CheckpointAfterCommit\<rparr> else policy)"

section \<open>Bounded runs\<close>

record ingestion_plan =
  pl_IngestionTypes :: "(string \<times> ingestion_type) list"
  pl_Ordering :: ordering
  pl_WritePolicies :: "(string \<times> write_policy) list"
  pl_RequiresCDC :: bool

text \<open>The local function \<^verbatim>\<open>validate\<close> with its memory of the types checked so far.\<close>

definition validate_type ::
  "source \<Rightarrow> sink_spec \<Rightarrow> replication_mode \<Rightarrow> ingestion_type list \<Rightarrow> ingestion_type \<Rightarrow> ingestion_type list \<times> goerr option" where
  "validate_type src snk replication validated t =
     (if t \<in> set validated then (validated, None)
      else (t # validated,
        orelse_err (ValidateReplication replication t)
          (orelse_err (ValidateSourceIngestion (src_Spec src) t) (ValidateSinkIngestion snk t))))"

definition cursor_config_at :: "(string \<times> resource_cursor_config) list \<Rightarrow> string \<Rightarrow> resource_cursor_config" where
  "cursor_config_at m k = (case map_of m k of Some c \<Rightarrow> c | None \<Rightarrow> \<lparr>rcc_Field = [], rcc_LookbackSeconds = 0\<rparr>)"

text \<open>The key lookup at the head of the loop: the effective type and the keys.\<close>

definition effective_type :: "source \<Rightarrow> string \<Rightarrow> ingestion_type \<Rightarrow> (ingestion_type \<times> string list) res" where
  "effective_type src resource t =
     (if \<not> wc_RequiresPK (WriteCapability t) then Inr (t, [])
      else bind_res (PrimaryKeyForResource src resource) (\<lambda>keys.
        let t = IngestionForKeys t keys in
        if wc_RequiresPK (WriteCapability t) \<and> keys = []
        then Inl (ErrMsg ''requested for resource but no primary key was discovered'') else Inr (t, keys)))"

definition plan_resource ::
  "(string \<Rightarrow> string \<Rightarrow> bool) \<Rightarrow> source \<Rightarrow> sink_spec \<Rightarrow> run_spec \<Rightarrow> replication_mode \<Rightarrow> ingestion_type list \<Rightarrow> string \<Rightarrow>
   (ingestion_type list \<times> ingestion_type \<times> write_policy) res" where
  "plan_resource uni src snk spec replication validated resource =
     bind_res (effective_type src resource (TypeFor (sp_IngestionTypes spec) resource)) (\<lambda>(t, keys).
       case validate_type src snk replication validated t of
         (_, Some e) \<Rightarrow> Inl e
       | (validated, None) \<Rightarrow>
           bind_res (sinkCapabilityForIngestion snk t) (\<lambda>capability.
             let policy = bindSinkDurability (WritePolicyForIngestion t) capability;
                 policy = policy\<lparr>wp_Resource := resource,
                   wp_DestinationResource := destination_at (sp_WritePolicies spec) resource, wp_Keys := keys\<rparr>
             in bind_res (ResolveWriteVersionPolicy uni src resource (cursor_config_at (sp_CursorConfigs spec) resource)
                   (so_Mode (SourcePolicyForIngestion t)) (wc_Mode (wp_Capability policy))) (\<lambda>version.
               Inr (validated, t, policy\<lparr>wp_Version := version\<rparr>))))"

fun plan_resources ::
  "(string \<Rightarrow> string \<Rightarrow> bool) \<Rightarrow> source \<Rightarrow> sink_spec \<Rightarrow> run_spec \<Rightarrow> replication_mode \<Rightarrow> ingestion_type list \<Rightarrow>
   (string \<times> ingestion_type) list \<Rightarrow> (string \<times> write_policy) list \<Rightarrow> string list \<Rightarrow>
   ((string \<times> ingestion_type) list \<times> (string \<times> write_policy) list) res" where
  "plan_resources uni src snk spec replication validated types policies [] = Inr (types, policies)"
| "plan_resources uni src snk spec replication validated types policies (resource # rs) =
     bind_res (plan_resource uni src snk spec replication validated resource) (\<lambda>(validated, t, policy).
       plan_resources uni src snk spec replication validated (AList.update resource t types)
         (AList.update resource policy policies) rs)"

text \<open>The default entry for a run that lists no resources.\<close>

definition plan_default ::
  "source \<Rightarrow> sink_spec \<Rightarrow> run_spec \<Rightarrow> replication_mode \<Rightarrow> (ingestion_type list \<times> (string \<times> write_policy) list) res" where
  "plan_default src snk spec replication =
     (if sp_Resources spec \<noteq> [] then Inr ([], [])
      else
        let t = TypeFor (sp_IngestionTypes spec) [] in
        case validate_type src snk replication [] t of
          (_, Some e) \<Rightarrow> Inl e
        | (validated, None) \<Rightarrow>
            bind_res (sinkCapabilityForIngestion snk t) (\<lambda>capability.
              Inr (validated, [([], bindSinkDurability (WritePolicyForIngestion t) capability)])))"

definition resolveBoundedIngestionPlan :: "(string \<Rightarrow> string \<Rightarrow> bool) \<Rightarrow> source \<Rightarrow> sink_spec \<Rightarrow> run_spec \<Rightarrow> ingestion_plan res" where
  "resolveBoundedIngestionPlan uni src snk spec =
     (let replication = ReplicationFor (src_Spec src) (rf_Config (sp_Source spec)) in
      bind_res (plan_default src snk spec replication) (\<lambda>(validated, policies).
        bind_res (plan_resources uni src snk spec replication validated (sp_IngestionTypes spec) policies (sp_Resources spec))
          (\<lambda>(types, policies).
            Inr \<lparr>pl_IngestionTypes = types, pl_Ordering = OrderingUnset, pl_WritePolicies = policies,
                 pl_RequiresCDC = IsCDC (sp_IngestionTypes spec)\<rparr>)))"

section \<open>Continuous runs\<close>

record continuous_write_plan =
  cw_Policy :: write_policy
  cw_Ordering :: ordering

definition known_op :: "operation \<Rightarrow> bool" where
  "known_op op = (op = OpInsert \<or> op = OpUpdate \<or> op = OpDelete)"

definition continuousWriteCapability :: "write_policy_capability \<Rightarrow> bool" where
  "continuousWriteCapability p =
     ((case wc_Mode p of WriteAppend \<Rightarrow> True | WriteMerge \<Rightarrow> True | WriteUpsert \<Rightarrow> True | WriteDelete \<Rightarrow> True | _ \<Rightarrow> False) \<and>
      (wc_Durability p = DurabilityAfterApply \<or> wc_Durability p = DurabilityAfterCommit) \<and>
      (\<forall>op \<in> set (slice (wc_AcceptsOps p)). known_op op))"

text \<open>
  Operations sort by their ordinal. Comparing sorted, compacted copies with \<^verbatim>\<open>reflect.DeepEqual\<close> keeps
  nil apart from empty.
\<close>

fun op_ord :: "operation \<Rightarrow> nat" where
  "op_ord OpInsert = 0" | "op_ord OpUpdate = 1" | "op_ord OpDelete = 2" | "op_ord (OpOther n) = n"

definition compact_ops :: "operation list option \<Rightarrow> operation list option" where
  "compact_ops ops = map_option (\<lambda>l. remdups_adj (sort_key op_ord l)) ops"

definition sameStreamCapability :: "write_policy_capability \<Rightarrow> write_policy_capability \<Rightarrow> bool" where
  "sameStreamCapability a b =
     (a\<lparr>wc_AcceptsOps := compact_ops (wc_AcceptsOps a)\<rparr> = b\<lparr>wc_AcceptsOps := compact_ops (wc_AcceptsOps b)\<rparr>)"

definition stream_ops :: "connector_spec \<Rightarrow> operation list res" where
  "stream_ops source =
     (case cs_Stream source of
        None \<Rightarrow> Inl (ErrMsg ''continuous planning: source must provide replayable input'')
      | Some input \<Rightarrow>
          if st_Delivery input \<noteq> DeliveryReplayableAtLeastOnce
          then Inl (ErrMsg ''continuous planning: source must provide replayable input'')
          else bind_res
            (case st_Input input of
               InputRows \<Rightarrow> Inr (if st_EmitsOps input = [] then [OpInsert] else st_EmitsOps input)
             | InputMessages \<Rightarrow> Inr (if st_EmitsOps input = [] then [OpInsert] else st_EmitsOps input)
             | InputChanges \<Rightarrow>
                 if st_EmitsOps input = [] then Inl (ErrMsg ''continuous planning: change sources must declare emitted operations'')
                 else Inr (st_EmitsOps input)
             | _ \<Rightarrow> Inl (ErrMsg ''continuous planning: unsupported input semantics''))
            (\<lambda>ops. if \<exists>op \<in> set ops. \<not> known_op op then Inl (ErrMsg ''continuous planning: unknown source operation'') else Inr ops))"

text \<open>What the loop asks of a candidate before it builds a plan.\<close>

definition candidate_ok ::
  "connector_spec \<Rightarrow> operation list \<Rightarrow> write_mode \<Rightarrow> write_policy_capability option \<Rightarrow> write_policy_capability \<Rightarrow> bool" where
  "candidate_ok source ops mode submitted c =
     (wc_Mode c = mode \<and> continuousWriteCapability c \<and>
      (case submitted of None \<Rightarrow> True | Some s \<Rightarrow> sameStreamCapability s c) \<and>
      (\<forall>op \<in> set ops. Accepts c op) \<and>
      (wc_RequiresOrder c \<longrightarrow> (case cs_Stream source of None \<Rightarrow> False | Some input \<Rightarrow> OrderingGlobalStrict \<in> set (st_Ordering input))))"

definition candidate_plan :: "write_mode \<Rightarrow> write_policy_capability \<Rightarrow> continuous_write_plan" where
  "candidate_plan mode c =
     \<lparr>cw_Policy = \<lparr>wp_DestinationResource = [], wp_Capability = c, wp_Resource = [], wp_Keys = [],
        wp_Version = (if mode = WriteUpsert then no_version\<lparr>vp_Strategy := VersionInsertOrder\<rparr> else no_version),
        wp_Checkpoint = CheckpointAfterCommit\<rparr>,
      cw_Ordering = (if wc_RequiresOrder c then OrderingGlobalStrict else OrderingNone)\<rparr>"

fun select_candidate ::
  "connector_spec \<Rightarrow> operation list \<Rightarrow> write_mode \<Rightarrow> write_policy_capability option \<Rightarrow> continuous_write_plan option \<Rightarrow>
   write_policy_capability list \<Rightarrow> continuous_write_plan option" where
  "select_candidate source ops mode submitted selected [] = selected"
| "select_candidate source ops mode submitted selected (c # cs) =
     (if \<not> candidate_ok source ops mode submitted c then select_candidate source ops mode submitted selected cs
      else if submitted \<noteq> None \<or> wc_Durability c = DurabilityAfterCommit then Some (candidate_plan mode c)
      else select_candidate source ops mode submitted
        (case selected of None \<Rightarrow> Some (candidate_plan mode c) | Some p \<Rightarrow> Some p) cs)"

definition planContinuousWrite ::
  "connector_spec \<Rightarrow> sink_spec \<Rightarrow> write_mode \<Rightarrow> write_policy_capability option \<Rightarrow> continuous_write_plan res" where
  "planContinuousWrite source sink mode submitted =
     bind_res (stream_ops source) (\<lambda>ops.
       if mode = WriteReplace then Inl (ErrMsg ''continuous planning: replacement requires bounded snapshot completion'')
       else if mode \<notin> {WriteAppend, WriteUpsert, WriteMerge, WriteDelete}
       then Inl (ErrMsg ''continuous planning: unknown streaming write mode'')
       else case select_candidate source ops mode submitted None (sk_WritePolicies (ss_Capabilities sink)) of
         Some plan \<Rightarrow> Inr plan
       | None \<Rightarrow> Inl (ErrMsg ''continuous planning: sink has no compatible write policy''))"

definition PlanContinuousWrite :: "connector_spec \<Rightarrow> sink_spec \<Rightarrow> write_mode \<Rightarrow> continuous_write_plan res" where
  "PlanContinuousWrite source sink mode = planContinuousWrite source sink mode None"

definition ValidateContinuous :: "connector_spec \<Rightarrow> sink_spec \<Rightarrow> goerr option" where
  "ValidateContinuous source sink =
     (if cs_Stream source = None then Some (ErrMsg ''source does not advertise streaming support'')
      else if \<exists>policy \<in> set (sk_WritePolicies (ss_Capabilities sink)).
          (case PlanContinuousWrite source sink (wc_Mode policy) of Inr _ \<Rightarrow> True | Inl _ \<Rightarrow> False)
      then None else Some (ErrMsg ''source and sink have no compatible streaming write policy''))"

definition SupportsContinuousWrites :: "sink_spec \<Rightarrow> bool" where
  "SupportsContinuousWrites sink = (\<exists>p \<in> set (sk_WritePolicies (ss_Capabilities sink)). continuousWriteCapability p)"

text \<open>The policy submitted for a resource, or else the default one.\<close>

definition submitted_policy :: "run_spec \<Rightarrow> string \<Rightarrow> write_policy option" where
  "submitted_policy spec resource =
     (case map_of (sp_WritePolicies spec) resource of Some p \<Rightarrow> Some p | None \<Rightarrow> map_of (sp_WritePolicies spec) [])"

fun plan_continuous_resources ::
  "connector_spec \<Rightarrow> sink_spec \<Rightarrow> run_spec \<Rightarrow> (string \<times> write_policy) list \<Rightarrow> ordering \<Rightarrow> string list \<Rightarrow>
   ((string \<times> write_policy) list \<times> ordering) res" where
  "plan_continuous_resources source sink spec policies glob [] = Inr (policies, glob)"
| "plan_continuous_resources source sink spec policies glob (resource # rs) =
     (if resource = [] then Inl (ErrMsg ''continuous planning: empty resource'')
      else if map_of policies resource \<noteq> None then Inl (ErrMsg ''continuous planning: duplicate resource'')
      else case submitted_policy spec resource of
        None \<Rightarrow> Inl (ErrMsg ''continuous planning: explicit write policy required'')
      | Some submitted \<Rightarrow>
          (case planContinuousWrite source sink (wc_Mode (wp_Capability submitted)) (Some (wp_Capability submitted)) of
             Inl e \<Rightarrow> Inl (ErrWrap ''resource'' e)
           | Inr plan \<Rightarrow>
               if wp_Version submitted \<noteq> no_version \<and> wp_Version submitted \<noteq> wp_Version (cw_Policy plan)
               then Inl (ErrMsg ''continuous planning: unsupported version policy'')
               else plan_continuous_resources source sink spec
                 (policies @ [(resource, (cw_Policy plan)\<lparr>wp_Resource := resource,
                     wp_DestinationResource := wp_DestinationResource submitted\<rparr>)])
                 (if cw_Ordering plan = OrderingGlobalStrict then cw_Ordering plan else glob) rs))"

definition PlanContinuousRun ::
  "connector_spec \<Rightarrow> sink_spec \<Rightarrow> run_spec \<Rightarrow> ((string \<times> write_policy) list \<times> ordering) res" where
  "PlanContinuousRun source sink spec =
     check_err (ValidateContinuous source sink)
       (plan_continuous_resources source sink spec [] OrderingNone (sp_Resources spec))"

text \<open>The second pass binds the keys; its iteration order decides only which error is reported.\<close>

fun bind_keys :: "source \<Rightarrow> run_spec \<Rightarrow> (string \<times> write_policy) list \<Rightarrow> (string \<times> write_policy) list res" where
  "bind_keys src spec [] = Inr []"
| "bind_keys src spec ((resource, policy) # ps) =
     bind_res
       (if \<not> wc_RequiresPK (wp_Capability policy) then Inr policy
        else bind_res (PrimaryKeyForResource src resource) (\<lambda>keys.
          if keys = [] then Inl (ErrMsg ''continuous planning: resource requires a primary key'')
          else
            let submitted = (case submitted_policy spec resource of Some s \<Rightarrow> wp_Keys s | None \<Rightarrow> []) in
            if submitted \<noteq> [] \<and> submitted \<noteq> keys then Inl (ErrMsg ''continuous planning: primary key changed'')
            else Inr (policy\<lparr>wp_Keys := keys\<rparr>)))
       (\<lambda>policy. bind_res (bind_keys src spec ps) (\<lambda>rest. Inr ((resource, policy) # rest)))"

definition resolveContinuousIngestionPlan :: "source \<Rightarrow> sink_spec \<Rightarrow> run_spec \<Rightarrow> ingestion_plan res" where
  "resolveContinuousIngestionPlan src snk spec =
     bind_res (PlanContinuousRun (src_Spec src) snk spec) (\<lambda>(policies, glob).
       bind_res (bind_keys src spec policies) (\<lambda>policies.
         Inr \<lparr>pl_IngestionTypes = [], pl_Ordering = glob, pl_WritePolicies = policies, pl_RequiresCDC = False\<rparr>))"

definition ResolveIngestionPlan :: "(string \<Rightarrow> string \<Rightarrow> bool) \<Rightarrow> source \<Rightarrow> sink_spec \<Rightarrow> run_spec \<Rightarrow> ingestion_plan res" where
  "ResolveIngestionPlan uni src snk spec =
     (if ExecutionMode_Normalize (ro_Execution (sp_Options spec)) = ExecutionContinuous
      then resolveContinuousIngestionPlan src snk spec
      else resolveBoundedIngestionPlan uni src snk spec)"

section \<open>A bounded plan is sound\<close>

definition type_checked :: "source \<Rightarrow> sink_spec \<Rightarrow> replication_mode \<Rightarrow> ingestion_type \<Rightarrow> bool" where
  "type_checked src snk replication t \<longleftrightarrow>
     ValidateReplication replication t = None \<and> ValidateSourceIngestion (src_Spec src) t = None \<and> ValidateSinkIngestion snk t = None"

text \<open>
  What a planned policy guarantees for a resource of effective type \<open>t\<close>: it carries a mode the sink
  declares, with the sink's durability; a keyed write has keys the source reported; no cursor is
  persisted before the data it covers is durable; and change streams are read from CDC connections only.
\<close>

definition policy_sound :: "source \<Rightarrow> sink_spec \<Rightarrow> run_spec \<Rightarrow> string \<Rightarrow> ingestion_type \<Rightarrow> write_policy \<Rightarrow> bool" where
  "policy_sound src snk spec r t p \<longleftrightarrow>
     wp_Resource p = r \<and> wp_DestinationResource p = destination_at (sp_WritePolicies spec) r \<and>
     (\<exists>c \<in> set (sk_WritePolicies (ss_Capabilities snk)). serves c (WriteCapability t) \<and>
        wc_Mode (wp_Capability p) = wc_Mode c \<and> wc_Durability (wp_Capability p) = wc_Durability c \<and>
        wc_Atomicity (wp_Capability p) = wc_Atomicity c \<and> wc_Durability c \<in> {DurabilityAfterApply, DurabilityAfterCommit}) \<and>
     wc_AcceptsOps (wp_Capability p) = wc_AcceptsOps (WriteCapability t) \<and>
     (wc_RequiresPK (wp_Capability p) \<longrightarrow> wp_Keys p \<noteq> [] \<and> PrimaryKeyForResource src r = Inr (wp_Keys p)) \<and>
     (wp_Checkpoint p = CheckpointNone \<longleftrightarrow> wp_Checkpoint (WritePolicyForIngestion t) = CheckpointNone) \<and>
     (wc_Durability (wp_Capability p) = DurabilityAfterCommit \<longrightarrow> wp_Checkpoint p \<in> {CheckpointNone, CheckpointAfterCommit}) \<and>
     (IsCDCIngestion t \<longleftrightarrow> ReplicationFor (src_Spec src) (rf_Config (sp_Source spec)) = ReplicationCDC) \<and>
     (t = TypeFor (sp_IngestionTypes spec) r \<or>
      PrimaryKeyForResource src r = Inr [] \<and> t = IngestionForKeys (TypeFor (sp_IngestionTypes spec) r) [])"

lemma TypeFor_default: "OrDefault (TypeFor types r) = TypeFor types r"
  by (simp add: TypeFor_def OrDefault_cases split: option.split)

lemma effective_type_Inr:
  assumes "effective_type src r t = Inr (t', keys)" "OrDefault t = t"
  shows "(t' = t \<or> PrimaryKeyForResource src r = Inr [] \<and> t' = IngestionForKeys t []) \<and>
    (wc_RequiresPK (WriteCapability t') \<longrightarrow> keys \<noteq> [] \<and> PrimaryKeyForResource src r = Inr keys)"
  using assms by (auto simp: effective_type_def bind_res_Inr Let_def IngestionForKeys_def split: if_splits)

lemma validate_type_None:
  assumes "validate_type src snk replication validated t = (v, None)" "\<forall>u \<in> set validated. type_checked src snk replication u"
  shows "type_checked src snk replication t \<and> (\<forall>u \<in> set v. type_checked src snk replication u)"
  using assms by (auto simp: validate_type_def type_checked_def err_simps split: if_splits)

lemma ValidateReplication_None: "ValidateReplication m t = None \<longleftrightarrow> (IsCDCIngestion t \<longleftrightarrow> m = ReplicationCDC)"
  by (auto simp: ValidateReplication_def)

lemma sinkCapability_Inr:
  assumes "sinkCapabilityForIngestion snk t = Inr c"
  shows "c \<in> set (sk_WritePolicies (ss_Capabilities snk)) \<and> serves c (WriteCapability t) \<and>
    wc_Durability c \<in> {DurabilityAfterApply, DurabilityAfterCommit}"
  using assms by (auto simp: sinkCapabilityForIngestion_def WriteCapability_def find_Some_iff split: option.splits if_splits)

lemma bindSinkDurability_sel:
  "wc_Mode (wp_Capability (bindSinkDurability p c)) = wc_Mode (wp_Capability p)"
  "wc_AcceptsOps (wp_Capability (bindSinkDurability p c)) = wc_AcceptsOps (wp_Capability p)"
  "wc_RequiresPK (wp_Capability (bindSinkDurability p c)) = wc_RequiresPK (wp_Capability p)"
  "wc_Durability (wp_Capability (bindSinkDurability p c)) = wc_Durability c"
  "wc_Atomicity (wp_Capability (bindSinkDurability p c)) = wc_Atomicity c"
  "wp_Checkpoint (bindSinkDurability p c) = CheckpointNone \<longleftrightarrow> wp_Checkpoint p = CheckpointNone"
  "wc_Durability c = DurabilityAfterCommit \<Longrightarrow> wp_Checkpoint (bindSinkDurability p c) \<in> {CheckpointNone, CheckpointAfterCommit}"
  by (simp_all add: bindSinkDurability_def Let_def)

lemma plan_resource_sound:
  assumes "plan_resource uni src snk spec replication validated r = Inr (v, t, p)"
    "\<forall>u \<in> set validated. type_checked src snk replication u"
    "replication = ReplicationFor (src_Spec src) (rf_Config (sp_Source spec))"
  shows "policy_sound src snk spec r t p \<and> (\<forall>u \<in> set v. type_checked src snk replication u)"
proof -
  obtain t0 keys where e: "effective_type src r (TypeFor (sp_IngestionTypes spec) r) = Inr (t0, keys)"
    using assms(1) by (auto simp: plan_resource_def bind_res_Inr)
  obtain v0 e0 where vt: "validate_type src snk replication validated t0 = (v0, e0)"
    by (cases "validate_type src snk replication validated t0")
  have "e0 = None"
    using assms(1) e vt by (cases e0) (auto simp: plan_resource_def)
  with e vt obtain c ver where s: "effective_type src r (TypeFor (sp_IngestionTypes spec) r) = Inr (t, keys)"
    "validate_type src snk replication validated t = (v, None)" "sinkCapabilityForIngestion snk t = Inr c"
    "p = (bindSinkDurability (WritePolicyForIngestion t) c)\<lparr>wp_Resource := r,
        wp_DestinationResource := destination_at (sp_WritePolicies spec) r, wp_Keys := keys, wp_Version := ver\<rparr>"
    using assms(1) by (auto simp: plan_resource_def bind_res_Inr Let_def)
  note v = validate_type_None [OF s(2) assms(2)]
  have "IsCDCIngestion t \<longleftrightarrow> replication = ReplicationCDC"
    using v by (simp add: type_checked_def ValidateReplication_None)
  then show ?thesis
    using v effective_type_Inr [OF s(1) TypeFor_default] sinkCapability_Inr [OF s(3)] assms(3)
      bindSinkDurability_sel(7) [of c "WritePolicyForIngestion t"]
    by (auto simp: policy_sound_def s(4) WriteCapability_def serves_def bindSinkDurability_sel(1-6) intro!: bexI [of _ c])
qed

lemma plan_resources_sound:
  assumes "plan_resources uni src snk spec replication validated types policies rs = Inr (types', policies')"
    "\<forall>u \<in> set validated. type_checked src snk replication u"
    "replication = ReplicationFor (src_Spec src) (rf_Config (sp_Source spec))"
    "\<forall>r \<in> D. \<exists>t p. map_of types r = Some t \<and> map_of policies r = Some p \<and> policy_sound src snk spec r t p"
  shows "\<forall>r \<in> D \<union> set rs. \<exists>t p. map_of types' r = Some t \<and> map_of policies' r = Some p \<and> policy_sound src snk spec r t p"
  using assms
proof (induction rs arbitrary: validated types policies D)
  case (Cons r rs)
  obtain v t p where s: "plan_resource uni src snk spec replication validated r = Inr (v, t, p)"
    "plan_resources uni src snk spec replication v (AList.update r t types) (AList.update r p policies) rs = Inr (types', policies')"
    using Cons.prems(1) by (auto simp: bind_res_Inr)
  note snd = plan_resource_sound [OF s(1) Cons.prems(2,3)]
  have "\<forall>x \<in> insert r D. \<exists>t' p'. map_of (AList.update r t types) x = Some t' \<and> map_of (AList.update r p policies) x = Some p' \<and>
      policy_sound src snk spec x t' p'"
    using snd Cons.prems(4) by (auto simp: update_conv')
  then show ?case
    using Cons.IH [OF s(2) _ Cons.prems(3), of "insert r D"] snd by auto
qed simp

text \<open>
  C6: every policy of a bounded plan is sound. When planning succeeds, each requested resource has a
  type and a policy such that the sink declares the write mode with the policy's durability, a keyed
  write has the primary key the source reported, a checkpoint is never persisted before a sink that
  is durable only after commit has committed, change streams are planned on CDC connections and
  nothing else is, and the type is the requested one or its keyless fallback.
\<close>

theorem bounded_plan_sound:
  assumes "resolveBoundedIngestionPlan uni src snk spec = Inr plan" "r \<in> set (sp_Resources spec)"
  shows "\<exists>t p. map_of (pl_IngestionTypes plan) r = Some t \<and> map_of (pl_WritePolicies plan) r = Some p \<and>
    policy_sound src snk spec r t p"
proof -
  let ?rep = "ReplicationFor (src_Spec src) (rf_Config (sp_Source spec))"
  obtain types policies where "plan_resources uni src snk spec ?rep [] (sp_IngestionTypes spec) [] (sp_Resources spec) = Inr (types, policies)"
    "pl_IngestionTypes plan = types" "pl_WritePolicies plan = policies"
    using assms(1) length_pos_if_in_set [OF assms(2)]
    by (auto simp: resolveBoundedIngestionPlan_def plan_default_def bind_res_Inr Let_def)
  then show ?thesis
    using plan_resources_sound [of uni src snk spec ?rep "[]" "sp_IngestionTypes spec" "[]" "sp_Resources spec" types policies "{}"]
      assms(2) by auto
qed

definition demo_options :: "execution_mode \<Rightarrow> run_options" where
  "demo_options e =
     \<lparr>ro_Execution = e, ro_EpochBoundary = None, ro_FetchSize = 0, ro_BatchMaxRows = 0, ro_BatchMaxBytes = 0, ro_RateLimit = None,
      ro_SnapshotParallelism = 0, ro_CheckpointEvery = 0\<rparr>"

definition demo_connector :: connector_ref where
  "demo_connector = \<lparr>rf_Connector = ''pg'', rf_ConfigRef = [], rf_Config = [], rf_SecretRefs = []\<rparr>"

definition demo_spec :: "execution_mode \<Rightarrow> string list \<Rightarrow> (string \<times> ingestion_type) list \<Rightarrow> (string \<times> write_policy) list \<Rightarrow> run_spec" where
  "demo_spec e resources types policies =
     \<lparr>sp_StreamAttempt = None, sp_Tenant = ''t'', sp_Run = ''r'', sp_StartedAt = 0, sp_SinkWriteID = [], sp_SinkWriteStartedAt = 0,
      sp_ExecutionID = [], sp_PipelineID = ''p'', sp_PipelineVersionID = ''v'', sp_SourceConnectionID = [], sp_SinkConnectionID = [],
      sp_CheckpointRoute = [], sp_ReplicationStream = None, sp_CursorConfigs = [], sp_Columns = [], sp_Partitions = [], sp_Resync = [],
      sp_Source = demo_connector, sp_Sink = demo_connector, sp_Resources = resources, sp_Selectors = [], sp_IngestionTypes = types,
      sp_Options = demo_options e, sp_WritePolicies = policies, sp_WorkerConfiguration = demo_worker [] [], sp_Transform = []\<rparr>"

definition demo_stream :: stream_capabilities where
  "demo_stream = \<lparr>st_EmitsOps = [OpInsert, OpDelete], st_Input = InputChanges, st_Ordering = [OrderingGlobalStrict],
     st_Delivery = DeliveryReplayableAtLeastOnce\<rparr>"

definition demo_source :: source where
  "demo_source =
     \<lparr>src_Spec = \<lparr>cs_Name = ''pg'', cs_Stream = Some demo_stream, cs_Modes = [ModeFull],
        cs_SourcePolicies = SourcePolicies [IngestionFullUpsert, IngestionIncrementalUpsert]\<rparr>,
      src_Schema = Some (\<lambda>r. Inr orders_schema), src_Discover = None, src_ManagedIncremental = None, src_CursorColumns = None\<rparr>"

definition demo_sink :: sink_spec where
  "demo_sink =
     \<lparr>ss_Name = ''wh'', ss_Capabilities = \<lparr>sk_ReusableSession = False, sk_Schematized = False, sk_EncodedIntegrity = False,
        sk_WritePolicies = [(WriteCapability IngestionIncrementalUpsert)\<lparr>wc_Durability := DurabilityAfterCommit\<rparr>,
          WriteCapability IngestionCDCMerge],
        sk_PreferredBatchRows = 0, sk_PreferredBatchBytes = 0, sk_PreferredFlushInterval = 0\<rparr>\<rparr>"

lemmas demo_plan_simps = demo_spec_def demo_source_def demo_sink_def demo_stream_def demo_connector_def demo_options_def

theorem bounded_plan_sound_witness:
  "\<exists>plan p. resolveBoundedIngestionPlan (\<lambda>_ _. False) demo_source demo_sink
      (demo_spec ExecutionBounded [''orders''] [([], IngestionFullUpsert)] []) = Inr plan \<and>
    map_of (pl_WritePolicies plan) ''orders'' = Some p \<and> wp_Checkpoint p = CheckpointAfterCommit"
proof -
  let ?spec = "demo_spec ExecutionBounded [''orders''] [([], IngestionFullUpsert)] []"
  have r: "''orders'' \<in> set (sp_Resources ?spec)"
    by (simp add: demo_spec_def)
  obtain plan where plan: "resolveBoundedIngestionPlan (\<lambda>_ _. False) demo_source demo_sink ?spec = Inr plan"
    by (simp add: resolveBoundedIngestionPlan_def plan_default_def plan_resource_def effective_type_def validate_type_def
      demo_plan_simps ReplicationFor_def Config_String_def raw_def str_or_empty_def TypeFor_def type_at_def WriteCapability_def
      policy_defs PrimaryKeyForResource_def orders_schema_def IngestionForKeys_def ValidateReplication_def IsCDCIngestion_def
      ValidateSourceIngestion_def SourcePolicies_def acceptsOperations_def ValidateSinkIngestion_def sinkCapabilityForIngestion_def
      serves_def ResolveWriteVersionPolicy_def bindSinkDurability_def)
  show ?thesis
    using plan bounded_plan_sound [OF plan r]
    by (auto simp: policy_sound_def demo_sink_def serves_def WriteCapability_def policy_defs demo_spec_def TypeFor_def type_at_def
      IngestionForKeys_def PrimaryKeyForResource_def demo_source_def orders_schema_def)
qed

section \<open>A continuous plan is sound and complete\<close>

lemma select_candidate_ok:
  assumes "select_candidate source ops mode submitted selected cs = Some plan"
  shows "selected = Some plan \<or> (\<exists>c \<in> set cs. candidate_ok source ops mode submitted c \<and> plan = candidate_plan mode c)"
  using assms
  by (induction source ops mode submitted selected cs rule: select_candidate.induct) (auto split: if_splits option.splits)

lemma select_candidate_None:
  "select_candidate source ops mode submitted selected cs = None \<longleftrightarrow>
    selected = None \<and> (\<forall>c \<in> set cs. \<not> candidate_ok source ops mode submitted c)"
  by (induction source ops mode submitted selected cs rule: select_candidate.induct) (auto split: option.splits)

lemma select_candidate_commit:
  assumes "select_candidate source ops mode submitted selected cs = Some plan"
    "c \<in> set cs" "candidate_ok source ops mode submitted c" "submitted = None" "wc_Durability c = DurabilityAfterCommit"
  shows "wc_Durability (wp_Capability (cw_Policy plan)) = DurabilityAfterCommit"
  using assms
  by (induction source ops mode submitted selected cs rule: select_candidate.induct)
    (auto simp: candidate_plan_def split: if_splits option.splits)

lemma candidate_mode: "candidate_ok source ops mode submitted c \<Longrightarrow> mode \<in> {WriteAppend, WriteUpsert, WriteMerge, WriteDelete}"
  by (auto simp: candidate_ok_def continuousWriteCapability_def split: write_mode.splits)

lemma planContinuousWrite_Inr:
  "planContinuousWrite source sink mode submitted = Inr plan \<longleftrightarrow>
    (\<exists>ops. stream_ops source = Inr ops \<and> mode \<in> {WriteAppend, WriteUpsert, WriteMerge, WriteDelete} \<and>
      select_candidate source ops mode submitted None (sk_WritePolicies (ss_Capabilities sink)) = Some plan)"
proof (cases "stream_ops source")
  case (Inr ops)
  then show ?thesis
    by (cases "select_candidate source ops mode submitted None (sk_WritePolicies (ss_Capabilities sink))")
      (auto simp: planContinuousWrite_def)
qed (simp add: planContinuousWrite_def)

text \<open>
  C8: continuous planning finds a policy exactly when one fits. \<^verbatim>\<open>PlanContinuousWrite\<close> succeeds if and only
  if the source offers replayable input with known operations and the sink declares a streaming
  capability of that mode that accepts all of them and whose ordering need the source meets; what it
  returns is one of those, and one that is durable after commit when the sink has such a one.
\<close>

theorem continuous_write_complete:
  "((\<exists>plan. PlanContinuousWrite source sink mode = Inr plan) \<longleftrightarrow>
     (\<exists>ops. stream_ops source = Inr ops \<and>
        (\<exists>c \<in> set (sk_WritePolicies (ss_Capabilities sink)). candidate_ok source ops mode None c))) \<and>
   (\<forall>plan ops. PlanContinuousWrite source sink mode = Inr plan \<and> stream_ops source = Inr ops \<longrightarrow>
     (\<exists>c \<in> set (sk_WritePolicies (ss_Capabilities sink)). candidate_ok source ops mode None c \<and> plan = candidate_plan mode c) \<and>
     (wc_Durability (wp_Capability (cw_Policy plan)) = DurabilityAfterCommit \<or>
       (\<forall>c \<in> set (sk_WritePolicies (ss_Capabilities sink)).
          \<not> (candidate_ok source ops mode None c \<and> wc_Durability c = DurabilityAfterCommit))))"
proof (intro conjI allI impI)
  show "(\<exists>plan. PlanContinuousWrite source sink mode = Inr plan) \<longleftrightarrow>
     (\<exists>ops. stream_ops source = Inr ops \<and>
        (\<exists>c \<in> set (sk_WritePolicies (ss_Capabilities sink)). candidate_ok source ops mode None c))"
  proof
    assume "\<exists>plan. PlanContinuousWrite source sink mode = Inr plan"
    then obtain plan ops where "stream_ops source = Inr ops"
      "select_candidate source ops mode None None (sk_WritePolicies (ss_Capabilities sink)) = Some plan"
      by (auto simp: PlanContinuousWrite_def planContinuousWrite_Inr)
    then show "\<exists>ops. stream_ops source = Inr ops \<and> (\<exists>c \<in> set (sk_WritePolicies (ss_Capabilities sink)). candidate_ok source ops mode None c)"
      using select_candidate_ok by blast
  next
    assume "\<exists>ops. stream_ops source = Inr ops \<and> (\<exists>c \<in> set (sk_WritePolicies (ss_Capabilities sink)). candidate_ok source ops mode None c)"
    then obtain ops c where c: "stream_ops source = Inr ops" "c \<in> set (sk_WritePolicies (ss_Capabilities sink))"
      "candidate_ok source ops mode None c" by blast
    then obtain plan where "select_candidate source ops mode None None (sk_WritePolicies (ss_Capabilities sink)) = Some plan"
      using select_candidate_None [of source ops mode None None "sk_WritePolicies (ss_Capabilities sink)"] by blast
    then show "\<exists>plan. PlanContinuousWrite source sink mode = Inr plan"
      using c(1) candidate_mode [OF c(3)] by (auto simp: PlanContinuousWrite_def planContinuousWrite_Inr)
  qed
next
  fix plan ops
  assume a: "PlanContinuousWrite source sink mode = Inr plan \<and> stream_ops source = Inr ops"
  then have s: "select_candidate source ops mode None None (sk_WritePolicies (ss_Capabilities sink)) = Some plan"
    by (auto simp: PlanContinuousWrite_def planContinuousWrite_Inr)
  show "\<exists>c \<in> set (sk_WritePolicies (ss_Capabilities sink)). candidate_ok source ops mode None c \<and> plan = candidate_plan mode c"
    using select_candidate_ok [OF s] by simp
  show "wc_Durability (wp_Capability (cw_Policy plan)) = DurabilityAfterCommit \<or>
       (\<forall>c \<in> set (sk_WritePolicies (ss_Capabilities sink)).
          \<not> (candidate_ok source ops mode None c \<and> wc_Durability c = DurabilityAfterCommit))"
    using select_candidate_commit [OF s] by blast
qed

theorem continuous_write_complete_witness:
  "\<exists>plan. PlanContinuousWrite (src_Spec demo_source) demo_sink WriteMerge = Inr plan \<and>
    wp_Checkpoint (cw_Policy plan) = CheckpointAfterCommit"
proof -
  have o: "stream_ops (src_Spec demo_source) = Inr [OpInsert, OpDelete]"
    by (simp add: stream_ops_def demo_plan_simps known_op_def)
  have c: "candidate_ok (src_Spec demo_source) [OpInsert, OpDelete] WriteMerge None (WriteCapability IngestionCDCMerge)"
    by (simp add: candidate_ok_def continuousWriteCapability_def known_op_def demo_plan_simps WriteCapability_def policy_defs Accepts_def)
  have m: "WriteCapability IngestionCDCMerge \<in> set (sk_WritePolicies (ss_Capabilities demo_sink))"
    by (simp add: demo_sink_def)
  obtain plan where "PlanContinuousWrite (src_Spec demo_source) demo_sink WriteMerge = Inr plan"
    using continuous_write_complete [of "src_Spec demo_source" demo_sink WriteMerge] o c m by blast
  then show ?thesis
    using continuous_write_complete [of "src_Spec demo_source" demo_sink WriteMerge] o by (auto simp: candidate_plan_def)
qed

text \<open>The operations two capabilities with the same compacted list accept are the same.\<close>

definition run_policy_ok :: "connector_spec \<Rightarrow> sink_spec \<Rightarrow> run_spec \<Rightarrow> string \<times> write_policy \<Rightarrow> bool" where
  "run_policy_ok source sink spec e \<longleftrightarrow> (case e of (r, p) \<Rightarrow>
     \<exists>sub ops. submitted_policy spec r = Some sub \<and> stream_ops source = Inr ops \<and> r \<noteq> [] \<and>
       wp_Resource p = r \<and> wp_DestinationResource p = wp_DestinationResource sub \<and>
       wp_Capability p \<in> set (sk_WritePolicies (ss_Capabilities sink)) \<and>
       candidate_ok source ops (wc_Mode (wp_Capability sub)) (Some (wp_Capability sub)) (wp_Capability p) \<and>
       wp_Checkpoint p = CheckpointAfterCommit \<and>
       (wp_Version sub = no_version \<or> wp_Version sub = wp_Version p))"

lemma planContinuousWrite_candidate:
  assumes "planContinuousWrite source sink mode submitted = Inr plan"
  obtains ops c where "stream_ops source = Inr ops" "c \<in> set (sk_WritePolicies (ss_Capabilities sink))"
    "candidate_ok source ops mode submitted c" "plan = candidate_plan mode c"
proof -
  obtain ops where ops: "stream_ops source = Inr ops"
    "select_candidate source ops mode submitted None (sk_WritePolicies (ss_Capabilities sink)) = Some plan"
    using assms planContinuousWrite_Inr by blast
  then show thesis
    using select_candidate_ok [OF ops(2)] that by auto
qed

lemma plan_continuous_resources_ok:
  assumes "plan_continuous_resources source sink spec policies glob rs = Inr (policies', glob')"
    "\<forall>e \<in> set policies. run_policy_ok source sink spec e" "distinct (map fst policies)"
    "glob = (if \<exists>e \<in> set policies. wc_RequiresOrder (wp_Capability (snd e)) then OrderingGlobalStrict else OrderingNone)"
  shows "map fst policies' = map fst policies @ rs \<and> distinct (map fst policies') \<and>
    (\<forall>e \<in> set policies'. run_policy_ok source sink spec e) \<and>
    glob' = (if \<exists>e \<in> set policies'. wc_RequiresOrder (wp_Capability (snd e)) then OrderingGlobalStrict else OrderingNone)"
  using assms
proof (induction rs arbitrary: policies glob)
  case (Cons r rs)
  obtain sub where sub: "r \<noteq> []" "map_of policies r = None" "submitted_policy spec r = Some sub"
    using Cons.prems(1) by (auto split: if_splits option.splits)
  then obtain plan where plan: "planContinuousWrite source sink (wc_Mode (wp_Capability sub)) (Some (wp_Capability sub)) = Inr plan"
    using Cons.prems(1) by (auto split: sum.splits)
  then obtain ops c where c: "stream_ops source = Inr ops" "c \<in> set (sk_WritePolicies (ss_Capabilities sink))"
    "candidate_ok source ops (wc_Mode (wp_Capability sub)) (Some (wp_Capability sub)) c"
    "plan = candidate_plan (wc_Mode (wp_Capability sub)) c"
    using planContinuousWrite_candidate by blast
  let ?p = "(cw_Policy plan)\<lparr>wp_Resource := r, wp_DestinationResource := wp_DestinationResource sub\<rparr>"
  have rest: "plan_continuous_resources source sink spec (policies @ [(r, ?p)])
      (if cw_Ordering plan = OrderingGlobalStrict then cw_Ordering plan else glob) rs = Inr (policies', glob')"
    "wp_Version sub = no_version \<or> wp_Version sub = wp_Version (cw_Policy plan)"
    using Cons.prems(1) sub plan by (auto split: if_splits)
  have "run_policy_ok source sink spec (r, ?p)"
    using sub c rest(2) by (auto simp: run_policy_ok_def candidate_plan_def)
  then have a: "\<forall>e \<in> set (policies @ [(r, ?p)]). run_policy_ok source sink spec e"
    using Cons.prems(2) by simp
  have b: "distinct (map fst (policies @ [(r, ?p)]))"
    using sub(2) Cons.prems(3) by (simp add: map_of_eq_None_iff)
  have "wp_Capability ?p = c" "cw_Ordering plan = (if wc_RequiresOrder c then OrderingGlobalStrict else OrderingNone)"
    by (simp_all add: c(4) candidate_plan_def)
  then have d: "(if cw_Ordering plan = OrderingGlobalStrict then cw_Ordering plan else glob) =
      (if \<exists>e \<in> set (policies @ [(r, ?p)]). wc_RequiresOrder (wp_Capability (snd e)) then OrderingGlobalStrict else OrderingNone)"
    using Cons.prems(4) by simp
  have "map fst (policies @ [(r, ?p)]) @ rs = map fst policies @ r # rs"
    by simp
  with Cons.IH [OF rest(1) a b d] show ?case
    by (intro conjI) (elim conjE, simp only:)+
qed simp

text \<open>
  C7: a continuous run plan binds exactly the run's resources, each once, to a capability its sink
  declares and the run submitted, that accepts every operation the source emits; checkpoints wait for
  the commit; and the plan asks for global order precisely when some policy needs it, which the source
  then guarantees.
\<close>

theorem continuous_run_sound:
  assumes "PlanContinuousRun source sink spec = Inr (policies, glob)"
  shows "map fst policies = sp_Resources spec \<and> distinct (sp_Resources spec) \<and>
    (\<forall>e \<in> set policies. run_policy_ok source sink spec e) \<and>
    (glob = OrderingGlobalStrict \<longleftrightarrow> (\<exists>e \<in> set policies. wc_RequiresOrder (wp_Capability (snd e)))) \<and>
    (glob = OrderingGlobalStrict \<longrightarrow> (\<exists>input. cs_Stream source = Some input \<and> OrderingGlobalStrict \<in> set (st_Ordering input)))"
proof -
  have p: "plan_continuous_resources source sink spec [] OrderingNone (sp_Resources spec) = Inr (policies, glob)"
    using assms by (simp add: PlanContinuousRun_def check_err_Inr)
  have ok: "map fst policies = sp_Resources spec" "distinct (map fst policies)" "\<forall>e \<in> set policies. run_policy_ok source sink spec e"
    "glob = (if \<exists>e \<in> set policies. wc_RequiresOrder (wp_Capability (snd e)) then OrderingGlobalStrict else OrderingNone)"
    using plan_continuous_resources_ok [OF p] by auto
  have "\<exists>input. cs_Stream source = Some input \<and> OrderingGlobalStrict \<in> set (st_Ordering input)"
    if "e \<in> set policies" "wc_RequiresOrder (wp_Capability (snd e))" for e
    using ok(3) that by (auto simp: run_policy_ok_def candidate_ok_def split: option.splits)
  with ok show ?thesis by (auto split: if_splits)
qed

theorem continuous_run_sound_witness:
  "\<exists>policies. PlanContinuousRun (src_Spec demo_source) demo_sink
      (demo_spec ExecutionContinuous [''orders''] [] [([], WritePolicyForIngestion IngestionCDCMerge)]) = Inr (policies, OrderingGlobalStrict) \<and>
    map fst policies = [''orders'']"
proof -
  let ?spec = "demo_spec ExecutionContinuous [''orders''] [] [([], WritePolicyForIngestion IngestionCDCMerge)]"
  obtain policies glob where p: "PlanContinuousRun (src_Spec demo_source) demo_sink ?spec = Inr (policies, glob)"
    "\<exists>e \<in> set policies. wc_RequiresOrder (wp_Capability (snd e))"
    by (simp add: PlanContinuousRun_def ValidateContinuous_def PlanContinuousWrite_def planContinuousWrite_def stream_ops_def
      demo_plan_simps known_op_def candidate_ok_def continuousWriteCapability_def WriteCapability_def policy_defs Accepts_def
      submitted_policy_def sameStreamCapability_def compact_ops_def candidate_plan_def)
  then show ?thesis
    using continuous_run_sound [OF p(1)] by (auto simp: demo_spec_def)
qed

end
