(* ===== verification/Pipeline.thy ===== *)
theory Pipeline
  imports RunModel Epoch "HOL-Library.AList"
begin

text \<open>
  The extraction loop (\<^verbatim>\<open>pipeline\<close>): the inlet that opens builders, the slots that queue their batches,
  the writer that applies them to the sink and checks the receipt, and the stream producer's barriers
  and epochs. The model has one writer and no transform steps.

  Go runs the writer beside the producer. Here the producer's calls run one after the other and every
  send carries a schedule: how far the writer gets before the send, whether a context is cancelled and,
  when both arms of the \<^verbatim>\<open>select\<close> are ready, which one runs. A theorem that holds for every schedule
  holds for every interleaving.
\<close>

section \<open>State\<close>

record audit_config =
  au_RunStartedAt :: int
  au_CDC :: bool
  au_CDCAppend :: bool

record write_receipt =
  rp_URI :: string
  rp_Bytes :: int
  rp_Rows :: int
  rp_WriteCRC :: nat
  rp_EncodedCRC :: "nat option"
  rp_Checkpoint :: checkpoint

text \<open>
  What the pipeline calls: the sink's \<^verbatim>\<open>Apply\<close> and the schema preparation (a panic in one of them is an
  error here, as the writer recovers it into one), the checksum and the size of an Arrow batch, the
  text of an Arrow value, and Unicode case folding.
\<close>

record 'k calls =
  cl_Apply :: "'k \<Rightarrow> batch \<Rightarrow> write_policy \<Rightarrow> 'k \<times> write_receipt res"
  cl_Prepare :: "('k \<Rightarrow> string \<Rightarrow> schema \<Rightarrow> 'k \<times> goerr option) option"
  cl_CRC :: "record_batch option \<Rightarrow> operation list \<Rightarrow> nat"
  cl_Bytes :: "record_batch \<Rightarrow> int"
  cl_ValueStr :: "cell \<Rightarrow> string"
  cl_Fold :: "string \<Rightarrow> string"

datatype fact_event =
    BatchBuffered int int
  | BatchWritten int int string nat checkpoint checkpoint_policy
  | IntegrityVerified nat
  | EncodedIntegrityVerified nat
  | ChunkDivergence nat

record fact =
  ft_Run :: string
  ft_Seq :: nat
  ft_Resource :: string
  ft_Event :: fact_event

record slot =
  sl_resource :: string
  sl_part :: int
  sl_seq :: nat

record part_builder =
  pt_builder :: builder
  pt_slot :: slot

text \<open>The outcome of the one-time preparation is None until it has run.\<close>

record registered_schema =
  rg_model :: schema
  rg_arrow :: arrow_schema
  rg_preparation :: "goerr option option"

record queued_batch =
  qu_batch :: batch
  qu_epoch :: "epoch_ref option"

text \<open>A stream writer is known by its resource, of which a stream permits one builder.\<close>

record stream_writer =
  sw_resource :: string
  sw_part :: int
  sw_inRow :: bool
  sw_closed :: bool

record stream_inlet =
  in_strict :: bool
  in_writers :: "stream_writer list"
  in_active :: "string option"
  in_transactions :: "(domain_key \<times> string) list"
  in_sequence :: nat
  in_closed :: bool
  in_epoch :: "epoch_ref option"
  in_touched :: bool
  in_sealed :: bool
  in_epochWritten :: bool
  in_completed :: domain_positions
  in_epochRows :: int
  in_epochBytes :: int
  in_epochResources :: "(string \<times> resource_totals) list"

datatype interruption = Undisturbed | RunStopped goerr | CallStopped goerr

record moment =
  mo_steps :: nat
  mo_interruption :: interruption
  mo_sendWins :: bool

text \<open>Two history variables: the row batches queued, and those applied, with the epoch they belong to.\<close>

record sent_batch =
  sx_epoch :: "epoch_ref option"
  sx_resource :: string
  sx_part :: int
  sx_rows :: record_batch
  sx_ops :: "operation list"

record applied_batch =
  ax_sent :: sent_batch
  ax_bytes :: int

record pipeline_config =
  cf_MessageSchemaPolicy :: policy
  cf_Run :: string
  cf_SinkName :: string
  cf_SinkCapabilities :: sink_capabilities
  cf_WritePolicies :: "(string \<times> write_policy) list"
  cf_BatchMaxRows :: int
  cf_BatchMaxBytes :: int
  cf_FlushInterval :: int
  cf_Audit :: "audit_config option"

record 'k pipeline =
  pp_cfg :: pipeline_config
  pp_opts :: options
  pp_flushIvl :: int
  pp_messageSchemas :: "message_layouts option"
  pp_schemas :: "(string \<times> registered_schema) list"
  pp_builders :: "((string \<times> int) \<times> part_builder) list"
  pp_batchCh :: "queued_batch list"
  pp_receipt :: "(nat \<times> control) option"
  pp_isStream :: bool
  pp_stream :: stream_inlet
  pp_errVal :: "goerr option"
  pp_done :: bool
  pp_ctxErr :: "goerr option"
  pp_sink :: 'k
  pp_facts :: "fact list"
  pp_schedule :: "moment list"
  pp_sent :: "sent_batch list"
  pp_applied :: "applied_batch list"

section \<open>Construction\<close>

definition no_stream :: stream_inlet where
  "no_stream =
     \<lparr>in_strict = False, in_writers = [], in_active = None, in_transactions = [], in_sequence = 0, in_closed = False,
      in_epoch = None, in_touched = False, in_sealed = False, in_epochWritten = False, in_completed = [],
      in_epochRows = 0, in_epochBytes = 0, in_epochResources = []\<rparr>"

definition defaultBatchRows :: int where "defaultBatchRows = 256"
definition defaultFlushInterval :: int where "defaultFlushInterval = 1000000000"

definition Pipeline_New :: "pipeline_config \<Rightarrow> message_layouts option \<Rightarrow> 'k \<Rightarrow> moment list \<Rightarrow> 'k pipeline" where
  "Pipeline_New cfg layouts sink schedule =
     (let caps = cf_SinkCapabilities cfg;
          rows = cf_BatchMaxRows cfg;
          rows = (if rows \<le> 0 then sk_PreferredBatchRows caps else rows);
          rows = (if rows \<le> 0 then defaultBatchRows else rows);
          bytes = cf_BatchMaxBytes cfg;
          bytes = (if bytes \<le> 0 then sk_PreferredBatchBytes caps else bytes);
          ivl = cf_FlushInterval cfg;
          ivl = (if ivl \<le> 0 then sk_PreferredFlushInterval caps else ivl);
          ivl = (if ivl \<le> 0 then defaultFlushInterval else ivl)
      in \<lparr>pp_cfg = cfg, pp_opts = \<lparr>op_MaxRows = rows, op_MaxBytes = bytes\<rparr>, pp_flushIvl = ivl, pp_messageSchemas = layouts,
          pp_schemas = [], pp_builders = [], pp_batchCh = [], pp_receipt = None, pp_isStream = False, pp_stream = no_stream,
          pp_errVal = None, pp_done = False, pp_ctxErr = None, pp_sink = sink, pp_facts = [], pp_schedule = schedule,
          pp_sent = [], pp_applied = []\<rparr>)"

definition NewStream ::
  "pipeline_config \<Rightarrow> message_layouts option \<Rightarrow> 'k \<Rightarrow> moment list \<Rightarrow> ordering \<Rightarrow> 'k pipeline res" where
  "NewStream cfg layouts sink schedule order =
     (if order \<notin> {OrderingNone, OrderingTransaction, OrderingGlobalStrict}
      then Inl (ErrMsg ''pipeline: unsupported serial stream ordering'')
      else Inr ((Pipeline_New cfg layouts sink schedule)\<lparr>pp_isStream := True,
             pp_stream := no_stream\<lparr>in_strict := (order = OrderingGlobalStrict)\<rparr>\<rparr>))"

section \<open>Errors and facts\<close>

definition setErr :: "goerr \<Rightarrow> 'k pipeline \<Rightarrow> 'k pipeline" where
  "setErr e p = p\<lparr>pp_errVal := Some (case pp_errVal p of None \<Rightarrow> e | Some first \<Rightarrow> first), pp_done := True\<rparr>"

definition publish :: "string \<Rightarrow> fact_event \<Rightarrow> 'k pipeline \<Rightarrow> 'k pipeline" where
  "publish resource ev p =
     p\<lparr>pp_facts := pp_facts p @ [\<lparr>ft_Run = cf_Run (pp_cfg p), ft_Seq = length (pp_facts p) + 1, ft_Resource = resource, ft_Event = ev\<rparr>]\<rparr>"

section \<open>The writer\<close>

definition policyFor :: "(string \<times> write_policy) list \<Rightarrow> string \<Rightarrow> write_policy res" where
  "policyFor policies resource =
     (case map_of policies resource of
        Some policy \<Rightarrow> Inr policy
      | None \<Rightarrow> (case map_of policies [] of
          Some policy \<Rightarrow> Inr (policy\<lparr>wp_Resource := resource\<rparr>)
        | None \<Rightarrow> Inl (ErrMsg ''missing write policy for resource'')))"

definition receiptCheckpoint :: "'k pipeline \<Rightarrow> write_receipt \<Rightarrow> batch \<Rightarrow> checkpoint" where
  "receiptCheckpoint p receipt b =
     (if pp_isStream p then None
      else if rp_Checkpoint receipt \<noteq> None then rp_Checkpoint receipt
      else bt_Cursor b)"

definition writeBatch :: "'k calls \<Rightarrow> 'k \<Rightarrow> batch \<Rightarrow> write_policy \<Rightarrow> 'k \<times> write_receipt res" where
  "writeBatch c sink b policy =
     (let destination = wp_DestinationResource policy;
          policy = policy\<lparr>wp_DestinationResource := []\<rparr>
      in if destination = [] \<or> destination = bt_Resource b then cl_Apply c sink b policy
         else case bt_rows b of
           None \<Rightarrow> (sink, Inl (ErrMsg ''panicked''))
         | Some rows \<Rightarrow>
             (let output = (NewBatch rows (bt_ops b))\<lparr>bt_Resource := destination, bt_Part := bt_Part b, bt_Seq := bt_Seq b,
                    bt_Last := bt_Last b, bt_Cursor := map_option (\<lambda>cp. cp\<lparr>cp_Resource := destination\<rparr>) (bt_Cursor b)\<rparr>
              in case cl_Apply c sink output (policy\<lparr>wp_Resource := destination\<rparr>) of
                   (sink, Inl e) \<Rightarrow> (sink, Inl e)
                 | (sink, Inr receipt) \<Rightarrow>
                     (sink, Inr (receipt\<lparr>rp_Checkpoint :=
                        map_option (\<lambda>cp. cp\<lparr>cp_Resource := bt_Resource b\<rparr>) (rp_Checkpoint receipt)\<rparr>))))"

definition IntegrityCRC :: "'k calls \<Rightarrow> batch \<Rightarrow> nat" where
  "IntegrityCRC c b = cl_CRC c (bt_rows b) (bt_ops b)"

text \<open>The one-time preparation of the batch's schema, with the error that stops the batch.\<close>

definition prepare_batch :: "'k calls \<Rightarrow> batch \<Rightarrow> 'k pipeline \<Rightarrow> 'k pipeline \<times> goerr option" where
  "prepare_batch c b p =
     (case cl_Prepare c of
        None \<Rightarrow> (p, None)
      | Some prepare \<Rightarrow>
          (case map_of (pp_schemas p) (bt_Resource b) of
             None \<Rightarrow> (p, Some (ErrMsg ''panicked''))
           | Some registered \<Rightarrow>
               (case rg_preparation registered of
                  Some outcome \<Rightarrow> (p, map_option (ErrWrap ''prepare schema'') outcome)
                | None \<Rightarrow>
                    (case prepare (pp_sink p) (bt_Resource b) (rg_model registered) of
                       (sink, outcome) \<Rightarrow>
                         (p\<lparr>pp_sink := sink, pp_schemas := AList.update (bt_Resource b) (registered\<lparr>rg_preparation := Some outcome\<rparr>) (pp_schemas p)\<rparr>,
                          map_option (ErrWrap ''prepare schema'') outcome)))))"

definition totals_at :: "(string \<times> resource_totals) list \<Rightarrow> string \<Rightarrow> resource_totals" where
  "totals_at m r = (case map_of m r of None \<Rightarrow> \<lparr>rt_Rows = 0, rt_Bytes = 0\<rparr> | Some t \<Rightarrow> t)"

definition count_applied :: "batch \<Rightarrow> write_receipt \<Rightarrow> stream_inlet \<Rightarrow> stream_inlet" where
  "count_applied b receipt i =
     (let total = totals_at (in_epochResources i) (bt_Resource b)
      in i\<lparr>in_epochRows := wrap64 (in_epochRows i + int (NumRows b)), in_epochBytes := wrap64 (in_epochBytes i + rp_Bytes receipt),
           in_epochResources := AList.update (bt_Resource b)
             \<lparr>rt_Rows = wrap64 (rt_Rows total + int (NumRows b)), rt_Bytes = wrap64 (rt_Bytes total + rp_Bytes receipt)\<rparr>
             (in_epochResources i)\<rparr>)"

definition sent_of :: "queued_batch \<Rightarrow> sent_batch option" where
  "sent_of q = (case bt_rows (qu_batch q) of
     None \<Rightarrow> None
   | Some rows \<Rightarrow> Some \<lparr>sx_epoch = qu_epoch q, sx_resource = bt_Resource (qu_batch q), sx_part = bt_Part (qu_batch q),
       sx_rows = rows, sx_ops = bt_ops (qu_batch q)\<rparr>)"

text \<open>What follows a successful \<^verbatim>\<open>Apply\<close>.\<close>

definition accept_receipt ::
  "'k calls \<Rightarrow> queued_batch \<Rightarrow> write_policy \<Rightarrow> write_receipt \<Rightarrow> 'k pipeline \<Rightarrow> 'k pipeline" where
  "accept_receipt c q policy receipt p =
     (let b = qu_batch q; readCRC = IntegrityCRC c b in
      if qu_epoch q \<noteq> None \<and> rp_Rows receipt \<noteq> int (NumRows b) then setErr (ErrMsg ''incomplete sink receipt'') p
      else if sk_EncodedIntegrity (cf_SinkCapabilities (pp_cfg p)) \<and> rp_EncodedCRC receipt = None
      then setErr (ErrMsg ''sink requires encoded integrity evidence but returned none'') p
      else if rp_WriteCRC receipt = readCRC then
        (let p = (if qu_epoch q \<noteq> None then p\<lparr>pp_stream := count_applied b receipt (pp_stream p)\<rparr> else p);
             p = p\<lparr>pp_applied := pp_applied p @ map (\<lambda>s. \<lparr>ax_sent = s, ax_bytes = rp_Bytes receipt\<rparr>)
                    (case sent_of q of None \<Rightarrow> [] | Some s \<Rightarrow> [s])\<rparr>;
             p = publish (bt_Resource b) (BatchWritten (int (NumRows b)) (rp_Bytes receipt) (rp_URI receipt)
                    (rp_WriteCRC receipt) (receiptCheckpoint p receipt b) (wp_Checkpoint policy)) p;
             p = publish (bt_Resource b) (IntegrityVerified readCRC) p
         in case rp_EncodedCRC receipt of
              None \<Rightarrow> p
            | Some crc \<Rightarrow> publish (bt_Resource b) (EncodedIntegrityVerified crc) p)
      else setErr (ErrMsg ''CRC divergence'') (publish (bt_Resource b) (ChunkDivergence readCRC) p))"

definition processBatch :: "'k calls \<Rightarrow> queued_batch \<Rightarrow> 'k pipeline \<Rightarrow> 'k pipeline" where
  "processBatch c q p =
     (let b = qu_batch q in
      case policyFor (cf_WritePolicies (pp_cfg p)) (bt_Resource b) of
        Inl e \<Rightarrow> setErr e p
      | Inr policy \<Rightarrow>
          if bt_Drained b then publish (bt_Resource b) (BatchWritten 0 0 [] 0 (bt_Cursor b) (wp_Checkpoint policy)) p
          else case (if pp_isStream p then ValidateBatch (cl_ValueStr c) policy b else None) of
            Some e \<Rightarrow> setErr e p
          | None \<Rightarrow>
              (case prepare_batch c b p of
                 (p, Some e) \<Rightarrow> setErr e p
               | (p, None) \<Rightarrow>
                   (case writeBatch c (pp_sink p) b policy of
                      (sink, Inl e) \<Rightarrow> setErr (ErrWrap ''write'' e) (p\<lparr>pp_sink := sink\<rparr>)
                    | (sink, Inr receipt) \<Rightarrow> accept_receipt c q policy receipt (p\<lparr>pp_sink := sink\<rparr>))))"

text \<open>One round of the writer's loop; an empty channel leaves it waiting.\<close>

definition writer :: "'k calls \<Rightarrow> 'k pipeline \<Rightarrow> 'k pipeline" where
  "writer c p = (case pp_batchCh p of
     [] \<Rightarrow> p
   | q # rest \<Rightarrow>
       (let p = p\<lparr>pp_batchCh := rest\<rparr>;
            p = (case pp_ctxErr p of Some e \<Rightarrow> if pp_isStream p then setErr e p else p | None \<Rightarrow> p)
        in if pp_errVal p \<noteq> None then p
           else case bt_Control (qu_batch q) of
             Some control \<Rightarrow> p\<lparr>pp_receipt := Some (bt_Seq (qu_batch q), control)\<rparr>
           | None \<Rightarrow> processBatch c q p))"

definition writer_rounds :: "'k calls \<Rightarrow> nat \<Rightarrow> 'k pipeline \<Rightarrow> 'k pipeline" where
  "writer_rounds c n p = (writer c ^^ n) p"

section \<open>Sending\<close>

text \<open>What the schedule lets happen before the next send.\<close>

definition interleave :: "'k calls \<Rightarrow> 'k pipeline \<Rightarrow> 'k pipeline \<times> bool" where
  "interleave c p = (case pp_schedule p of
     [] \<Rightarrow> (p, False)
   | m # ms \<Rightarrow>
       (let p = writer_rounds c (mo_steps m) (p\<lparr>pp_schedule := ms\<rparr>)
        in (case mo_interruption m of
              Undisturbed \<Rightarrow> p
            | RunStopped e \<Rightarrow> p\<lparr>pp_ctxErr := Some (case pp_ctxErr p of None \<Rightarrow> e | Some first \<Rightarrow> first), pp_done := True\<rparr>
            | CallStopped e \<Rightarrow> setErr e p, mo_sendWins m)))"

definition failure :: "'k pipeline \<Rightarrow> goerr" where
  "failure p = (case pp_errVal p of Some e \<Rightarrow> e | None \<Rightarrow> ErrPipelineClosed)"

text \<open>
  \<open>pp_batchCh\<close> holds what the writer has not finished: the batch it may have taken, and the two the
  channel has room for. A send to a full channel waits until the writer is done with the one it took.
\<close>

definition Pipeline_send :: "'k calls \<Rightarrow> queued_batch \<Rightarrow> 'k pipeline \<Rightarrow> 'k pipeline \<times> goerr option" where
  "Pipeline_send c q p =
     (case interleave c p of (p, sendWins) \<Rightarrow>
        let p = writer_rounds c (length (pp_batchCh p) - 2) p in
        if pp_done p \<and> \<not> sendWins then (p, Some (failure p))
        else (p\<lparr>pp_batchCh := pp_batchCh p @ [q],
                pp_sent := pp_sent p @ (case sent_of q of None \<Rightarrow> [] | Some s \<Rightarrow> [s])\<rparr>, None))"

definition slot_send :: "'k calls \<Rightarrow> batch \<Rightarrow> 'k pipeline \<Rightarrow> 'k pipeline \<times> goerr option" where
  "slot_send c b p =
     Pipeline_send c \<lparr>qu_batch = b, qu_epoch = (if pp_isStream p then in_epoch (pp_stream p) else None)\<rparr> p"

definition cursorOf :: "string \<Rightarrow> int \<Rightarrow> meta \<Rightarrow> nat \<Rightarrow> checkpoint" where
  "cursorOf resource part final rows =
     (if mt_LSN final \<noteq> [] then Some (NewStreamDelta resource (mt_LSN final) (mt_Seq final))
      else if mt_Coarse final then Some (NewCoarseAck resource part (int rows))
      else case mt_Key final of None \<Rightarrow> None | Some key \<Rightarrow> Some (NewShardDelta resource part key))"

definition slot_Chunk :: "'k calls \<Rightarrow> 'k pipeline \<times> slot \<Rightarrow> batch \<Rightarrow> ('k pipeline \<times> slot) \<times> goerr option" where
  "slot_Chunk c r b = (case r of (p, s) \<Rightarrow>
     let rows = NumRows b;
         nbytes = (case bt_rows b of None \<Rightarrow> 0 | Some rb \<Rightarrow> cl_Bytes c rb);
         b = b\<lparr>bt_Resource := sl_resource s, bt_Part := sl_part s, bt_Seq := sl_seq s\<rparr>;
         b = (if pp_isStream p then b else b\<lparr>bt_Cursor := cursorOf (sl_resource s) (sl_part s) (bt_Last b) rows\<rparr>);
         s = s\<lparr>sl_seq := sl_seq s + 1\<rparr>
     in case slot_send c b p of
          (p, Some e) \<Rightarrow> ((p, s), Some e)
        | (p, None) \<Rightarrow> ((publish (sl_resource s) (BatchBuffered (int rows) nbytes) p, s), None))"

definition slot_Drained :: "'k calls \<Rightarrow> 'k pipeline \<times> slot \<Rightarrow> meta \<Rightarrow> nat \<Rightarrow> ('k pipeline \<times> slot) \<times> goerr option" where
  "slot_Drained c r m n = (case r of (p, s) \<Rightarrow>
     let cursor =
           (if mt_LSN m \<noteq> [] then NewStreamDelta (sl_resource s) (mt_LSN m) (mt_Seq m)
            else if slice (mt_Key m) \<noteq> [] then NewShardDelta (sl_resource s) (sl_part s) (slice (mt_Key m))
            else NewCoarseDone (sl_resource s) (sl_part s) (int n));
         b = NewMarker\<lparr>bt_Resource := sl_resource s, bt_Part := sl_part s, bt_Cursor := Some cursor\<rparr>
     in case slot_send c b p of (p, e) \<Rightarrow> ((p, s), e))"

definition slot_receiver :: "'k calls \<Rightarrow> ('k pipeline \<times> slot) receiver" where
  "slot_receiver c = \<lparr>rv_Chunk = slot_Chunk c, rv_Drained = slot_Drained c\<rparr>"

section \<open>The inlet\<close>

definition schemaChanged :: "string \<Rightarrow> goerr" where
  "schemaChanged resource = ErrBlock resource [''source schema changed within the running pipeline'']"

text \<open>The layout a builder writes: the supplied schema with the CDC and audit columns of the run.\<close>

definition builder_schema ::
  "'k calls \<Rightarrow> audit_config option \<Rightarrow> string \<Rightarrow> schema \<Rightarrow> schema res" where
  "builder_schema c audit resource supplied =
     check_err (ValidateReservedFields (cl_Fold c) supplied)
       (let schema = (if sc_Resource supplied = [] then supplied\<lparr>sc_Resource := resource\<rparr> else supplied) in
        if sc_Resource schema \<noteq> resource then Inl (ErrMsg ''pipeline: schema resource does not match builder resource'')
        else case audit of
          None \<Rightarrow> Inr schema
        | Some a \<Rightarrow> WithAuditFields (cl_Fold c) (if au_CDCAppend a then AsCDCAppendHistory schema else schema) (au_CDC a))"

definition open_builder ::
  "string \<Rightarrow> int \<Rightarrow> arrow_schema \<Rightarrow> 'k pipeline \<Rightarrow> 'k pipeline \<times> goerr option" where
  "open_builder resource part want p =
     (if map_of (pp_builders p) (resource, part) \<noteq> None then (p, Some (ErrMsg ''pipeline: builder already open''))
      else case NewBuilder want (pp_opts p) of
        None \<Rightarrow> (p, Some (ErrMsg ''panicked''))
      | Some b \<Rightarrow>
          (p\<lparr>pp_builders := AList.update (resource, part)
               \<lparr>pt_builder = b, pt_slot = \<lparr>sl_resource = resource, sl_part = part, sl_seq = 0\<rparr>\<rparr> (pp_builders p)\<rparr>, None))"

definition inlet_Builder ::
  "'k calls \<Rightarrow> string \<Rightarrow> int \<Rightarrow> schema \<Rightarrow> 'k pipeline \<Rightarrow> 'k pipeline \<times> goerr option" where
  "inlet_Builder c resource part supplied p =
     (case builder_schema c (cf_Audit (pp_cfg p)) resource supplied of
        Inl e \<Rightarrow> (p, Some (ErrWrap ''pipeline'' e))
      | Inr schema \<Rightarrow>
          (case map_of (pp_schemas p) resource of
             Some registered \<Rightarrow>
               if \<not> Schema_Equal (rg_model registered) schema then (p, Some (schemaChanged resource))
               else open_builder resource part (rg_arrow registered) p
           | None \<Rightarrow>
               open_builder resource part (Schema schema)
                 (p\<lparr>pp_schemas := AList.update resource
                      \<lparr>rg_model = schema, rg_arrow = Schema schema, rg_preparation = None\<rparr> (pp_schemas p)\<rparr>)))"

text \<open>The lineage values appended after the source's own.\<close>

definition audit_calls :: "pipeline_config \<Rightarrow> meta \<Rightarrow> append_call list" where
  "audit_calls cfg m = (case cf_Audit cfg of
     None \<Rightarrow> []
   | Some a \<Rightarrow>
       [AString (cf_Run cfg), ATimestamp (au_RunStartedAt a)] @
       (if au_CDC a then
          AString (OperationName (mt_Op m)) #
          (if mt_LSN m = [] then [ANull, ANull] else [AString (mt_LSN m), AInt64 (to_int64 (mt_Seq m))])
        else []))"

section \<open>Calls on a part's builder\<close>

definition put_part :: "string \<times> int \<Rightarrow> builder \<Rightarrow> slot \<Rightarrow> 'k pipeline \<Rightarrow> 'k pipeline" where
  "put_part key b s p = p\<lparr>pp_builders := AList.update key \<lparr>pt_builder = b, pt_slot = s\<rparr> (pp_builders p)\<rparr>"

definition part_Append :: "string \<times> int \<Rightarrow> append_call \<Rightarrow> 'k pipeline \<Rightarrow> 'k pipeline" where
  "part_Append key a p = (case map_of (pp_builders p) key of
     None \<Rightarrow> p
   | Some pt \<Rightarrow> put_part key (do_append a (pt_builder pt)) (pt_slot pt) p)"

text \<open>A row ends through the audit writer when the run has one.\<close>

definition part_EndRow :: "'k calls \<Rightarrow> string \<times> int \<Rightarrow> meta \<Rightarrow> 'k pipeline \<Rightarrow> 'k pipeline \<times> goerr option" where
  "part_EndRow c key m p = (case map_of (pp_builders p) key of
     None \<Rightarrow> (p, Some ErrBuilderClosed)
   | Some pt \<Rightarrow>
       (case EndRow (slot_receiver c) (p, pt_slot pt) m (fold do_append (audit_calls (pp_cfg p) m) (pt_builder pt)) of
          (b, (p, s), e) \<Rightarrow> (put_part key b s p, e)))"

definition part_Flush :: "'k calls \<Rightarrow> string \<times> int \<Rightarrow> 'k pipeline \<Rightarrow> 'k pipeline \<times> goerr option" where
  "part_Flush c key p = (case map_of (pp_builders p) key of
     None \<Rightarrow> (p, Some ErrBuilderClosed)
   | Some pt \<Rightarrow>
       (case Builder_Flush (slot_receiver c) (p, pt_slot pt) (pt_builder pt) of
          (b, (p, s), e) \<Rightarrow> (put_part key b s p, e)))"

definition part_Drain :: "'k calls \<Rightarrow> string \<times> int \<Rightarrow> meta \<Rightarrow> 'k pipeline \<Rightarrow> 'k pipeline \<times> goerr option" where
  "part_Drain c key m p = (case map_of (pp_builders p) key of
     None \<Rightarrow> (p, Some ErrBuilderClosed)
   | Some pt \<Rightarrow>
       (case Builder_Drain (slot_receiver c) (p, pt_slot pt) m (pt_builder pt) of
          (b, (p, s), e) \<Rightarrow> (put_part key b s p, e)))"

definition part_Close :: "string \<times> int \<Rightarrow> 'k pipeline \<Rightarrow> 'k pipeline" where
  "part_Close key p = (case map_of (pp_builders p) key of
     None \<Rightarrow> p
   | Some pt \<Rightarrow> put_part key (Builder_Close (pt_builder pt)) (pt_slot pt) p)"

text \<open>The flush timer asks every builder.\<close>

definition ticker :: "'k pipeline \<Rightarrow> 'k pipeline" where
  "ticker p = p\<lparr>pp_builders := map (\<lambda>(key, pt). (key, pt\<lparr>pt_builder := RequestFlush (pt_builder pt)\<rparr>)) (pp_builders p)\<rparr>"

section \<open>The stream inlet\<close>

definition on_stream :: "(stream_inlet \<Rightarrow> stream_inlet) \<Rightarrow> 'k pipeline \<Rightarrow> 'k pipeline" where
  "on_stream f p = p\<lparr>pp_stream := f (pp_stream p)\<rparr>"

definition stream_ready :: "'k pipeline \<Rightarrow> goerr option" where
  "stream_ready p =
     (case pp_errVal p of
        Some e \<Rightarrow> Some e
      | None \<Rightarrow> if in_closed (pp_stream p) then Some ErrPipelineClosed else if pp_done p then Some (failure p) else None)"

text \<open>\<^verbatim>\<open>fail\<close> records the error and returns the first one recorded.\<close>

definition stream_fail :: "goerr \<Rightarrow> 'k pipeline \<Rightarrow> 'k pipeline \<times> goerr option" where
  "stream_fail e p = (let p = setErr e p in (p, pp_errVal p))"

definition find_writer :: "'k pipeline \<Rightarrow> string \<Rightarrow> stream_writer option" where
  "find_writer p resource = find (\<lambda>w. sw_resource w = resource) (in_writers (pp_stream p))"

definition update_writer :: "string \<Rightarrow> (stream_writer \<Rightarrow> stream_writer) \<Rightarrow> 'k pipeline \<Rightarrow> 'k pipeline" where
  "update_writer resource f =
     on_stream (\<lambda>i. i\<lparr>in_writers := map (\<lambda>w. if sw_resource w = resource then f w else w) (in_writers i)\<rparr>)"

definition writer_key :: "stream_writer \<Rightarrow> string \<times> int" where
  "writer_key w = (sw_resource w, sw_part w)"

definition stream_Builder ::
  "'k calls \<Rightarrow> string \<Rightarrow> int \<Rightarrow> schema \<Rightarrow> 'k pipeline \<Rightarrow> 'k pipeline \<times> goerr option" where
  "stream_Builder c resource part schema p =
     (case stream_ready p of
        Some e \<Rightarrow> (p, Some e)
      | None \<Rightarrow>
          if find_writer p resource \<noteq> None then (p, Some (ErrMsg ''pipeline: serial stream permits one builder per resource''))
          else case inlet_Builder c resource part schema p of
            (p, Some e) \<Rightarrow> (p, Some e)
          | (p, None) \<Rightarrow>
              (on_stream (\<lambda>i. i\<lparr>in_writers := in_writers i @
                 [\<lparr>sw_resource = resource, sw_part = part, sw_inRow = False, sw_closed = False\<rparr>]\<rparr>) p, None))"

subsection \<open>Stream writers\<close>

definition stream_Flush :: "'k calls \<Rightarrow> string \<Rightarrow> 'k pipeline \<Rightarrow> 'k pipeline \<times> goerr option" where
  "stream_Flush c resource p =
     (case pp_errVal p of
        Some e \<Rightarrow> (p, Some e)
      | None \<Rightarrow>
          (case find_writer p resource of
             None \<Rightarrow> stream_fail ErrBuilderClosed p
           | Some w \<Rightarrow>
               if sw_closed w then stream_fail ErrBuilderClosed p
               else if sw_inRow w then stream_fail (ErrMsg ''pipeline: stream flush inside row'') p
               else case part_Flush c (writer_key w) p of
                 (p, Some e) \<Rightarrow> stream_fail e p
               | (p, None) \<Rightarrow> (p, None)))"

text \<open>A writer that the inlet no longer has was replaced, and closed before that.\<close>

definition beforeWrite :: "'k calls \<Rightarrow> string \<Rightarrow> 'k pipeline \<Rightarrow> 'k pipeline \<times> bool" where
  "beforeWrite c resource p =
     (if in_sealed (pp_stream p) then (setErr ErrEpochMismatch p, False)
      else
        let p = on_stream (\<lambda>i. i\<lparr>in_touched := True, in_epochWritten := True, in_completed := []\<rparr>) p in
        if stream_ready p \<noteq> None then (p, False)
        else case find_writer p resource of
          None \<Rightarrow> (setErr ErrBuilderClosed p, False)
        | Some w \<Rightarrow>
            if sw_closed w then (setErr ErrBuilderClosed p, False)
            else
              (case (case in_active (pp_stream p) of
                       Some other \<Rightarrow> if in_strict (pp_stream p) \<and> other \<noteq> resource then stream_Flush c other p else (p, None)
                     | None \<Rightarrow> (p, None)) of
                 (p, Some e) \<Rightarrow> (p, False)
               | (p, None) \<Rightarrow>
                   (update_writer resource (\<lambda>w. w\<lparr>sw_inRow := True\<rparr>) (on_stream (\<lambda>i. i\<lparr>in_active := Some resource\<rparr>) p), True)))"

definition key_of :: "'k pipeline \<Rightarrow> string \<Rightarrow> string \<times> int" where
  "key_of p resource = (case find_writer p resource of None \<Rightarrow> (resource, 0) | Some w \<Rightarrow> writer_key w)"

definition stream_Append :: "'k calls \<Rightarrow> string \<Rightarrow> append_call \<Rightarrow> 'k pipeline \<Rightarrow> 'k pipeline" where
  "stream_Append c resource a p =
     (case beforeWrite c resource p of
        (p, False) \<Rightarrow> p
      | (p, True) \<Rightarrow> part_Append (key_of p resource) a p)"

definition stream_EndRow :: "'k calls \<Rightarrow> string \<Rightarrow> meta \<Rightarrow> 'k pipeline \<Rightarrow> 'k pipeline \<times> goerr option" where
  "stream_EndRow c resource m p =
     (case beforeWrite c resource p of
        (p, False) \<Rightarrow> (p, Some (failure p))
      | (p, True) \<Rightarrow>
          (case part_EndRow c (key_of p resource) m p of
             (p, Some e) \<Rightarrow> stream_fail e p
           | (p, None) \<Rightarrow> (update_writer resource (\<lambda>w. w\<lparr>sw_inRow := False\<rparr>) p, None)))"

definition stream_Close :: "'k calls \<Rightarrow> string \<Rightarrow> 'k pipeline \<Rightarrow> 'k pipeline \<times> goerr option" where
  "stream_Close c resource p =
     (case find_writer p resource of
        None \<Rightarrow> (p, None)
      | Some w \<Rightarrow>
          if sw_closed w then (p, None)
          else case stream_Flush c resource p of
            (p, e) \<Rightarrow>
              (part_Close (writer_key w)
                 (on_stream (\<lambda>i. if in_active i = Some resource then i\<lparr>in_active := None\<rparr> else i)
                   (update_writer resource (\<lambda>w. w\<lparr>sw_closed := True\<rparr>) p)), e))"

fun flush_each :: "'k calls \<Rightarrow> string list \<Rightarrow> 'k pipeline \<Rightarrow> 'k pipeline \<times> goerr option" where
  "flush_each c [] p = (p, None)"
| "flush_each c (resource # rest) p = (case stream_Flush c resource p of
     (p, Some e) \<Rightarrow> (p, Some e)
   | (p, None) \<Rightarrow> flush_each c rest p)"

definition stream_flush :: "'k calls \<Rightarrow> 'k pipeline \<Rightarrow> 'k pipeline \<times> goerr option" where
  "stream_flush c p = flush_each c (map sw_resource (filter (\<lambda>w. \<not> sw_closed w) (in_writers (pp_stream p)))) p"

subsection \<open>Controls\<close>

definition open_txn :: "stream_inlet \<Rightarrow> domain_key \<Rightarrow> string" where
  "open_txn i d = (case map_of (in_transactions i) d of None \<Rightarrow> [] | Some txn \<Rightarrow> txn)"

definition validateControl :: "stream_inlet \<Rightarrow> control \<Rightarrow> goerr option" where
  "validateControl i ctl =
     orelse_err (Control_Validate ctl)
       (let txn = open_txn i (ct_Domain ctl) in
        case ct_Kind ctl of
          TxnBegin \<Rightarrow> if txn \<noteq> [] then Some (ErrMsg ''pipeline: transaction already open'') else None
        | TxnEnd \<Rightarrow> if txn \<noteq> ct_TxnID ctl then Some (ErrMsg ''pipeline: transaction end does not match begin'') else None
        | ProgressBoundary \<Rightarrow> if txn \<noteq> [] then Some (ErrMsg ''pipeline: progress control inside transaction'') else None
        | MemberActivated \<Rightarrow> if txn \<noteq> [] then Some (ErrMsg ''pipeline: progress control inside transaction'') else None
        | _ \<Rightarrow> None)"

definition acceptControl :: "control \<Rightarrow> stream_inlet \<Rightarrow> stream_inlet" where
  "acceptControl ctl i = (case ct_Kind ctl of
     TxnBegin \<Rightarrow> i\<lparr>in_transactions := AList.update (ct_Domain ctl) (ct_TxnID ctl) (in_transactions i)\<rparr>
   | TxnEnd \<Rightarrow> i\<lparr>in_transactions := AList.delete (ct_Domain ctl) (in_transactions i)\<rparr>
   | _ \<Rightarrow> i)"

definition complete_control :: "control \<Rightarrow> stream_inlet \<Rightarrow> stream_inlet" where
  "complete_control ctl i =
     (let i = acceptControl ctl i in
      if in_epoch i \<noteq> None \<and> in_transactions i = [] \<and> (ct_Kind ctl = TxnEnd \<or> ct_Kind ctl = ProgressBoundary)
      then i\<lparr>in_completed := AList.update (ct_Domain ctl) (ct_Position ctl) (in_completed i)\<rparr>
      else i)"

text \<open>
  Waiting for the control: nothing is queued behind it, so the writer drains the channel and leaves the
  receipt, unless it fails before. The call's context may end before the call and while it waits.
\<close>

definition await_control :: "'k calls \<Rightarrow> goerr option \<Rightarrow> control \<Rightarrow> 'k pipeline \<Rightarrow> 'k pipeline \<times> (nat \<times> control) res" where
  "await_control c late ctl p =
     (case interleave c p of (p, _) \<Rightarrow>
        let p = writer_rounds c (length (pp_batchCh p)) p in
        case pp_receipt p of
          None \<Rightarrow> (p, Inl (failure p))
        | Some receipt \<Rightarrow>
            (case late of
               Some e \<Rightarrow> (setErr e p, Inl (failure (setErr e p)))
             | None \<Rightarrow>
                 (case stream_ready p of
                    Some e \<Rightarrow> (p, Inl e)
                  | None \<Rightarrow> (on_stream (complete_control ctl) p, Inr receipt))))"

definition Barrier ::
  "'k calls \<Rightarrow> goerr option \<Rightarrow> goerr option \<Rightarrow> control \<Rightarrow> 'k pipeline \<Rightarrow> 'k pipeline \<times> (nat \<times> control) res" where
  "Barrier c early late ctl p =
     (if \<not> pp_isStream p then (p, Inl (ErrMsg ''pipeline: barriers require NewStream''))
      else if in_sealed (pp_stream p) then (p, Inl ErrEpochMismatch)
      else
        let p = on_stream (\<lambda>i. i\<lparr>in_touched := True\<rparr>) p;
            fail = (\<lambda>e p. let p = setErr e p in (p, Inl (failure p)))
        in case stream_ready p of
             Some e \<Rightarrow> (p, Inl e)
           | None \<Rightarrow>
               (case orelse_err early (validateControl (pp_stream p) ctl) of
                  Some e \<Rightarrow> fail e p
                | None \<Rightarrow>
                    (case NewControl ctl of
                       Inl e \<Rightarrow> fail e p
                     | Inr b \<Rightarrow>
                         (case stream_flush c p of
                            (p, Some e) \<Rightarrow> fail e p
                          | (p, None) \<Rightarrow>
                              let p = on_stream (\<lambda>i. i\<lparr>in_sequence := in_sequence i + 1\<rparr>) p;
                                  b = b\<lparr>bt_Seq := in_sequence (pp_stream p)\<rparr>
                              in case Pipeline_send c \<lparr>qu_batch = b, qu_epoch = None\<rparr> (p\<lparr>pp_receipt := None\<rparr>) of
                                   (p, Some e) \<Rightarrow> (p, Inl e)
                                 | (p, None) \<Rightarrow> await_control c late ctl p))))"

subsection \<open>Epochs\<close>

definition BindEpoch :: "epoch_ref \<Rightarrow> 'k pipeline \<Rightarrow> 'k pipeline \<times> goerr option" where
  "BindEpoch ref p =
     (case EpochRef_Validate ref of
        Some e \<Rightarrow> (p, Some e)
      | None \<Rightarrow>
          if \<not> pp_isStream p then (p, Some ErrEpochMismatch)
          else case stream_ready p of
            Some e \<Rightarrow> (p, Some e)
          | None \<Rightarrow>
              if (case in_epoch (pp_stream p) of
                    None \<Rightarrow> in_touched (pp_stream p)
                  | Some epoch \<Rightarrow> \<not> in_sealed (pp_stream p) \<or> er_Attempt ref \<noteq> er_Attempt epoch \<or>
                      er_Epoch ref \<noteq> wrap64 (er_Epoch epoch + 1))
              then (p, Some ErrEpochMismatch)
              else (on_stream (\<lambda>i. i\<lparr>in_epoch := Some ref, in_sealed := False, in_epochWritten := False, in_completed := [],
                      in_epochRows := 0, in_epochBytes := 0, in_epochResources := []\<rparr>) p, None))"

definition SealEpoch :: "'k pipeline \<Rightarrow> 'k pipeline \<times> epoch_completion res" where
  "SealEpoch p =
     (if \<not> pp_isStream p then (p, Inl ErrEpochMismatch)
      else case stream_ready p of
        Some e \<Rightarrow> (p, Inl e)
      | None \<Rightarrow>
          let i = pp_stream p in
          (case in_epoch i of
             None \<Rightarrow> (p, Inl ErrIncompleteCoverage)
           | Some epoch \<Rightarrow>
               if in_sealed i \<or> in_transactions i \<noteq> [] \<or> in_completed i = [] then (p, Inl ErrIncompleteCoverage)
               else (on_stream (\<lambda>i. i\<lparr>in_sealed := True\<rparr>) p,
                     Inr (NewWithMessageSchemas (Binding epoch) (in_completed i) (in_epochRows i) (in_epochBytes i)
                       (in_epochResources i) (pp_messageSchemas p)))))"

subsection \<open>Message layouts\<close>

definition set_layout :: "string \<Rightarrow> message_layout \<Rightarrow> 'k pipeline \<Rightarrow> 'k pipeline" where
  "set_layout resource layout p =
     p\<lparr>pp_messageSchemas := Some (AList.update resource layout (layouts_list (pp_messageSchemas p)))\<rparr>"

definition message_err :: "'k calls \<Rightarrow> string \<Rightarrow> schema \<Rightarrow> message_layout \<Rightarrow> 'k pipeline \<Rightarrow> goerr option" where
  "message_err c resource model layout p =
     (let i = pp_stream p in
      if in_epoch i = None \<or> in_sealed i \<or> in_epochWritten i \<or> in_transactions i \<noteq> [] then Some ErrEpochMismatch
      else orelse_err (Policy_Validate (cf_MessageSchemaPolicy (pp_cfg p)))
        (orelse_err (MessageLayout_Validate (cl_Fold c) layout)
          (if sc_Resource model \<noteq> resource then Some (ErrMsg ''message schema resource differs'')
           else orelse_err (ValidateReservedFields (cl_Fold c) model)
             (orelse_err (Validate model)
               (if \<not> list_all (\<lambda>f. f \<in> set (sc_Fields model)) (ml_Fields layout)
                then Some (ErrMsg ''message layout differs from builder model'')
                else case map_of (layouts_list (pp_messageSchemas p)) resource of
                  None \<Rightarrow> None
                | Some previous \<Rightarrow> CheckMessageChange (cl_Fold c) resource previous layout (cf_MessageSchemaPolicy (pp_cfg p)))))))"

definition drop_writer :: "string \<Rightarrow> 'k pipeline \<Rightarrow> 'k pipeline" where
  "drop_writer resource p =
     (on_stream (\<lambda>i. i\<lparr>in_writers := filter (\<lambda>w. sw_resource w \<noteq> resource) (in_writers i)\<rparr>) p)
       \<lparr>pp_schemas := AList.delete resource (pp_schemas p),
        pp_builders := filter (\<lambda>(key, _). fst key \<noteq> resource) (pp_builders p)\<rparr>"

definition MessageBuilder ::
  "'k calls \<Rightarrow> goerr option \<Rightarrow> string \<Rightarrow> schema \<Rightarrow> message_layout \<Rightarrow> 'k pipeline \<Rightarrow> 'k pipeline \<times> goerr option" where
  "MessageBuilder c ctx resource model layout p =
     (case orelse_err ctx (orelse_err (stream_ready p) (message_err c resource model layout p)) of
        Some e \<Rightarrow> (p, Some e)
      | None \<Rightarrow>
          let reopen = (\<lambda>p. case stream_Builder c resource 0 model p of
                (p, Some e) \<Rightarrow> (p, Some e)
              | (p, None) \<Rightarrow> (set_layout resource layout p, None))
          in case find_writer p resource of
               None \<Rightarrow> reopen p
             | Some w \<Rightarrow>
                 if (case map_of (pp_schemas p) resource of
                       None \<Rightarrow> False
                     | Some registered \<Rightarrow> Schema_Equal (rg_model registered) model)
                 then (set_layout resource layout p, None)
                 else case stream_Close c resource p of
                   (p, Some e) \<Rightarrow> (p, Some e)
                 | (p, None) \<Rightarrow> reopen (drop_writer resource p))"

section \<open>The end of a run\<close>

fun flush_parts :: "'k calls \<Rightarrow> (string \<times> int) list \<Rightarrow> 'k pipeline \<Rightarrow> 'k pipeline" where
  "flush_parts c [] p = p"
| "flush_parts c (key # rest) p =
     (case map_of (pp_builders p) key of
        None \<Rightarrow> flush_parts c rest p
      | Some pt \<Rightarrow>
          if bd_closed (pt_builder pt) then flush_parts c rest p
          else case part_Flush c key p of
            (p, Some e) \<Rightarrow> setErr e p
          | (p, None) \<Rightarrow> flush_parts c rest p)"

text \<open>The builders are flushed in the order of their registration, one of the orders Go may choose.\<close>

definition CloseIngest :: "'k calls \<Rightarrow> goerr option \<Rightarrow> 'k pipeline \<Rightarrow> 'k pipeline" where
  "CloseIngest c extractErr p =
     (let p =
        (if pp_isStream p then
           (let p = on_stream (\<lambda>i. i\<lparr>in_closed := True\<rparr>) p;
                extractErr = (if extractErr = None \<and> in_transactions (pp_stream p) \<noteq> []
                  then Some (ErrMsg ''pipeline: ingestion closed with an open transaction'') else extractErr)
            in case extractErr of
                 Some e \<Rightarrow> setErr e p
               | None \<Rightarrow> (case stream_flush c p of (p, Some e) \<Rightarrow> setErr e p | (p, None) \<Rightarrow> p))
         else if extractErr = None then flush_parts c (map fst (pp_builders p)) p
         else p)
      in p\<lparr>pp_builders := map (\<lambda>(key, pt). (key, pt\<lparr>pt_builder := Builder_Close (pt_builder pt)\<rparr>)) (pp_builders p)\<rparr>)"

definition Wait :: "'k calls \<Rightarrow> 'k pipeline \<Rightarrow> 'k pipeline \<times> goerr option" where
  "Wait c p = (let p = writer_rounds c (length (pp_batchCh p)) p in (p, pp_errVal p))"

end
