(* ===== verification/PipelineWriter.thy ===== *)
theory PipelineWriter
  imports Pipeline
begin

text \<open>
  Lemmas about the pipeline's writer and its slots: what the writer and the schedule leave alone, that
  every queued batch is applied in order and counted, that a slot is a receiver of batches, and what the
  calls on one part's builder keep.
\<close>

section \<open>What the writer leaves alone\<close>

definition producer_view :: "stream_inlet \<Rightarrow> stream_inlet" where
  "producer_view i = i\<lparr>in_epochRows := 0, in_epochBytes := 0, in_epochResources := []\<rparr>"

lemma producer_view_eq:
  "producer_view i = producer_view j \<longleftrightarrow>
    in_strict i = in_strict j \<and> in_writers i = in_writers j \<and> in_active i = in_active j \<and>
    in_transactions i = in_transactions j \<and> in_sequence i = in_sequence j \<and> in_closed i = in_closed j \<and>
    in_epoch i = in_epoch j \<and> in_touched i = in_touched j \<and> in_sealed i = in_sealed j \<and>
    in_epochWritten i = in_epochWritten j \<and> in_completed i = in_completed j"
  by (cases i; cases j) (auto simp: producer_view_def)

lemma producer_view_count [simp]: "producer_view (count_applied b receipt i) = producer_view i"
  by (simp add: producer_view_def count_applied_def Let_def)

text \<open>\<open>p'\<close> follows \<open>p\<close> by steps of the writer or the schedule alone.\<close>

definition follows :: "'k pipeline \<Rightarrow> 'k pipeline \<Rightarrow> bool" where
  "follows p p' \<longleftrightarrow>
     pp_cfg p' = pp_cfg p \<and> pp_opts p' = pp_opts p \<and> pp_isStream p' = pp_isStream p \<and> pp_builders p' = pp_builders p \<and>
     pp_messageSchemas p' = pp_messageSchemas p \<and> producer_view (pp_stream p') = producer_view (pp_stream p) \<and>
     (pp_errVal p \<noteq> None \<longrightarrow> pp_errVal p' = pp_errVal p) \<and> (pp_done p \<longrightarrow> pp_done p')"

lemma follows_refl [simp]: "follows p p"
  by (simp add: follows_def)

lemma follows_trans: "follows p q \<Longrightarrow> follows q r \<Longrightarrow> follows p r"
  by (auto simp: follows_def)

lemma setErr_follows: "follows p q \<Longrightarrow> follows p (setErr e q)"
  by (auto simp: follows_def setErr_def)

lemma publish_follows: "follows p q \<Longrightarrow> follows p (publish r ev q)"
  by (auto simp: follows_def publish_def)

lemma prepare_batch_follows:
  assumes "prepare_batch c b p = (p', e)"
  shows "follows p p' \<and> pp_sent p' = pp_sent p \<and> pp_batchCh p' = pp_batchCh p \<and> pp_applied p' = pp_applied p \<and>
    pp_stream p' = pp_stream p \<and> pp_errVal p' = pp_errVal p"
  using assms
  by (auto simp: prepare_batch_def follows_def split: option.splits prod.splits)

lemma setErr_sel [simp]:
  "pp_sent (setErr e p) = pp_sent p" "pp_batchCh (setErr e p) = pp_batchCh p" "pp_applied (setErr e p) = pp_applied p"
  "pp_errVal (setErr e p) = Some (case pp_errVal p of None \<Rightarrow> e | Some first \<Rightarrow> first)" "pp_done (setErr e p)"
  "pp_stream (setErr e p) = pp_stream p" "pp_builders (setErr e p) = pp_builders p" "pp_cfg (setErr e p) = pp_cfg p"
  "pp_opts (setErr e p) = pp_opts p" "pp_isStream (setErr e p) = pp_isStream p"
  by (simp_all add: setErr_def)

lemma publish_sel [simp]:
  "pp_sent (publish r ev p) = pp_sent p" "pp_batchCh (publish r ev p) = pp_batchCh p" "pp_applied (publish r ev p) = pp_applied p"
  "pp_errVal (publish r ev p) = pp_errVal p" "pp_done (publish r ev p) = pp_done p"
  "pp_stream (publish r ev p) = pp_stream p" "pp_builders (publish r ev p) = pp_builders p" "pp_cfg (publish r ev p) = pp_cfg p"
  "pp_opts (publish r ev p) = pp_opts p" "pp_isStream (publish r ev p) = pp_isStream p"
  by (simp_all add: publish_def)

definition batch_list :: "queued_batch \<Rightarrow> sent_batch list" where
  "batch_list q = (case sent_of q of None \<Rightarrow> [] | Some s \<Rightarrow> [s])"

text \<open>An accepted receipt counts the batch and records it; a rejected one is an error.\<close>

lemma accept_receipt_cases:
  obtains (ok) "pp_errVal (accept_receipt c q policy receipt p) = pp_errVal p"
      "pp_stream (accept_receipt c q policy receipt p) =
         (if qu_epoch q \<noteq> None then count_applied (qu_batch q) receipt (pp_stream p) else pp_stream p)"
      "pp_applied (accept_receipt c q policy receipt p) =
         pp_applied p @ map (\<lambda>s. \<lparr>ax_sent = s, ax_bytes = rp_Bytes receipt\<rparr>) (batch_list q)"
  | (bad) "pp_errVal (accept_receipt c q policy receipt p) \<noteq> None"
proof (cases "(qu_epoch q \<noteq> None \<and> rp_Rows receipt \<noteq> int (NumRows (qu_batch q))) \<or>
    (sk_EncodedIntegrity (cf_SinkCapabilities (pp_cfg p)) \<and> rp_EncodedCRC receipt = None) \<or>
    rp_WriteCRC receipt \<noteq> IntegrityCRC c (qu_batch q)")
  case True
  then show thesis
    using bad by (auto simp: accept_receipt_def Let_def)
next
  case False
  then show thesis
    using ok by (cases "rp_EncodedCRC receipt") (auto simp: accept_receipt_def Let_def batch_list_def)
qed

lemma accept_receipt_follows:
  "follows p q \<Longrightarrow> follows p (accept_receipt c item policy receipt q) \<and>
    pp_sent (accept_receipt c item policy receipt q) = pp_sent q \<and>
    pp_batchCh (accept_receipt c item policy receipt q) = pp_batchCh q"
  by (cases "rp_EncodedCRC receipt")
    (auto simp: accept_receipt_def Let_def intro!: setErr_follows publish_follows, auto simp: follows_def)

lemma processBatch_follows:
  "follows p (processBatch c q p) \<and> pp_sent (processBatch c q p) = pp_sent p \<and> pp_batchCh (processBatch c q p) = pp_batchCh p"
proof -
  have sink: "follows p (p'\<lparr>pp_sink := s\<rparr>)" if "follows p p'" for p' s
    using that by (simp add: follows_def)
  show ?thesis
    by (auto simp: processBatch_def Let_def dest!: prepare_batch_follows
      intro!: setErr_follows publish_follows accept_receipt_follows [THEN conjunct1] sink
      accept_receipt_follows [OF follows_refl, THEN conjunct2, THEN conjunct1, THEN trans]
      accept_receipt_follows [OF follows_refl, THEN conjunct2, THEN conjunct2, THEN trans]
      split: sum.splits option.splits prod.splits)
qed

lemma writer_follows:
  "follows p (writer c p) \<and> pp_sent (writer c p) = pp_sent p \<and> pp_batchCh (writer c p) = tl (pp_batchCh p)"
proof (cases "pp_batchCh p")
  case (Cons q rest)
  let ?p = "p\<lparr>pp_batchCh := rest\<rparr>"
  have "follows p ?p"
    by (simp add: follows_def)
  then have "follows p (processBatch c q ?p)" "pp_sent (processBatch c q ?p) = pp_sent p" "pp_batchCh (processBatch c q ?p) = rest"
    using follows_trans processBatch_follows [of ?p c q] by auto
  then show ?thesis
    using Cons by (auto simp: writer_def Let_def follows_def setErr_def split: option.splits)
qed (simp add: writer_def)

lemma writer_rounds_follows:
  "follows p (writer_rounds c n p) \<and> pp_sent (writer_rounds c n p) = pp_sent p \<and>
    pp_batchCh (writer_rounds c n p) = drop n (pp_batchCh p)"
proof (induction n)
  case (Suc n)
  then show ?case
    using follows_trans [OF _ writer_follows [THEN conjunct1], of p "writer_rounds c n p" c] writer_follows [of "writer_rounds c n p" c]
    by (auto simp: writer_rounds_def drop_Suc tl_drop)
qed (simp add: writer_rounds_def)

lemma interleave_follows:
  assumes "interleave c p = (p', w)"
  shows "follows p p' \<and> pp_sent p' = pp_sent p \<and> (\<exists>n. pp_batchCh p' = drop n (pp_batchCh p))"
proof (cases "pp_schedule p")
  case (Cons m ms)
  let ?p = "p\<lparr>pp_schedule := ms\<rparr>" and ?q = "writer_rounds c (mo_steps m) (p\<lparr>pp_schedule := ms\<rparr>)"
  have "follows p ?p" by (simp add: follows_def)
  then have q: "follows p ?q" "pp_sent ?q = pp_sent p" "pp_batchCh ?q = drop (mo_steps m) (pp_batchCh p)"
    using follows_trans writer_rounds_follows [of ?p c "mo_steps m"] by auto
  then have "follows p p' \<and> pp_sent p' = pp_sent p \<and> pp_batchCh p' = drop (mo_steps m) (pp_batchCh p)"
    using assms Cons setErr_follows [OF q(1)]
    by (auto simp: interleave_def Let_def follows_def split: interruption.splits)
  then show ?thesis by blast
qed (use assms in \<open>auto simp: interleave_def intro: exI [of _ 0]\<close>)

lemma Pipeline_send_follows:
  assumes "Pipeline_send c q p = (p', e)"
  shows "follows p p' \<and> pp_sent p' = pp_sent p @ (if e = None then batch_list q else []) \<and>
    (\<exists>n. pp_batchCh p' = drop n (pp_batchCh p) @ (if e = None then [q] else [])) \<and>
    (e \<noteq> None \<longrightarrow> pp_done p' \<and> e = Some (failure p'))"
proof -
  obtain p1 w where i: "interleave c p = (p1, w)" by (cases "interleave c p")
  let ?p2 = "writer_rounds c (length (pp_batchCh p1) - 2) p1"
  obtain n where n: "pp_batchCh p1 = drop n (pp_batchCh p)"
    using interleave_follows [OF i] by blast
  have "follows p ?p2" "pp_sent ?p2 = pp_sent p" "pp_batchCh ?p2 = drop (length (pp_batchCh p1) - 2 + n) (pp_batchCh p)"
    using interleave_follows [OF i] writer_rounds_follows [of p1 c "length (pp_batchCh p1) - 2"] follows_trans n by auto
  then show ?thesis
    using assms i by (auto simp: Pipeline_send_def Let_def batch_list_def follows_def failure_def split: if_splits)
qed

section \<open>What the writer accounts for\<close>

definition current_epoch :: "'k pipeline \<Rightarrow> epoch_ref option" where
  "current_epoch p = (if pp_isStream p then in_epoch (pp_stream p) else None)"

lemma current_epoch_update [simp]:
  "current_epoch (p\<lparr>pp_schedule := ms\<rparr>) = current_epoch p" "current_epoch (p\<lparr>pp_batchCh := qs\<rparr>) = current_epoch p"
  "current_epoch (p\<lparr>pp_sink := k\<rparr>) = current_epoch p" "current_epoch (p\<lparr>pp_receipt := r\<rparr>) = current_epoch p"
  "current_epoch (p\<lparr>pp_ctxErr := x\<rparr>) = current_epoch p" "current_epoch (p\<lparr>pp_done := d\<rparr>) = current_epoch p"
  "current_epoch (p\<lparr>pp_sent := ss\<rparr>) = current_epoch p" "current_epoch (p\<lparr>pp_builders := bs\<rparr>) = current_epoch p"
  "current_epoch (p\<lparr>pp_schemas := rs\<rparr>) = current_epoch p" "current_epoch (p\<lparr>pp_messageSchemas := layouts\<rparr>) = current_epoch p"
  "current_epoch (publish resource ev p) = current_epoch p" "current_epoch (setErr e p) = current_epoch p"
  by (simp_all add: current_epoch_def publish_def setErr_def)

definition of_epoch :: "epoch_ref option \<Rightarrow> applied_batch list \<Rightarrow> applied_batch list" where
  "of_epoch e = filter (\<lambda>x. sx_epoch (ax_sent x) = e)"

definition of_resource :: "string \<Rightarrow> applied_batch list \<Rightarrow> applied_batch list" where
  "of_resource r = filter (\<lambda>x. sx_resource (ax_sent x) = r)"

definition total_of :: "applied_batch list \<Rightarrow> resource_totals" where
  "total_of xs = \<lparr>rt_Rows = wrap64 (\<Sum>x\<leftarrow>xs. int (rb_NumRows (sx_rows (ax_sent x)))), rt_Bytes = wrap64 (\<Sum>x\<leftarrow>xs. ax_bytes x)\<rparr>"

definition counted :: "applied_batch list \<Rightarrow> stream_inlet \<Rightarrow> bool" where
  "counted xs i \<longleftrightarrow>
     \<lparr>rt_Rows = in_epochRows i, rt_Bytes = in_epochBytes i\<rparr> = total_of xs \<and>
     (\<forall>r. totals_at (in_epochResources i) r = total_of (of_resource r xs))"

lemma counted_empty: "in_epochRows i = 0 \<Longrightarrow> in_epochBytes i = 0 \<Longrightarrow> in_epochResources i = [] \<Longrightarrow> counted [] i"
  by (simp add: counted_def total_of_def totals_at_def of_resource_def wrap64_def)

lemma counted_snoc:
  assumes "counted xs i" "bt_rows b = Some (sx_rows s)" "sx_resource s = bt_Resource b"
  shows "counted (xs @ [\<lparr>ax_sent = s, ax_bytes = rp_Bytes receipt\<rparr>]) (count_applied b receipt i)"
proof -
  have r: "in_epochRows i = rt_Rows (total_of xs)" "in_epochBytes i = rt_Bytes (total_of xs)"
    "totals_at (in_epochResources i) r = total_of (of_resource r xs)" for r
    using assms(1) by (auto simp: counted_def total_of_def)
  have "totals_at (AList.update k v m) r = (if r = k then v else totals_at m r)" for k v m r
    by (simp add: totals_at_def update_conv')
  then show ?thesis
    using assms(2,3) r by (simp add: counted_def count_applied_def Let_def total_of_def of_resource_def NumRows_def)
qed

text \<open>A queued batch is a completion marker, a control, or rows of the open epoch.\<close>

definition queue_item_ok :: "epoch_ref option \<Rightarrow> queued_batch \<Rightarrow> bool" where
  "queue_item_ok e q \<longleftrightarrow>
     ((bt_Drained (qu_batch q) \<or> bt_Control (qu_batch q) \<noteq> None) = (bt_rows (qu_batch q) = None)) \<and>
     (bt_rows (qu_batch q) \<noteq> None \<longrightarrow> qu_epoch q = e)"

definition accounted :: "'k pipeline \<Rightarrow> bool" where
  "accounted p \<longleftrightarrow> (pp_errVal p = None \<longrightarrow>
     pp_sent p = map ax_sent (pp_applied p) @ concat (map batch_list (pp_batchCh p)) \<and>
     list_all (queue_item_ok (current_epoch p)) (pp_batchCh p) \<and>
     (current_epoch p \<noteq> None \<longrightarrow> counted (of_epoch (current_epoch p) (pp_applied p)) (pp_stream p)))"

lemma batch_list_Nil [simp]: "batch_list q = [] \<longleftrightarrow> bt_rows (qu_batch q) = None"
  by (simp add: batch_list_def sent_of_def split: option.splits)

lemma follows_epoch: "follows p p' \<Longrightarrow> current_epoch p' = current_epoch p"
  by (auto simp: follows_def current_epoch_def producer_view_eq)

lemma accept_receipt_accounted:
  assumes "pp_errVal p = None" "bt_rows (qu_batch q) = Some rows" "qu_epoch q = current_epoch p"
    "pp_sent p = map ax_sent (pp_applied p) @ concat (map batch_list (q # pp_batchCh p))"
    "list_all (queue_item_ok (current_epoch p)) (pp_batchCh p)"
    "current_epoch p \<noteq> None \<longrightarrow> counted (of_epoch (current_epoch p) (pp_applied p)) (pp_stream p)"
  shows "accounted (accept_receipt c q policy receipt p)"
proof (cases rule: accept_receipt_cases [of c q policy receipt p])
  case ok
  let ?p = "accept_receipt c q policy receipt p"
  let ?s = "\<lparr>sx_epoch = qu_epoch q, sx_resource = bt_Resource (qu_batch q), sx_part = bt_Part (qu_batch q), sx_rows = rows,
    sx_ops = bt_ops (qu_batch q)\<rparr>"
  have s: "batch_list q = [?s]"
    using assms(2) by (simp add: batch_list_def sent_of_def)
  note f = accept_receipt_follows [OF follows_refl, of p c q policy receipt]
  have e: "current_epoch ?p = current_epoch p"
    using f follows_epoch by blast
  have "counted (of_epoch (current_epoch p) (pp_applied p) @ [\<lparr>ax_sent = ?s, ax_bytes = rp_Bytes receipt\<rparr>])
      (count_applied (qu_batch q) receipt (pp_stream p))" if "current_epoch p \<noteq> None"
    using assms(2,6) that by (intro counted_snoc) auto
  then show ?thesis
    using f e assms(3,4,5) ok s by (auto simp: accounted_def of_epoch_def)
qed (auto simp: accounted_def)

lemma accounted_err: "pp_errVal p \<noteq> None \<Longrightarrow> accounted p"
  by (auto simp: accounted_def)

lemma accounted_setErr [simp]: "accounted (setErr e p)"
  by (simp add: accounted_def)

lemma processBatch_accounted:
  assumes "pp_errVal p = None" "queue_item_ok (current_epoch p) q" "bt_Control (qu_batch q) = None"
    "pp_sent p = map ax_sent (pp_applied p) @ concat (map batch_list (q # pp_batchCh p))"
    "list_all (queue_item_ok (current_epoch p)) (pp_batchCh p)"
    "current_epoch p \<noteq> None \<longrightarrow> counted (of_epoch (current_epoch p) (pp_applied p)) (pp_stream p)"
  shows "accounted (processBatch c q p)"
proof (cases "bt_Drained (qu_batch q)")
  case True
  then have "batch_list q = []"
    using assms(2) by (simp add: queue_item_ok_def)
  then show ?thesis
    using True assms by (auto simp: processBatch_def Let_def accounted_def split: sum.splits)
next
  case False
  then obtain rows where rows: "bt_rows (qu_batch q) = Some rows" "qu_epoch q = current_epoch p"
    using assms(2,3) by (auto simp: queue_item_ok_def)
  have "accounted (accept_receipt c q policy receipt (p'\<lparr>pp_sink := s\<rparr>))"
    if "prepare_batch c (qu_batch q) p = (p', None)" for p' s policy receipt
    using prepare_batch_follows [OF that] follows_epoch [of p p'] rows assms
    by (intro accept_receipt_accounted [OF _ rows(1)]) (auto simp: follows_def)
  then show ?thesis
    using False by (auto simp: processBatch_def Let_def split: sum.splits option.splits prod.splits)
qed

lemma writer_accounted:
  assumes "accounted p"
  shows "accounted (writer c p)"
proof (cases "pp_batchCh p = [] \<or> pp_errVal p \<noteq> None")
  case True
  then show ?thesis
    using assms writer_follows [of p c] by (auto simp: follows_def writer_def intro: accounted_err split: list.splits)
next
  case False
  then obtain q rest where q: "pp_batchCh p = q # rest" by (cases "pp_batchCh p") auto
  let ?p = "p\<lparr>pp_batchCh := rest\<rparr>"
  have "accounted (processBatch c q ?p)" if "bt_Control (qu_batch q) = None"
    using assms False q that by (intro processBatch_accounted) (auto simp: accounted_def)
  moreover have "accounted (?p\<lparr>pp_receipt := r\<rparr>)" if "bt_Control (qu_batch q) \<noteq> None" for r
    using assms False q that by (auto simp: accounted_def queue_item_ok_def)
  ultimately show ?thesis
    using False q by (auto simp: writer_def Let_def split: option.splits)
qed

lemma writer_rounds_accounted: "accounted p \<Longrightarrow> accounted (writer_rounds c n p)"
  by (induction n) (auto simp: writer_rounds_def writer_accounted)

lemma interleave_accounted: "accounted p \<Longrightarrow> interleave c p = (p', w) \<Longrightarrow> accounted p'"
proof -
  assume a: "accounted p" "interleave c p = (p', w)"
  have "accounted (p\<lparr>pp_schedule := ms\<rparr>)" for ms
    using a(1) by (simp add: accounted_def)
  then have "accounted (writer_rounds c n (p\<lparr>pp_schedule := ms\<rparr>))" for n ms
    by (rule writer_rounds_accounted)
  moreover have "accounted (q\<lparr>pp_ctxErr := x, pp_done := True\<rparr>)" if "accounted q" for q :: "'a pipeline" and x
    using that by (simp add: accounted_def)
  ultimately show ?thesis
    using a by (auto simp: interleave_def Let_def split: list.splits interruption.splits)
qed

lemma Pipeline_send_accounted:
  assumes "accounted p" "Pipeline_send c q p = (p', e)" "queue_item_ok (current_epoch p) q"
  shows "accounted p'"
proof -
  obtain p1 w where i: "interleave c p = (p1, w)" by (cases "interleave c p")
  let ?p2 = "writer_rounds c (length (pp_batchCh p1) - 2) p1"
  have "accounted ?p2"
    using assms(1) i interleave_accounted writer_rounds_accounted by blast
  moreover have "current_epoch ?p2 = current_epoch p"
    using interleave_follows [OF i] writer_rounds_follows [of p1 c "length (pp_batchCh p1) - 2"] follows_epoch follows_trans by blast
  ultimately show ?thesis
    using assms(2,3) i
    by (auto simp: Pipeline_send_def Let_def accounted_def batch_list_def split: if_splits)
qed

section \<open>A slot receives batches\<close>

definition slot_key :: "slot \<Rightarrow> string \<times> int" where
  "slot_key s = (sl_resource s, sl_part s)"

text \<open>The batches of a part queued in the open epoch.\<close>

definition handed :: "'k pipeline \<Rightarrow> string \<times> int \<Rightarrow> (record_batch \<times> operation list) list" where
  "handed p key =
     map (\<lambda>x. (sx_rows x, sx_ops x)) (filter (\<lambda>x. sx_epoch x = current_epoch p \<and> (sx_resource x, sx_part x) = key) (pp_sent p))"

definition slot_received :: "'k pipeline \<times> slot \<Rightarrow> (record_batch \<times> operation list) list" where
  "slot_received r = handed (fst r) (slot_key (snd r))"

definition new_batches :: "'k pipeline \<Rightarrow> string \<times> int \<Rightarrow> sent_batch list \<Rightarrow> bool" where
  "new_batches p key new \<longleftrightarrow> list_all (\<lambda>x. sx_epoch x = current_epoch p \<and> (sx_resource x, sx_part x) = key) new"

definition batch_content :: "batch \<Rightarrow> (record_batch \<times> operation list) list" where
  "batch_content b = (case bt_rows b of None \<Rightarrow> [] | Some rb \<Rightarrow> [(rb, bt_ops b)])"

lemma slot_send_step:
  assumes "slot_send c b p = (p', e)" "bt_Resource b = sl_resource s" "bt_Part b = sl_part s"
  shows "follows p p' \<and> (e \<noteq> None \<longrightarrow> pp_sent p' = pp_sent p) \<and>
    (\<exists>new. pp_sent p' = pp_sent p @ new \<and> new_batches p (slot_key s) new \<and>
      (e = None \<longrightarrow> map (\<lambda>x. (sx_rows x, sx_ops x)) new = batch_content b))"
  using Pipeline_send_follows [OF assms(1) [unfolded slot_send_def]] assms(2,3)
  by (auto simp: new_batches_def batch_list_def sent_of_def slot_key_def current_epoch_def batch_content_def split: option.splits if_splits)

lemma slot_Chunk_send:
  assumes "slot_Chunk c (p, s) b = ((p', s'), e)"
  obtains b1 p1 where "slot_send c b1 p = (p1, e)" "p' = p1 \<or> (\<exists>ev. p' = publish (sl_resource s) ev p1)"
    "bt_Resource b1 = sl_resource s" "bt_Part b1 = sl_part s" "batch_content b1 = batch_content b" "slot_key s' = slot_key s"
    "bt_Drained b1 = bt_Drained b" "bt_Control b1 = bt_Control b" "bt_rows b1 = bt_rows b"
proof (rule that)
  let ?b = "b\<lparr>bt_Resource := sl_resource s, bt_Part := sl_part s, bt_Seq := sl_seq s\<rparr>"
  let ?b1 = "if pp_isStream p then ?b else ?b\<lparr>bt_Cursor := cursorOf (sl_resource s) (sl_part s) (bt_Last b) (NumRows b)\<rparr>"
  show "slot_send c ?b1 p = (fst (slot_send c ?b1 p), e)"
    "p' = fst (slot_send c ?b1 p) \<or> (\<exists>ev. p' = publish (sl_resource s) ev (fst (slot_send c ?b1 p)))"
    using assms by (auto simp: slot_Chunk_def Let_def split: prod.splits option.splits)
  show "slot_key s' = slot_key s"
    using assms by (auto simp: slot_Chunk_def Let_def slot_key_def split: prod.splits option.splits)
qed (auto simp: batch_content_def split: option.splits)

lemma slot_Chunk_step:
  assumes "slot_Chunk c (p, s) b = ((p', s'), e)"
  shows "follows p p' \<and> slot_key s' = slot_key s \<and> (e \<noteq> None \<longrightarrow> pp_sent p' = pp_sent p) \<and>
    (\<exists>new. pp_sent p' = pp_sent p @ new \<and> new_batches p (slot_key s) new \<and>
      (e = None \<longrightarrow> map (\<lambda>x. (sx_rows x, sx_ops x)) new = batch_content b))"
proof (rule slot_Chunk_send [OF assms])
  fix b1 p1
  assume b: "slot_send c b1 p = (p1, e)" "p' = p1 \<or> (\<exists>ev. p' = publish (sl_resource s) ev p1)"
    "bt_Resource b1 = sl_resource s" "bt_Part b1 = sl_part s" "batch_content b1 = batch_content b" "slot_key s' = slot_key s"
  show ?thesis
    using slot_send_step [OF b(1,3,4)] b(2,5,6) publish_follows by auto
qed

lemma slot_Drained_send:
  assumes "slot_Drained c (p, s) m n = ((p', s'), e)"
  obtains b1 where "slot_send c b1 p = (p', e)" "bt_rows b1 = None" "bt_Resource b1 = sl_resource s" "bt_Part b1 = sl_part s" "s' = s"
proof (rule that)
  let ?b = "NewMarker\<lparr>bt_Resource := sl_resource s, bt_Part := sl_part s, bt_Cursor := Some
    (if mt_LSN m \<noteq> [] then NewStreamDelta (sl_resource s) (mt_LSN m) (mt_Seq m)
     else if slice (mt_Key m) \<noteq> [] then NewShardDelta (sl_resource s) (sl_part s) (slice (mt_Key m))
     else NewCoarseDone (sl_resource s) (sl_part s) (int n))\<rparr>"
  show "slot_send c ?b p = (p', e)" "s' = s"
    using assms by (cases "slot_send c ?b p", simp add: slot_Drained_def Let_def split del: if_split)+
qed (simp_all add: NewMarker_def empty_batch_def)

lemma handed_follows:
  assumes "follows p p'" "pp_sent p' = pp_sent p @ new" "new_batches p key new"
  shows "handed p' k = handed p k @ (if k = key then map (\<lambda>x. (sx_rows x, sx_ops x)) new else [])"
proof -
  have "filter (\<lambda>x. sx_epoch x = current_epoch p \<and> (sx_resource x, sx_part x) = k) new = (if k = key then new else [])"
    using assms(3) by (auto simp: new_batches_def list_all_iff filter_id_conv filter_empty_conv)
  then show ?thesis
    using follows_epoch [OF assms(1)] assms(2) by (simp add: handed_def)
qed

interpretation slots: batch_receiver "slot_receiver c" slot_received for c :: "'k calls"
proof unfold_locales
  fix r r' :: "'k pipeline \<times> slot" and b :: batch and rb m n x e
  obtain p s where r: "r = (p, s)" by (cases r)
  obtain p' s' where r': "r' = (p', s')" by (cases r')
  show "slot_received r' = slot_received r @ [(rb, bt_ops b)]"
    if chunk: "rv_Chunk (slot_receiver c) r b = (r', None)" "bt_rows b = Some rb"
  proof -
    have "slot_Chunk c (p, s) b = ((p', s'), None)"
      using chunk(1) by (simp add: r r' slot_receiver_def)
    from slot_Chunk_step [OF this] obtain new where new: "follows p p'" "slot_key s' = slot_key s"
      "pp_sent p' = pp_sent p @ new" "new_batches p (slot_key s) new" "map (\<lambda>x. (sx_rows x, sx_ops x)) new = [(rb, bt_ops b)]"
      using chunk(2) by (auto simp: batch_content_def)
    show ?thesis
      using handed_follows [OF new(1,3,4), of "slot_key s"] new(2,5) by (simp add: r r' slot_received_def)
  qed
  show "slot_received r' = slot_received r" if "rv_Chunk (slot_receiver c) r b = (r', Some e)"
    using slot_Chunk_step [of c p s b p' s' "Some e"] that follows_epoch [of p p']
    by (auto simp: r r' slot_receiver_def slot_received_def handed_def)
  show "slot_received r' = slot_received r" if d: "rv_Drained (slot_receiver c) r m n = (r', x)"
  proof -
    obtain b1 where b: "slot_send c b1 p = (p', x)" "bt_rows b1 = None" "bt_Resource b1 = sl_resource s" "bt_Part b1 = sl_part s" "s' = s"
      using slot_Drained_send [of c p s m n p' s' x] d by (auto simp: r r' slot_receiver_def)
    have "pp_sent p' = pp_sent p"
      using slot_send_step [OF b(1,3,4)] b(2) by (cases x) (auto simp: batch_content_def)
    then show ?thesis
      using slot_send_step [OF b(1,3,4)] follows_epoch [of p p'] b(5) by (simp add: r r' slot_received_def handed_def)
  qed
qed

section \<open>Calls on one part\<close>

text \<open>What a call on the builder of one part may change.\<close>

definition call_frame :: "string \<times> int \<Rightarrow> 'k pipeline \<Rightarrow> 'k pipeline \<Rightarrow> bool" where
  "call_frame key p p' \<longleftrightarrow>
     follows (p\<lparr>pp_builders := []\<rparr>) (p'\<lparr>pp_builders := []\<rparr>) \<and>
     (\<forall>k. k \<noteq> key \<longrightarrow> map_of (pp_builders p') k = map_of (pp_builders p) k) \<and>
     (\<exists>new. pp_sent p' = pp_sent p @ new \<and> new_batches p key new) \<and> (accounted p \<longrightarrow> accounted p')"

lemma accounted_builders [simp]: "accounted (p\<lparr>pp_builders := bs\<rparr>) = accounted p"
  by (simp add: accounted_def)

lemma call_frame_refl [simp]: "call_frame key p p"
  by (simp add: call_frame_def new_batches_def)

lemma call_frame_follows: "call_frame key p p' \<Longrightarrow> follows p' q \<Longrightarrow> pp_sent q = pp_sent p' \<Longrightarrow> (accounted p' \<Longrightarrow> accounted q) \<Longrightarrow> call_frame key p q"
  by (auto simp: call_frame_def follows_def)

lemma call_frame_epoch: "call_frame key p p' \<Longrightarrow> current_epoch p' = current_epoch p"
  using follows_epoch [of "p\<lparr>pp_builders := []\<rparr>" "p'\<lparr>pp_builders := []\<rparr>"] by (simp add: call_frame_def)

lemma call_frame_handed:
  assumes "call_frame key p p'" "k \<noteq> key"
  shows "handed p' k = handed p k"
proof -
  obtain new where new: "pp_sent p' = pp_sent p @ new" "new_batches p key new"
    using assms(1) by (auto simp: call_frame_def)
  have "filter (\<lambda>x. sx_epoch x = current_epoch p \<and> (sx_resource x, sx_part x) = k) new = []"
    using new(2) assms(2) by (auto simp: new_batches_def list_all_iff filter_empty_conv)
  then show ?thesis
    using call_frame_epoch [OF assms(1)] new(1) by (simp add: handed_def)
qed

lemma call_frame_put: "call_frame key p p' \<Longrightarrow> call_frame key p (put_part key b s p')"
  by (auto simp: call_frame_def put_part_def follows_def update_conv')

lemma handed_put [simp]: "handed (put_part key b s p) k = handed p k"
  by (simp add: handed_def put_part_def)

lemma slot_Chunk_frame:
  assumes "call_frame key p p1 \<and> slot_key s1 = key" "\<not> bt_Drained b" "bt_Control b = None" "bt_rows b \<noteq> None"
    "slot_Chunk c (p1, s1) b = ((p2, s2), e)"
  shows "call_frame key p p2 \<and> slot_key s2 = key"
proof -
  obtain new where new: "follows p1 p2" "slot_key s2 = key" "pp_sent p2 = pp_sent p1 @ new" "new_batches p1 key new"
    using slot_Chunk_step [OF assms(5)] assms(1) by auto
  have "accounted p2" if "accounted p1"
  proof (rule slot_Chunk_send [OF assms(5)])
    fix b1 p3
    assume b: "slot_send c b1 p1 = (p3, e)" "p2 = p3 \<or> (\<exists>ev. p2 = publish (sl_resource s1) ev p3)"
      "bt_Drained b1 = bt_Drained b" "bt_Control b1 = bt_Control b" "bt_rows b1 = bt_rows b"
    have "accounted p3"
      using that b assms(2-4) by (intro Pipeline_send_accounted [OF _ b(1) [unfolded slot_send_def]])
        (auto simp: queue_item_ok_def current_epoch_def)
    then show ?thesis using b(2) by (auto simp: accounted_def)
  qed
  moreover have "new_batches p key new"
    using new(4) call_frame_epoch [of key p p1] assms(1) by (simp add: new_batches_def)
  ultimately show ?thesis
    using new(1-3) assms(1) by (auto simp: call_frame_def follows_def new_batches_def)
qed

definition in_frame :: "string \<times> int \<Rightarrow> 'k pipeline \<Rightarrow> 'k pipeline \<times> slot \<Rightarrow> bool" where
  "in_frame key p r \<longleftrightarrow> call_frame key p (fst r) \<and> slot_key (snd r) = key"

lemma in_frame_Chunk:
  assumes "in_frame key p r" "\<not> bt_Drained b" "bt_Control b = None" "bt_rows b \<noteq> None"
  shows "in_frame key p (fst (rv_Chunk (slot_receiver c) r b))"
proof -
  obtain p1 s1 where r: "r = (p1, s1)" by (cases r)
  obtain p2 s2 e where o: "slot_Chunk c (p1, s1) b = ((p2, s2), e)" by (cases "slot_Chunk c (p1, s1) b") auto
  show ?thesis
    using slot_Chunk_frame [OF _ assms(2-4) o, of key p] assms(1) o by (simp add: in_frame_def r slot_receiver_def)
qed

text \<open>A part whose builder holds, with what it handed over, the rows of the row writer's specification.\<close>

definition part_good :: "arrow_schema \<Rightarrow> 'k pipeline \<Rightarrow> string \<times> int \<Rightarrow> cell list \<times> row list \<Rightarrow> bool" where
  "part_good schema p key spec \<longleftrightarrow> (\<exists>pt. map_of (pp_builders p) key = Some pt \<and> slot_key (pt_slot pt) = key \<and>
     builder_inv schema (pp_opts p) (handed p key) spec (pt_builder pt))"

definition all_handed :: "'k pipeline \<Rightarrow> string \<times> int \<Rightarrow> cell list \<times> row list \<Rightarrow> bool" where
  "all_handed p key spec \<longleftrightarrow>
     spec = ([], concat (map batch_rows (handed p key))) \<and> (\<forall>x \<in> set (handed p key). rb_NumRows (fst x) \<noteq> 0)"

lemma builder_inv_nonempty: "builder_inv schema opts sent spec b \<Longrightarrow> \<forall>x \<in> set sent. rb_NumRows (fst x) \<noteq> 0"
  by (auto simp: builder_inv_def batch_ok_def)

lemma all_handed_none: "all_handed p key ([], []) \<longleftrightarrow> handed p key = []"
proof -
  have "rb_NumRows (fst x) = 0" if "batch_rows x = []" for x
    using that by (auto simp: batch_rows_def split: prod.splits)
  then show ?thesis
    by (cases "handed p key") (auto simp: all_handed_def)
qed

definition part_ready :: "'k pipeline \<Rightarrow> string \<times> int \<Rightarrow> bool" where
  "part_ready p key \<longleftrightarrow> (case map_of (pp_builders p) key of
     None \<Rightarrow> False
   | Some pt \<Rightarrow> bd_err (pt_builder pt) = None \<and> \<not> bd_closed (pt_builder pt))"

lemma other_part:
  assumes "call_frame key p p'" "k \<noteq> key"
  shows "part_good schema p' k spec = part_good schema p k spec" "all_handed p' k spec = all_handed p k spec"
    "part_ready p' k = part_ready p k"
proof -
  have "map_of (pp_builders p') k = map_of (pp_builders p) k" "pp_opts p' = pp_opts p"
    using assms by (simp_all add: call_frame_def follows_def del: split_paired_All)
  then show "part_good schema p' k spec = part_good schema p k spec" "all_handed p' k spec = all_handed p k spec"
    "part_ready p' k = part_ready p k"
    using call_frame_handed [OF assms] by (simp_all add: part_good_def all_handed_def part_ready_def)
qed

lemma part_Flush_good:
  assumes "part_good schema p key spec" "part_Flush c key p = (p', e)"
  shows "call_frame key p p' \<and> part_good schema p' key spec \<and> (e = None \<longrightarrow> all_handed p' key spec \<and> part_ready p' key)"
proof -
  obtain pt where pt: "map_of (pp_builders p) key = Some pt" "slot_key (pt_slot pt) = key"
    "builder_inv schema (pp_opts p) (handed p key) spec (pt_builder pt)"
    using assms(1) by (auto simp: part_good_def)
  obtain b p1 s x where f: "Builder_Flush (slot_receiver c) (p, pt_slot pt) (pt_builder pt) = (b, (p1, s), x)"
    by (cases "Builder_Flush (slot_receiver c) (p, pt_slot pt) (pt_builder pt)") auto
  then have [simp]: "x = e"
    using assms(2) pt(1) by (simp add: part_Flush_def)
  have p': "p' = put_part key b s p1"
    using assms(2) f pt(1) by (simp add: part_Flush_def)
  have keep: "call_frame key p p1 \<and> slot_key s = key"
  proof -
    have "in_frame key p (p, pt_slot pt)" using pt(2) by (simp add: in_frame_def)
    from Builder_Flush_keeps [where P = "in_frame key p", OF _ this f] in_frame_Chunk [of key p]
    have "in_frame key p (p1, s)" by blast
    then show ?thesis by (simp add: in_frame_def)
  qed
  have inv: "builder_inv schema (pp_opts p) (handed p1 key) spec b \<and>
      (e = None \<longrightarrow> fst spec = [] \<and> snd spec = concat (map batch_rows (handed p1 key)) \<and> bd_err b = None \<and> \<not> bd_closed b)"
    using slots.flush_inv [of schema "pp_opts p" "(p, pt_slot pt)" spec "pt_builder pt" c, OF _ f] pt(2,3) keep
    by (simp add: slot_received_def)
  have "call_frame key p p'"
    using call_frame_put keep p' by blast
  moreover have "pp_opts p1 = pp_opts p"
    using keep by (simp add: call_frame_def follows_def)
  ultimately show ?thesis
    using inv keep builder_inv_nonempty [OF inv [THEN conjunct1]] unfolding part_good_def all_handed_def part_ready_def p'
    by (cases spec) (simp add: put_part_def handed_def update_conv')
qed

lemma call_frame_opts: "call_frame key p p' \<Longrightarrow> pp_opts p' = pp_opts p"
  by (simp add: call_frame_def follows_def)

lemma part_goodI:
  assumes "call_frame key p p1" "slot_key s = key" "builder_inv schema (pp_opts p) (handed p1 key) spec b"
  shows "call_frame key p (put_part key b s p1) \<and> part_good schema (put_part key b s p1) key spec"
  using call_frame_put [OF assms(1)] assms(2,3) call_frame_opts [OF assms(1)]
  by (simp add: part_good_def put_part_def handed_def update_conv')

lemma part_Append_good:
  assumes "part_good schema p key spec"
  shows "call_frame key p (part_Append key a p) \<and> part_good schema (part_Append key a p) key (spec_step (BAppend a) spec)"
proof -
  obtain pt where pt: "map_of (pp_builders p) key = Some pt" "slot_key (pt_slot pt) = key"
    "builder_inv schema (pp_opts p) (handed p key) spec (pt_builder pt)"
    using assms by (auto simp: part_good_def)
  have "builder_inv schema (pp_opts p) (handed p key) (spec_step (BAppend a) spec) (do_append a (pt_builder pt))"
    using slots.step_inv [of schema "pp_opts p" "(p, pt_slot pt)" spec "pt_builder pt" undefined "BAppend a"] pt(2,3)
    by (simp add: slot_received_def)
  then show ?thesis
    using part_goodI [of key p p "pt_slot pt"] pt(1,2) by (simp add: part_Append_def)
qed

text \<open>A row ends with the lineage values of the run.\<close>

definition row_end :: "pipeline_config \<Rightarrow> meta \<Rightarrow> builder_op list" where
  "row_end cfg m = map BAppend (audit_calls cfg m) @ [BEndRow m]"

lemma builder_run_appends: "builder_run recv (map BAppend as) (b, r) = (fold do_append as b, r)"
  by (induction as arbitrary: b) (simp_all add: builder_run_def)

lemma part_EndRow_good:
  assumes "part_good schema p key spec" "part_EndRow c key m p = (p', e)"
  shows "call_frame key p p' \<and> part_good schema p' key (spec_run (row_end (pp_cfg p) m) spec)"
proof -
  obtain pt where pt: "map_of (pp_builders p) key = Some pt" "slot_key (pt_slot pt) = key"
    "builder_inv schema (pp_opts p) (handed p key) spec (pt_builder pt)"
    using assms(1) by (auto simp: part_good_def)
  let ?as = "audit_calls (pp_cfg p) m"
  let ?b = "fold do_append ?as (pt_builder pt)"
  obtain cur rows where spec: "spec_run (map BAppend ?as) spec = (cur, rows)" by (cases "spec_run (map BAppend ?as) spec")
  have start: "builder_inv schema (pp_opts p) (slot_received (p, pt_slot pt)) (cur, rows) ?b"
    using slots.run_inv [of schema "pp_opts p" "(p, pt_slot pt)" spec "pt_builder pt" c "map BAppend ?as"] pt(2,3) spec
    by (simp add: builder_run_appends slot_received_def)
  obtain b p1 s x where f: "EndRow (slot_receiver c) (p, pt_slot pt) m ?b = (b, (p1, s), x)"
    by (cases "EndRow (slot_receiver c) (p, pt_slot pt) m ?b") auto
  have p': "p' = put_part key b s p1"
    using assms(2) f pt(1) by (simp add: part_EndRow_def)
  have "in_frame key p (p, pt_slot pt)" using pt(2) by (simp add: in_frame_def)
  from EndRow_keeps [where P = "in_frame key p", OF _ this f] in_frame_Chunk [of key p]
  have "in_frame key p (p1, s)" by blast
  then have keep: "call_frame key p p1" "slot_key s = key" by (simp_all add: in_frame_def)
  have "spec_run (row_end (pp_cfg p) m) spec = ([], rows @ [(cur, mt_Op m)])"
    using spec by (simp add: row_end_def spec_run_def)
  moreover have "builder_inv schema (pp_opts p) (handed p1 key) ([], rows @ [(cur, mt_Op m)]) b"
    using slots.EndRow_inv [OF start f] keep(2) by (simp add: slot_received_def)
  ultimately show ?thesis
    using part_goodI [OF keep] p' by simp
qed

text \<open>Flushing a part with nothing open queues nothing.\<close>

lemma part_Flush_idle:
  assumes "part_good schema p key spec" "all_handed p key spec" "part_ready p key"
  shows "\<exists>bs. part_Flush c key p = (p\<lparr>pp_builders := bs\<rparr>, None)"
proof -
  obtain pt where pt: "map_of (pp_builders p) key = Some pt" "slot_key (pt_slot pt) = key"
    "builder_inv schema (pp_opts p) (handed p key) spec (pt_builder pt)"
    using assms(1) by (auto simp: part_good_def)
  have "bd_err (pt_builder pt) = None" "\<not> bd_closed (pt_builder pt)"
    using assms(3) pt(1) by (simp_all add: part_ready_def)
  moreover from this have "holds (pt_builder pt) [] []"
    using pt(3) assms(2) by (auto simp: builder_inv_def all_handed_def)
  ultimately show ?thesis
    using pt(1) by (auto simp: part_Flush_def Builder_Flush_idle put_part_def)
qed

section \<open>Delivery\<close>

text \<open>
  C2: a builder that feeds the pipeline loses, repeats and reorders nothing. From a new builder on a
  slot that has queued nothing, after any sequence of calls and a final flush: the rows of the batches
  queued are, in order, a prefix of the rows ended on the builder, and all of them if the flush
  succeeds; every batch has at least one and at most the configured number of rows, one column per field
  with exactly those rows, and only values the column's storage type holds.
\<close>

theorem builder_delivers:
  assumes "NewBuilder schema opts = Some b" "slot_received (p, s) = []" "builder_run (slot_receiver c) ops (b, (p, s)) = (b1, r1)"
    "Builder_Flush (slot_receiver c) r1 b1 = (b2, r2, e)"
  shows "prefix (concat (map batch_rows (slot_received r2))) (snd (spec_run ops ([], []))) \<and>
    list_all (batch_ok schema opts) (slot_received r2) \<and>
    (e = None \<longrightarrow> concat (map batch_rows (slot_received r2)) = snd (spec_run ops ([], [])))"
  using slots.delivers [OF assms] by (simp add: list_all_iff)

text \<open>A sink that accepts every batch, with a checksum that is the number of rows.\<close>

definition demo_capabilities :: sink_capabilities where
  "demo_capabilities = \<lparr>sk_ReusableSession = True, sk_Schematized = True, sk_EncodedIntegrity = False, sk_WritePolicies = [],
     sk_PreferredBatchRows = 0, sk_PreferredBatchBytes = 0, sk_PreferredFlushInterval = 0\<rparr>"

definition demo_config :: pipeline_config where
  "demo_config = \<lparr>cf_MessageSchemaPolicy = Strict, cf_Run = ''r'', cf_SinkName = ''table'', cf_SinkCapabilities = demo_capabilities,
     cf_WritePolicies = [([], WritePolicyForIngestion IngestionFullAppend)], cf_BatchMaxRows = 2, cf_BatchMaxBytes = 0,
     cf_FlushInterval = 0, cf_Audit = None\<rparr>"

definition demo_sink :: "nat calls" where
  "demo_sink = \<lparr>cl_Apply = \<lambda>n b policy. (n + NumRows b, Inr \<lparr>rp_URI = [], rp_Bytes = 8, rp_Rows = int (NumRows b),
       rp_WriteCRC = NumRows b, rp_EncodedCRC = None, rp_Checkpoint = None\<rparr>),
     cl_Prepare = None, cl_CRC = \<lambda>rows ops. (case rows of None \<Rightarrow> 0 | Some rb \<Rightarrow> rb_NumRows rb), cl_Bytes = \<lambda>_. 8,
     cl_ValueStr = \<lambda>_. [], cl_Fold = \<lambda>s. s\<rparr>"

definition demo_schema :: schema where
  "demo_schema = orders_schema\<lparr>sc_Fields := [simple_field ''id'' LogicalInt64]\<rparr>"

definition demo_schedule :: "moment list" where
  "demo_schedule = [\<lparr>mo_steps = 0, mo_interruption = Undisturbed, mo_sendWins = False\<rparr>,
     \<lparr>mo_steps = 1, mo_interruption = Undisturbed, mo_sendWins = False\<rparr>]"

definition demo_rows :: "builder_op list" where
  "demo_rows = concat (map (\<lambda>n. [BAppend (AInt64 n), BEndRow no_meta]) [7, 8, 9])"

definition demo_run :: "(builder \<times> (nat pipeline \<times> slot)) option" where
  "demo_run = (case NewBuilder (Schema demo_schema) \<lparr>op_MaxRows = 2, op_MaxBytes = 0\<rparr> of
     None \<Rightarrow> None
   | Some b \<Rightarrow> Some (builder_run (slot_receiver demo_sink) demo_rows
       (b, (Pipeline_New demo_config None 0 demo_schedule, \<lparr>sl_resource = ''orders'', sl_part = 0, sl_seq = 0\<rparr>))))"

theorem builder_delivers_witness:
  "\<exists>b1 r1 b2 r2. demo_run = Some (b1, r1) \<and> Builder_Flush (slot_receiver demo_sink) r1 b1 = (b2, r2, None) \<and>
    concat (map batch_rows (slot_received r2)) = [([CInt64 7], OpInsert), ([CInt64 8], OpInsert), ([CInt64 9], OpInsert)]"
proof -
  let ?start = "(Pipeline_New demo_config None (0::nat) demo_schedule, \<lparr>sl_resource = ''orders'', sl_part = 0, sl_seq = 0\<rparr>)"
  obtain b where b: "NewBuilder (Schema demo_schema) \<lparr>op_MaxRows = 2, op_MaxBytes = 0\<rparr> = Some b"
    by (simp add: NewBuilder_def)
  obtain b1 r1 where r: "builder_run (slot_receiver demo_sink) demo_rows (b, ?start) = (b1, r1)"
    by (cases "builder_run (slot_receiver demo_sink) demo_rows (b, ?start)")
  then have run: "demo_run = Some (b1, r1)" by (simp add: demo_run_def b)
  obtain b2 r2 e where f: "Builder_Flush (slot_receiver demo_sink) r1 b1 = (b2, r2, e)"
    by (cases "Builder_Flush (slot_receiver demo_sink) r1 b1")
  have "(case demo_run of None \<Rightarrow> False | Some (b1, r1) \<Rightarrow> snd (snd (Builder_Flush (slot_receiver demo_sink) r1 b1)) = None)"
    by code_simp
  then have "snd (snd (Builder_Flush (slot_receiver demo_sink) r1 b1)) = None"
    unfolding run option.case prod.case .
  then have e: "e = None" unfolding f snd_conv .
  have "slot_received ?start = []" by code_simp
  from builder_delivers [OF b this r f] e
  have "concat (map batch_rows (slot_received r2)) = snd (spec_run demo_rows ([], []))" by simp
  also have "\<dots> = [([CInt64 7], OpInsert), ([CInt64 8], OpInsert), ([CInt64 9], OpInsert)]" by code_simp
  finally show ?thesis using run f e by blast
qed

end
