(* ===== verification/StreamEpoch.thy ===== *)
theory StreamEpoch
  imports PipelineWriter
begin

text \<open>
  What a stream's epochs promise. A producer makes any sequence of calls on a stream pipeline, beside a
  writer that may be anywhere in its work; when \<^verbatim>\<open>SealEpoch\<close> then returns its evidence, the sink has
  applied exactly the rows of the epoch, in order, and the evidence counts them.
\<close>

section \<open>The invariant of a stream\<close>

definition live :: "'k pipeline \<Rightarrow> bool" where
  "live p \<longleftrightarrow> pp_errVal p = None \<and> \<not> pp_done p \<and> \<not> in_closed (pp_stream p)"

lemma ready_live: "stream_ready p = None \<longleftrightarrow> live p"
  by (auto simp: stream_ready_def live_def split: option.splits)

text \<open>A pipeline that is not live any more never is again.\<close>

definition aged :: "'k pipeline \<Rightarrow> 'k pipeline \<Rightarrow> bool" where
  "aged p p' \<longleftrightarrow> (live p' \<longrightarrow> live p) \<and> (pp_errVal p \<noteq> None \<longrightarrow> pp_errVal p' \<noteq> None)"

lemma aged_refl [simp]: "aged p p" by (simp add: aged_def)

lemma aged_trans: "aged p q \<Longrightarrow> aged q r \<Longrightarrow> aged p r" by (auto simp: aged_def)

lemma aged_setErr [simp]: "aged p (setErr e p)" by (simp add: aged_def live_def)

lemma not_live_setErr [simp]: "\<not> live (setErr e p)" by (simp add: live_def)

lemma follows_aged: "follows p p' \<Longrightarrow> aged p p'"
  by (auto simp: follows_def aged_def live_def producer_view_eq)

lemma aged_put [simp]: "aged p p' \<Longrightarrow> aged p (put_part key b s p')"
  by (simp add: aged_def live_def put_part_def)

lemma aged_Chunk:
  assumes "aged p (fst r)"
  shows "aged p (fst (fst (rv_Chunk (slot_receiver c) r b)))"
proof -
  obtain p1 s1 where r: "r = (p1, s1)" by (cases r)
  obtain p2 s2 e where o: "slot_Chunk c (p1, s1) b = ((p2, s2), e)" by (cases "slot_Chunk c (p1, s1) b") auto
  show ?thesis
    using slot_Chunk_step [OF o] follows_aged [of p1 p2] aged_trans assms o by (auto simp: r slot_receiver_def)
qed

lemma part_Flush_aged: "part_Flush c key p = (p', e) \<Longrightarrow> aged p p'"
proof -
  assume f: "part_Flush c key p = (p', e)"
  show ?thesis
  proof (cases "map_of (pp_builders p) key")
    case (Some pt)
    obtain b r x where g: "Builder_Flush (slot_receiver c) (p, pt_slot pt) (pt_builder pt) = (b, r, x)"
      by (cases "Builder_Flush (slot_receiver c) (p, pt_slot pt) (pt_builder pt)") auto
    have "aged p (fst (p, pt_slot pt))" by simp
    from Builder_Flush_keeps [where P = "\<lambda>r. aged p (fst r)", OF _ this g] aged_Chunk [of p]
    have "aged p (fst r)" by blast
    then show ?thesis
      using f g Some by (cases r) (auto simp: part_Flush_def)
  qed (use f in \<open>simp add: part_Flush_def\<close>)
qed

lemma part_EndRow_aged: "part_EndRow c key m p = (p', e) \<Longrightarrow> aged p p'"
proof -
  assume f: "part_EndRow c key m p = (p', e)"
  show ?thesis
  proof (cases "map_of (pp_builders p) key")
    case (Some pt)
    let ?b = "fold do_append (audit_calls (pp_cfg p) m) (pt_builder pt)"
    obtain b r x where g: "EndRow (slot_receiver c) (p, pt_slot pt) m ?b = (b, r, x)"
      by (cases "EndRow (slot_receiver c) (p, pt_slot pt) m ?b") auto
    have "aged p (fst (p, pt_slot pt))" by simp
    from EndRow_keeps [where P = "\<lambda>r. aged p (fst r)", OF _ this g] aged_Chunk [of p]
    have "aged p (fst r)" by blast
    then show ?thesis
      using f g Some by (cases r) (auto simp: part_EndRow_def)
  qed (use f in \<open>simp add: part_EndRow_def\<close>)
qed

text \<open>The writers by key, with whether they are closed.\<close>

definition writer_states :: "'k pipeline \<Rightarrow> ((string \<times> int) \<times> bool) list" where
  "writer_states p = map (\<lambda>w. (writer_key w, sw_closed w)) (in_writers (pp_stream p))"

definition writers_good :: "(string \<Rightarrow> cell list \<times> row list) \<Rightarrow> 'k pipeline \<Rightarrow> bool" where
  "writers_good h p \<longleftrightarrow> (\<forall>(key, closed) \<in> set (writer_states p).
     if closed then all_handed p key (h (fst key)) else \<exists>schema. part_good schema p key (h (fst key)))"

text \<open>Everything written is applied and no builder holds rows.\<close>

definition settled :: "(string \<Rightarrow> cell list \<times> row list) \<Rightarrow> 'k pipeline \<Rightarrow> bool" where
  "settled h p \<longleftrightarrow>
     (\<forall>(key, closed) \<in> set (writer_states p). all_handed p key (h (fst key)) \<and> (\<not> closed \<longrightarrow> part_ready p key)) \<and>
     (\<forall>q \<in> set (pp_batchCh p). bt_rows (qu_batch q) = None)"

lemma writers_goodI:
  "(\<And>k cl. (k, cl) \<in> set (writer_states p) \<Longrightarrow>
     if cl then all_handed p k (h (fst k)) else \<exists>schema. part_good schema p k (h (fst k))) \<Longrightarrow> writers_good h p"
  unfolding writers_good_def by blast

lemma writers_goodD:
  "writers_good h p \<Longrightarrow> (k, cl) \<in> set (writer_states p) \<Longrightarrow>
    if cl then all_handed p k (h (fst k)) else \<exists>schema. part_good schema p k (h (fst k))"
  by (auto simp: writers_good_def)

lemma settledI:
  "(\<And>k cl. (k, cl) \<in> set (writer_states p) \<Longrightarrow> all_handed p k (h (fst k)) \<and> (\<not> cl \<longrightarrow> part_ready p k)) \<Longrightarrow>
    (\<And>q. q \<in> set (pp_batchCh p) \<Longrightarrow> bt_rows (qu_batch q) = None) \<Longrightarrow> settled h p"
  by (auto simp: settled_def)

lemma settledD:
  "settled h p \<Longrightarrow> (k, cl) \<in> set (writer_states p) \<Longrightarrow> all_handed p k (h (fst k)) \<and> (\<not> cl \<longrightarrow> part_ready p k)"
  "settled h p \<Longrightarrow> q \<in> set (pp_batchCh p) \<Longrightarrow> bt_rows (qu_batch q) = None"
  by (auto simp: settled_def)

definition quiet :: "stream_inlet \<Rightarrow> bool" where
  "quiet i \<longleftrightarrow> in_completed i \<noteq> [] \<or> in_sealed i \<or> \<not> in_epochWritten i"

definition tags_ok :: "'k pipeline \<Rightarrow> bool" where
  "tags_ok p \<longleftrightarrow> (\<forall>x \<in> set (pp_sent p).
     case sx_epoch x of
       None \<Rightarrow> current_epoch p = None
     | Some r \<Rightarrow> (\<exists>cur. current_epoch p = Some cur \<and> (r = cur \<or> er_Epoch r < er_Epoch cur)))"

definition epoch_ok :: "epoch_ref option \<Rightarrow> bool" where
  "epoch_ok e \<longleftrightarrow> (case e of None \<Rightarrow> True | Some r \<Rightarrow> int64 (er_Epoch r))"

definition stream_inv :: "(string \<Rightarrow> cell list \<times> row list) \<Rightarrow> 'k pipeline \<Rightarrow> bool" where
  "stream_inv h p \<longleftrightarrow>
     pp_isStream p \<and> accounted p \<and> distinct (map (fst \<circ> fst) (writer_states p)) \<and> writers_good h p \<and>
     (\<forall>r. r \<notin> (fst \<circ> fst) ` set (writer_states p) \<longrightarrow> h r = ([], [])) \<and>
     (\<forall>x \<in> set (pp_sent p). sx_epoch x = current_epoch p \<longrightarrow> (sx_resource x, sx_part x) \<in> fst ` set (writer_states p)) \<and>
     (quiet (pp_stream p) \<longrightarrow> settled h p) \<and>
     (\<not> in_touched (pp_stream p) \<longrightarrow> \<not> in_epochWritten (pp_stream p)) \<and>
     (\<not> in_epochWritten (pp_stream p) \<longrightarrow> (\<forall>r. h r = ([], []))) \<and>
     tags_ok p \<and> epoch_ok (current_epoch p) \<and> positions_valid (in_completed (pp_stream p)) \<and> distinct (map fst (in_completed (pp_stream p)))"

lemma stream_invD:
  assumes "stream_inv h p"
  shows "pp_isStream p" "accounted p" "distinct (map (fst \<circ> fst) (writer_states p))" "writers_good h p"
    "r \<notin> (fst \<circ> fst) ` set (writer_states p) \<Longrightarrow> h r = ([], [])"
    "x \<in> set (pp_sent p) \<Longrightarrow> sx_epoch x = current_epoch p \<Longrightarrow> (sx_resource x, sx_part x) \<in> fst ` set (writer_states p)"
    "quiet (pp_stream p) \<Longrightarrow> settled h p"
    "\<not> in_touched (pp_stream p) \<Longrightarrow> \<not> in_epochWritten (pp_stream p)"
    "\<not> in_epochWritten (pp_stream p) \<Longrightarrow> h r = ([], [])"
    "tags_ok p" "positions_valid (in_completed (pp_stream p))" "distinct (map fst (in_completed (pp_stream p)))"
    "epoch_ok (current_epoch p)"
  using assms by (auto simp: stream_inv_def)

lemma stream_inv_mono:
  assumes "stream_inv h p" "pp_isStream p' = pp_isStream p" "pp_opts p' = pp_opts p" "map_of (pp_builders p') = map_of (pp_builders p)"
    "pp_sent p' = pp_sent p" "writer_states p' = writer_states p" "in_epoch (pp_stream p') = in_epoch (pp_stream p)"
    "quiet (pp_stream p') \<longrightarrow> quiet (pp_stream p) \<or> settled h p" "\<not> in_epochWritten (pp_stream p') \<longrightarrow> \<not> in_epochWritten (pp_stream p)"
    "\<not> in_touched (pp_stream p') \<longrightarrow> \<not> in_epochWritten (pp_stream p')"
    "positions_valid (in_completed (pp_stream p'))" "distinct (map fst (in_completed (pp_stream p')))"
    "set (pp_batchCh p') \<subseteq> set (pp_batchCh p)" "accounted p'"
  shows "stream_inv h p'"
proof -
  have e: "current_epoch p' = current_epoch p"
    using assms(2,7) by (simp add: current_epoch_def)
  then have "handed p' = handed p"
    using assms(5) by (intro ext) (simp add: handed_def)
  then have "writers_good h p' = writers_good h p" "settled h p \<longrightarrow> settled h p'"
    using assms(3-6,13) e by (auto simp: writers_good_def settled_def part_good_def all_handed_def part_ready_def)
  moreover have "tags_ok p' = tags_ok p"
    unfolding tags_ok_def e assms(5) ..
  ultimately show ?thesis
    using assms e by (auto simp: stream_inv_def)
qed

lemma stream_inv_cong:
  assumes "stream_inv h p" "pp_isStream p' = pp_isStream p" "pp_opts p' = pp_opts p" "map_of (pp_builders p') = map_of (pp_builders p)"
    "pp_sent p' = pp_sent p" "writer_states p' = writer_states p" "in_epoch (pp_stream p') = in_epoch (pp_stream p)"
    "in_completed (pp_stream p') = in_completed (pp_stream p)" "in_sealed (pp_stream p') = in_sealed (pp_stream p)"
    "in_epochWritten (pp_stream p') = in_epochWritten (pp_stream p)"
    "in_touched (pp_stream p) \<longrightarrow> in_touched (pp_stream p')" "set (pp_batchCh p') \<subseteq> set (pp_batchCh p)" "accounted p'"
  shows "stream_inv h p'"
  using assms(8-13) assms(1) [unfolded stream_inv_def]
  by (intro stream_inv_mono [OF assms(1-7)]) (auto simp: quiet_def)

lemma writer_states_view: "producer_view (pp_stream p') = producer_view (pp_stream p) \<Longrightarrow> writer_states p' = writer_states p"
  by (simp add: writer_states_def producer_view_eq)

lemma follows_inv:
  assumes "stream_inv h p" "follows p p'" "pp_sent p' = pp_sent p" "pp_batchCh p' = drop n (pp_batchCh p)" "accounted p'"
  shows "stream_inv h p'"
  using assms(2-5) set_drop_subset [of n "pp_batchCh p"]
  by (intro stream_inv_cong [OF assms(1)]) (auto simp: follows_def producer_view_eq writer_states_def)

text \<open>A call on the builder of an open writer that keeps the builder's promise.\<close>

lemma call_inv:
  assumes inv: "stream_inv h p" and w: "(key, False) \<in> set (writer_states p)" and f: "call_frame key p p'"
    and good: "part_good schema p' key spec" and q: "quiet (pp_stream p) \<Longrightarrow> settled (h(fst key := spec)) p'"
    and n: "\<not> in_epochWritten (pp_stream p) \<Longrightarrow> spec = ([], [])"
  shows "stream_inv (h(fst key := spec)) p'"
proof -
  have view: "producer_view (pp_stream p') = producer_view (pp_stream p)" "pp_isStream p' = pp_isStream p"
    using f by (auto simp: call_frame_def follows_def)
  have st: "writer_states p' = writer_states p" "quiet (pp_stream p') = quiet (pp_stream p)"
    "in_epochWritten (pp_stream p') = in_epochWritten (pp_stream p)" "in_touched (pp_stream p') = in_touched (pp_stream p)"
    "in_completed (pp_stream p') = in_completed (pp_stream p)"
    using view(1) [unfolded producer_view_eq] by (simp_all add: writer_states_def quiet_def)
  note e = call_frame_epoch [OF f]
  obtain new where new: "pp_sent p' = pp_sent p @ new" "new_batches p key new"
    using f by (auto simp: call_frame_def)
  have d: "distinct (map (fst \<circ> fst) (writer_states p))"
    using inv by (simp add: stream_inv_def)
  have same: "(k, cl) = (key, False)" if "(k, cl) \<in> set (writer_states p)" "fst k = fst key" for k cl
    using inj_onD [of "fst \<circ> fst" "set (writer_states p)" "(k, cl)" "(key, False)"] d w that by (simp add: distinct_map)
  have "writers_good (h(fst key := spec)) p'"
    unfolding writers_good_def st(1)
  proof clarify
    fix k cl assume k: "(k, cl) \<in> set (writer_states p)"
    have old: "if cl then all_handed p k (h (fst k)) else \<exists>schema. part_good schema p k (h (fst k))"
      using inv k by (auto simp: stream_inv_def writers_good_def)
    show "if cl then all_handed p' k ((h(fst key := spec)) (fst k)) else \<exists>schema. part_good schema p' k ((h(fst key := spec)) (fst k))"
    proof (cases "fst k = fst key")
      case True
      then show ?thesis using same [OF k True] good by auto
    next
      case False
      then have "k \<noteq> key" by auto
      then show ?thesis using old False other_part [OF f] by simp
    qed
  qed
  moreover have "tags_ok p'"
    using inv new by (auto simp: stream_inv_def tags_ok_def e new_batches_def list_all_iff split: option.splits)
  moreover have "\<forall>x \<in> set (pp_sent p'). sx_epoch x = current_epoch p \<longrightarrow> (sx_resource x, sx_part x) \<in> fst ` set (writer_states p)"
  proof
    fix x assume "x \<in> set (pp_sent p')"
    then consider "x \<in> set (pp_sent p)" | "(sx_resource x, sx_part x) = key"
      using new by (auto simp: new_batches_def list_all_iff)
    then show "sx_epoch x = current_epoch p \<longrightarrow> (sx_resource x, sx_part x) \<in> fst ` set (writer_states p)"
      using inv w by cases (auto simp: stream_inv_def intro: rev_image_eqI)
  qed
  moreover have "accounted p'"
    using f inv by (simp add: call_frame_def stream_inv_def)
  moreover have "r \<noteq> fst key" if "r \<notin> (fst \<circ> fst) ` set (writer_states p)" for r
    using that w by force
  ultimately show ?thesis
    using inv d q n by (auto simp: stream_inv_def st e view)
qed

section \<open>The calls of a producer\<close>

lemma live_stream:
  "live p \<Longrightarrow> in_closed (f (pp_stream p)) = in_closed (pp_stream p) \<Longrightarrow> live (on_stream f p)"
  "live (on_stream f p) \<Longrightarrow> in_closed (f (pp_stream p)) = in_closed (pp_stream p) \<Longrightarrow> live p"
  by (auto simp: live_def on_stream_def)

lemma find_writer_state:
  assumes "find_writer p r = Some w"
  shows "sw_resource w = r" "(writer_key w, sw_closed w) \<in> set (writer_states p)" "fst (writer_key w) = r"
  using assms by (auto simp: find_writer_def find_Some_iff writer_states_def writer_key_def)

lemma stream_Flush_live:
  assumes "stream_Flush c r p = (p', e)" "live p'"
  obtains w where "e = None" "find_writer p r = Some w" "\<not> sw_closed w" "part_Flush c (writer_key w) p = (p', None)" "live p"
proof (cases "pp_errVal p = None \<and> (\<exists>w. find_writer p r = Some w \<and> \<not> sw_closed w \<and> \<not> sw_inRow w)")
  case True
  then obtain w where w: "find_writer p r = Some w" "\<not> sw_closed w" "\<not> sw_inRow w" "pp_errVal p = None" by auto
  obtain p1 x where f: "part_Flush c (writer_key w) p = (p1, x)" by (cases "part_Flush c (writer_key w) p")
  then have "x = None \<and> p1 = p' \<and> e = None"
    using assms w by (cases x) (auto simp: stream_Flush_def stream_fail_def Let_def)
  then show thesis
    using that [OF _ w(1,2)] f part_Flush_aged [OF f] assms(2) by (simp add: aged_def)
next
  case False
  then show thesis
    using assms by (auto simp: stream_Flush_def stream_fail_def Let_def live_def split: option.splits if_splits)
qed

text \<open>What a successful flush of one writer leaves behind.\<close>

lemma stream_Flush_inv:
  assumes "stream_Flush c r p = (p', e)" "live p'" "stream_inv h p"
  shows "e = None \<and> stream_inv h p' \<and>
    (\<exists>key. (key, False) \<in> set (writer_states p) \<and> fst key = r \<and> call_frame key p p' \<and> all_handed p' key (h r) \<and> part_ready p' key)"
proof -
  obtain w where w: "e = None" "find_writer p r = Some w" "\<not> sw_closed w" "part_Flush c (writer_key w) p = (p', None)"
    using stream_Flush_live [OF assms(1,2)] by metis
  let ?k = "writer_key w"
  have st: "(?k, False) \<in> set (writer_states p)" "fst ?k = r"
    using find_writer_state [OF w(2)] w(3) by simp_all
  obtain schema where good: "part_good schema p ?k (h r)"
    using assms(3) st by (fastforce simp: stream_inv_def writers_good_def)
  note f = part_Flush_good [OF good w(4)]
  have "settled h p'" if "quiet (pp_stream p)"
  proof -
    have s: "settled h p" using assms(3) that by (simp add: stream_inv_def)
    have "all_handed p ?k (h r)" "part_ready p ?k"
      using settledD(1) [OF s st(1)] st(2) by simp_all
    then obtain bs where p': "p' = p\<lparr>pp_builders := bs\<rparr>"
      using part_Flush_idle [OF good, of c] w(4) by auto
    have ws: "writer_states p' = writer_states p"
      by (simp add: p' writer_states_def)
    have "all_handed p' k (h (fst k)) \<and> (\<not> cl \<longrightarrow> part_ready p' k)" if "(k, cl) \<in> set (writer_states p)" for k cl
    proof (cases "k = ?k")
      case False
      then show ?thesis
        using s that other_part [OF f [THEN conjunct1]] by (auto simp: settled_def)
    qed (use f st(2) in simp)
    moreover have "pp_batchCh p' = pp_batchCh p"
      by (simp add: p')
    ultimately show ?thesis
      using s by (auto simp: settled_def ws)
  qed
  moreover have "h r = ([], [])" if "\<not> in_epochWritten (pp_stream p)"
    using assms(3) that by (simp add: stream_inv_def)
  ultimately have "stream_inv (h(fst ?k := h r)) p'"
    using f st by (intro call_inv [OF assms(3) st(1)]) auto
  then show ?thesis
    using w(1) st f by (auto simp del: split_paired_Ex)
qed

text \<open>Changes of the inlet that the invariant does not see.\<close>

lemma stream_inv_on_stream:
  assumes "stream_inv h p" "map (\<lambda>w. (writer_key w, sw_closed w)) (in_writers (f (pp_stream p))) = writer_states p"
    "in_epoch (f (pp_stream p)) = in_epoch (pp_stream p)" "in_completed (f (pp_stream p)) = in_completed (pp_stream p)"
    "in_sealed (f (pp_stream p)) = in_sealed (pp_stream p)" "in_epochWritten (f (pp_stream p)) = in_epochWritten (pp_stream p)"
    "in_touched (pp_stream p) \<longrightarrow> in_touched (f (pp_stream p))" "in_epochRows (f (pp_stream p)) = in_epochRows (pp_stream p)"
    "in_epochBytes (f (pp_stream p)) = in_epochBytes (pp_stream p)" "in_epochResources (f (pp_stream p)) = in_epochResources (pp_stream p)"
  shows "stream_inv h (on_stream f p)"
proof (rule stream_inv_cong [OF assms(1)])
  show "accounted (on_stream f p)"
    using assms(1,3,8-10) by (auto simp: stream_inv_def accounted_def on_stream_def current_epoch_def counted_def)
qed (use assms in \<open>auto simp: on_stream_def writer_states_def\<close>)

lemma stream_inv_inRow: "stream_inv h p \<Longrightarrow> stream_inv h (update_writer r (\<lambda>w. w\<lparr>sw_inRow := b\<rparr>) p)"
  unfolding update_writer_def
  by (rule stream_inv_on_stream) (auto simp: writer_states_def writer_key_def)

lemma accounted_on_stream:
  assumes "accounted p" "in_epoch (f (pp_stream p)) = in_epoch (pp_stream p)" "in_epochRows (f (pp_stream p)) = in_epochRows (pp_stream p)"
    "in_epochBytes (f (pp_stream p)) = in_epochBytes (pp_stream p)" "in_epochResources (f (pp_stream p)) = in_epochResources (pp_stream p)"
  shows "accounted (on_stream f p)"
  using assms by (auto simp: accounted_def on_stream_def current_epoch_def counted_def)

definition mark_written :: "stream_inlet \<Rightarrow> stream_inlet" where
  "mark_written i = i\<lparr>in_touched := True, in_epochWritten := True, in_completed := []\<rparr>"

lemma mark_written_inv:
  assumes "stream_inv h p" "\<not> in_sealed (pp_stream p)"
  shows "stream_inv h (on_stream mark_written p)"
proof (rule stream_inv_mono [OF assms(1)])
  show "accounted (on_stream mark_written p)"
    using assms(1) by (intro accounted_on_stream) (auto simp: stream_inv_def mark_written_def)
qed (use assms in \<open>auto simp: on_stream_def mark_written_def writer_states_def quiet_def positions_valid_def\<close>)

lemma call_frame_view:
  "call_frame key p p' \<Longrightarrow> producer_view (pp_stream p') = producer_view (pp_stream p) \<and> pp_cfg p' = pp_cfg p"
  by (simp add: call_frame_def follows_def)

lemma find_writer_view: "producer_view (pp_stream p') = producer_view (pp_stream p) \<Longrightarrow> find_writer p' r = find_writer p r"
  by (simp add: find_writer_def producer_view_eq)

text \<open>The flush of the active writer before another one is used, when the order is strict.\<close>

definition switch_writer :: "'k calls \<Rightarrow> string \<Rightarrow> 'k pipeline \<Rightarrow> 'k pipeline \<times> goerr option" where
  "switch_writer c r p = (case in_active (pp_stream p) of
     Some other \<Rightarrow> if in_strict (pp_stream p) \<and> other \<noteq> r then stream_Flush c other p else (p, None)
   | None \<Rightarrow> (p, None))"

lemma beforeWrite_switch:
  "beforeWrite c r p =
    (if in_sealed (pp_stream p) then (setErr ErrEpochMismatch p, False)
     else let p = on_stream mark_written p in
       if stream_ready p \<noteq> None then (p, False)
       else case find_writer p r of
         None \<Rightarrow> (setErr ErrBuilderClosed p, False)
       | Some w \<Rightarrow>
           if sw_closed w then (setErr ErrBuilderClosed p, False)
           else (case switch_writer c r p of
               (p, Some e) \<Rightarrow> (p, False)
             | (p, None) \<Rightarrow> (update_writer r (\<lambda>w. w\<lparr>sw_inRow := True\<rparr>) (on_stream (\<lambda>i. i\<lparr>in_active := Some r\<rparr>) p), True)))"
  unfolding beforeWrite_def switch_writer_def mark_written_def ..

lemma switch_writer_live: "switch_writer c r p = (p', e) \<Longrightarrow> live p' \<Longrightarrow> live p"
  by (auto simp: switch_writer_def elim: stream_Flush_live split: option.splits if_splits)

lemma switch_writer_inv:
  assumes "switch_writer c r p = (p', e)" "live p'" "stream_inv h p"
  shows "e = None \<and> stream_inv h p' \<and> producer_view (pp_stream p') = producer_view (pp_stream p) \<and> pp_cfg p' = pp_cfg p"
proof (cases "p' = p \<and> e = None")
  case False
  then obtain other where o: "stream_Flush c other p = (p', e)"
    using assms(1) by (auto simp: switch_writer_def split: option.splits if_splits)
  then show ?thesis
    using stream_Flush_inv [OF o assms(2,3)] call_frame_view by blast
qed (use assms in simp)

lemma beforeWrite_live:
  assumes "beforeWrite c r p = (p', ok)" "live p'"
  obtains w p1 where "ok" "live p" "\<not> in_sealed (pp_stream p)" "find_writer (on_stream mark_written p) r = Some w" "\<not> sw_closed w"
    "switch_writer c r (on_stream mark_written p) = (p1, None)" "live p1"
    "p' = update_writer r (\<lambda>w. w\<lparr>sw_inRow := True\<rparr>) (on_stream (\<lambda>i. i\<lparr>in_active := Some r\<rparr>) p1)"
proof -
  let ?m = "on_stream mark_written p"
  have sealed: "\<not> in_sealed (pp_stream p)" and r: "stream_ready ?m = None"
    using assms by (auto simp: beforeWrite_switch ready_live [symmetric] Let_def split: if_splits)
      (auto simp: ready_live)
  then have m: "live p"
    using live_stream(2) [of mark_written p] by (simp add: ready_live mark_written_def)
  obtain w where w: "find_writer ?m r = Some w" "\<not> sw_closed w"
    using assms sealed r by (auto simp: beforeWrite_switch Let_def split: option.splits if_splits)
  obtain p1 e where s: "switch_writer c r ?m = (p1, e)" by (cases "switch_writer c r ?m")
  have "e = None \<or> \<not> live p1"
  proof (cases "p1 = ?m \<and> e = None")
    case False
    then obtain other where o: "stream_Flush c other ?m = (p1, e)"
      using s by (auto simp: switch_writer_def split: option.splits if_splits)
    then show ?thesis
      using stream_Flush_live [OF o] by blast
  qed simp
  moreover have "live p1 \<or> p' \<noteq> p1" using assms(2) by auto
  ultimately have e: "e = None" "ok" "p' = update_writer r (\<lambda>w. w\<lparr>sw_inRow := True\<rparr>) (on_stream (\<lambda>i. i\<lparr>in_active := Some r\<rparr>) p1)"
    using assms sealed r w s by (auto simp: beforeWrite_switch Let_def split: option.splits)
  have "live p1"
    using assms(2) e(3) by (simp add: live_def update_writer_def on_stream_def)
  then show thesis
    using that m sealed w s e by blast
qed

lemma find_writer_update:
  assumes "find_writer p r = Some w" "\<And>w. sw_resource (f w) = sw_resource w"
  shows "find_writer (update_writer r f p) r = Some (f w)"
proof -
  have "find (\<lambda>w. sw_resource w = r) (map (\<lambda>w. if sw_resource w = r then f w else w) ws) = map_option f (find (\<lambda>w. sw_resource w = r) ws)" for ws
    using assms(2) by (induction ws) auto
  then show ?thesis
    using assms(1) by (simp add: find_writer_def update_writer_def on_stream_def)
qed

lemma beforeWrite_inv:
  assumes "beforeWrite c r p = (p', ok)" "live p'" "stream_inv h p"
  shows "stream_inv h p' \<and> \<not> quiet (pp_stream p') \<and> in_epochWritten (pp_stream p') \<and> pp_cfg p' = pp_cfg p \<and>
    fst (key_of p' r) = r \<and> (key_of p' r, False) \<in> set (writer_states p')"
proof -
  obtain w p1 where b: "\<not> in_sealed (pp_stream p)" "find_writer (on_stream mark_written p) r = Some w" "\<not> sw_closed w"
    "switch_writer c r (on_stream mark_written p) = (p1, None)" "live p1"
    "p' = update_writer r (\<lambda>w. w\<lparr>sw_inRow := True\<rparr>) (on_stream (\<lambda>i. i\<lparr>in_active := Some r\<rparr>) p1)"
    using beforeWrite_live [OF assms(1,2)] by metis
  have inv: "stream_inv h p1" and view: "producer_view (pp_stream p1) = producer_view (pp_stream (on_stream mark_written p))"
    and cfg: "pp_cfg p1 = pp_cfg p"
    using switch_writer_inv [OF b(4,5) mark_written_inv [OF assms(3) b(1)]] by (auto simp: on_stream_def)
  have "stream_inv h (on_stream (\<lambda>i. i\<lparr>in_active := Some r\<rparr>) p1)"
    using inv by (rule stream_inv_on_stream) (auto simp: writer_states_def)
  then have inv': "stream_inv h p'"
    unfolding b(6) by (rule stream_inv_inRow)
  have w1: "find_writer p1 r = Some w"
    using find_writer_view [OF view] b(2) by simp
  then have "find_writer (on_stream (\<lambda>i. i\<lparr>in_active := Some r\<rparr>) p1) r = Some w"
    by (simp add: find_writer_def on_stream_def)
  then have "find_writer p' r = Some (w\<lparr>sw_inRow := True\<rparr>)"
    unfolding b(6) by (rule find_writer_update) simp
  then show ?thesis
    using inv' b(1,3) cfg view [unfolded producer_view_eq] find_writer_state [of p' r "w\<lparr>sw_inRow := True\<rparr>"]
    by (auto simp: key_of_def b(6) update_writer_def on_stream_def mark_written_def quiet_def)
qed

lemma open_part_good:
  assumes "stream_inv h p" "(key, False) \<in> set (writer_states p)"
  obtains schema where "part_good schema p key (h (fst key))"
proof -
  have "\<exists>schema. part_good schema p key (h (fst key))"
    using writers_goodD [OF stream_invD(4) [OF assms(1)] assms(2)] by simp
  then show thesis using that by blast
qed

lemma part_Append_aged: "live (part_Append key a p) = live p"
  by (simp add: part_Append_def put_part_def live_def split: option.splits)

lemma stream_Append_inv:
  assumes "live (stream_Append c r a p)" "live p \<longrightarrow> stream_inv h p"
  shows "stream_inv (h(r := spec_step (BAppend a) (h r))) (stream_Append c r a p)"
proof -
  obtain p1 ok where b: "beforeWrite c r p = (p1, ok)" by (cases "beforeWrite c r p")
  have l: "live p1"
    using assms(1) b by (cases ok) (auto simp: stream_Append_def part_Append_aged)
  obtain ok "live p"
    using beforeWrite_live [OF b l] by metis
  then have p': "stream_Append c r a p = part_Append (key_of p1 r) a p1" and h: "stream_inv h p"
    using b assms(2) by (simp_all add: stream_Append_def)
  note inv = beforeWrite_inv [OF b l h]
  obtain schema where g: "part_good schema p1 (key_of p1 r) (h (fst (key_of p1 r)))"
    using open_part_good inv by blast
  show ?thesis
    using call_inv [of h p1 "key_of p1 r" "part_Append (key_of p1 r) a p1" schema "spec_step (BAppend a) (h r)"]
      part_Append_good [OF g, of a] inv by (simp add: p')
qed

lemma stream_EndRow_inv:
  assumes "stream_EndRow c r m p = (p', e)" "live p'" "live p \<longrightarrow> stream_inv h p"
  shows "stream_inv (h(r := spec_run (row_end (pp_cfg p) m) (h r))) p' \<and> live p"
proof -
  obtain p1 ok where b: "beforeWrite c r p = (p1, ok)" by (cases "beforeWrite c r p")
  obtain p2 x where f: "part_EndRow c (key_of p1 r) m p1 = (p2, x)" by (cases "part_EndRow c (key_of p1 r) m p1")
  have "live p1"
  proof (cases ok)
    case True
    then have "live p2"
      using assms(1,2) b f
      by (cases x) (auto simp: stream_EndRow_def stream_fail_def Let_def live_def update_writer_def on_stream_def)
    then show ?thesis using part_EndRow_aged [OF f] by (simp add: aged_def)
  qed (use assms(1,2) b in \<open>simp add: stream_EndRow_def\<close>)
  note l = this
  obtain ok "live p"
    using beforeWrite_live [OF b l] by metis
  then have p': "p' = update_writer r (\<lambda>w. w\<lparr>sw_inRow := False\<rparr>) p2" and h: "stream_inv h p"
    using assms b f by (cases x; auto simp: stream_EndRow_def stream_fail_def Let_def)+
  note inv = beforeWrite_inv [OF b l h]
  obtain schema where g: "part_good schema p1 (key_of p1 r) (h (fst (key_of p1 r)))"
    using open_part_good inv by blast
  have "stream_inv (h(r := spec_run (row_end (pp_cfg p) m) (h r))) p2"
    using call_inv [of h p1 "key_of p1 r" p2 schema "spec_run (row_end (pp_cfg p) m) (h r)"]
      part_EndRow_good [OF g f] inv by simp
  then show ?thesis
    using stream_inv_inRow p' \<open>live p\<close> by blast
qed

subsection \<open>Opening and closing writers\<close>

text \<open>A change of the writers that keeps what is good of those that stay.\<close>

lemma writers_inv:
  assumes inv: "stream_inv h p"
    and same: "pp_isStream p' = pp_isStream p" "pp_sent p' = pp_sent p" "in_epoch (pp_stream p') = in_epoch (pp_stream p)"
      "in_completed (pp_stream p') = in_completed (pp_stream p)" "in_sealed (pp_stream p') = in_sealed (pp_stream p)"
      "in_epochWritten (pp_stream p') = in_epochWritten (pp_stream p)" "in_touched (pp_stream p') = in_touched (pp_stream p)"
      "pp_batchCh p' = pp_batchCh p" "accounted p'"
    and ws: "distinct (map (fst \<circ> fst) (writer_states p'))" "writers_good h p'"
      "\<And>r. r \<notin> (fst \<circ> fst) ` set (writer_states p') \<Longrightarrow> h r = ([], [])"
      "\<And>x. x \<in> set (pp_sent p) \<Longrightarrow> sx_epoch x = current_epoch p \<Longrightarrow> (sx_resource x, sx_part x) \<in> fst ` set (writer_states p')"
    and q: "settled h p \<Longrightarrow> settled h p'"
  shows "stream_inv h p'"
proof -
  have e: "current_epoch p' = current_epoch p"
    using same by (simp add: current_epoch_def)
  have "tags_ok p' = tags_ok p"
    unfolding tags_ok_def e same(2) ..
  then show ?thesis
    using inv same ws q by (auto simp: stream_inv_def e quiet_def)
qed

lemma states_unique:
  assumes "stream_inv h p" "(k, cl) \<in> set (writer_states p)" "(k', cl') \<in> set (writer_states p)" "fst k = fst k'"
  shows "k = k' \<and> cl = cl'"
  using inj_onD [of "fst \<circ> fst" "set (writer_states p)" "(k, cl)" "(k', cl')"] assms by (simp add: stream_inv_def distinct_map)

lemma close_inv:
  assumes inv: "stream_inv h p" and key: "(key, False) \<in> set (writer_states p)" "all_handed p key (h (fst key))"
    and p': "pp_isStream p' = pp_isStream p" "pp_opts p' = pp_opts p" "pp_sent p' = pp_sent p" "in_epoch (pp_stream p') = in_epoch (pp_stream p)"
      "in_completed (pp_stream p') = in_completed (pp_stream p)" "in_sealed (pp_stream p') = in_sealed (pp_stream p)"
      "in_epochWritten (pp_stream p') = in_epochWritten (pp_stream p)" "in_touched (pp_stream p') = in_touched (pp_stream p)"
      "pp_batchCh p' = pp_batchCh p" "accounted p'"
      "writer_states p' = map (\<lambda>(k, cl). (k, cl \<or> fst k = fst key)) (writer_states p)"
      "\<forall>k. k \<noteq> key \<longrightarrow> map_of (pp_builders p') k = map_of (pp_builders p) k"
  shows "stream_inv h p'"
proof (rule writers_inv [OF inv])
  have hd: "handed p' = handed p"
    using p'(1,3,4) by (intro ext) (simp add: handed_def current_epoch_def)
  have res: "map (fst \<circ> fst) (writer_states p') = map (fst \<circ> fst) (writer_states p)" "map fst (writer_states p') = map fst (writer_states p)"
    by (auto simp: p'(11))
  show "distinct (map (fst \<circ> fst) (writer_states p'))"
    using inv unfolding res by (simp add: stream_inv_def)
  show "h r = ([], [])" if "r \<notin> (fst \<circ> fst) ` set (writer_states p')" for r
    using inv that arg_cong [OF res(1), of set] by (simp add: stream_inv_def)
  show "(sx_resource x, sx_part x) \<in> fst ` set (writer_states p')" if "x \<in> set (pp_sent p)" "sx_epoch x = current_epoch p" for x
    using inv that arg_cong [OF res(2), of set] by (simp add: stream_inv_def)
  have mem: "(\<exists>cl0. (k, cl0) \<in> set (writer_states p) \<and> cl = (cl0 \<or> k = key))" if m: "(k, cl) \<in> set (writer_states p')" for k cl
  proof -
    obtain cl0 where c: "(k, cl0) \<in> set (writer_states p)" "cl = (cl0 \<or> fst k = fst key)"
      using m by (auto simp: p'(11))
    then show ?thesis using states_unique [OF inv c(1) key(1)] by auto
  qed
  have ah: "all_handed p' k x = all_handed p k x" for k x
    by (simp add: all_handed_def hd)
  have part: "part_good schema p' k x = part_good schema p k x" "part_ready p' k = part_ready p k" if "k \<noteq> key" for schema k x
    using that p'(2,12) hd by (simp_all add: part_good_def part_ready_def del: split_paired_All)
  show "writers_good h p'"
    unfolding writers_good_def
  proof clarify
    fix k cl assume "(k, cl) \<in> set (writer_states p')"
    then obtain cl0 where k: "(k, cl0) \<in> set (writer_states p)" "cl = (cl0 \<or> k = key)" using mem by blast
    show "if cl then all_handed p' k (h (fst k)) else \<exists>schema. part_good schema p' k (h (fst k))"
      using writers_goodD [OF stream_invD(4) [OF inv] k(1)]
        k(2) key(2) part(1) [of k] by (cases "k = key") (auto simp: ah)
  qed
  show "settled h p'" if "settled h p"
    unfolding settled_def
  proof (intro conjI)
    show "\<forall>(k, cl) \<in> set (writer_states p'). all_handed p' k (h (fst k)) \<and> (\<not> cl \<longrightarrow> part_ready p' k)"
    proof clarify
      fix k cl assume "(k, cl) \<in> set (writer_states p')"
      then obtain cl0 where k: "(k, cl0) \<in> set (writer_states p)" "cl = (cl0 \<or> k = key)" using mem by blast
      then show "all_handed p' k (h (fst k)) \<and> (\<not> cl \<longrightarrow> part_ready p' k)"
        using settledD(1) [OF that k(1)] part(2) [of k] by (auto simp: ah)
    qed
  qed (use that p'(9) in \<open>simp add: settled_def\<close>)
qed (use p' in simp_all)

lemma stream_Close_live:
  assumes "stream_Close c r p = (p', e)" "live p'"
  obtains (same) "p' = p" "e = None"
  | (closed) w p1 where "find_writer p r = Some w" "stream_Flush c r p = (p1, e)" "live p1"
      "p' = part_Close (writer_key w) (on_stream (\<lambda>i. if in_active i = Some r then i\<lparr>in_active := None\<rparr> else i)
         (update_writer r (\<lambda>w. w\<lparr>sw_closed := True\<rparr>) p1))"
proof (cases "\<exists>w. find_writer p r = Some w \<and> \<not> sw_closed w")
  case True
  then obtain w where w: "find_writer p r = Some w" "\<not> sw_closed w" by auto
  obtain p1 x where f: "stream_Flush c r p = (p1, x)" by (cases "stream_Flush c r p")
  have p': "e = x" "p' = part_Close (writer_key w) (on_stream (\<lambda>i. if in_active i = Some r then i\<lparr>in_active := None\<rparr> else i)
         (update_writer r (\<lambda>w. w\<lparr>sw_closed := True\<rparr>) p1))"
    using assms(1) w f by (simp_all add: stream_Close_def)
  have "live p1"
    using assms(2) unfolding p'(2)
    by (simp add: live_def part_Close_def put_part_def on_stream_def update_writer_def split: option.splits if_splits)
  then show thesis
    using closed w f p' by simp
next
  case False
  then show thesis
    using assms same by (auto simp: stream_Close_def split: option.splits if_splits)
qed

lemma stream_Close_inv:
  assumes "stream_Close c r p = (p', e)" "live p'" "stream_inv h p"
  shows "stream_inv h p' \<and> e = None"
  using assms(1,2)
proof (cases rule: stream_Close_live)
  case (closed w p1)
  obtain key where f: "e = None" "stream_inv h p1" "(key, False) \<in> set (writer_states p)" "fst key = r" "call_frame key p p1"
    "all_handed p1 key (h r)"
    using stream_Flush_inv [OF closed(2,3) assms(3)] by (auto simp del: split_paired_Ex)
  have ws: "writer_states p1 = writer_states p"
    using call_frame_view [OF f(5)] by (auto intro: writer_states_view)
  have w: "writer_key w = key"
    using find_writer_state [OF closed(1)] f(3,4) states_unique [OF assms(3)] by metis
  let ?p2 = "on_stream (\<lambda>i. if in_active i = Some r then i\<lparr>in_active := None\<rparr> else i) (update_writer r (\<lambda>w. w\<lparr>sw_closed := True\<rparr>) p1)"
  have p': "p' = part_Close key ?p2"
    using closed(4) w by simp
  have sel: "pp_isStream p' = pp_isStream p1 \<and> pp_opts p' = pp_opts p1 \<and> pp_sent p' = pp_sent p1 \<and>
      pp_batchCh p' = pp_batchCh p1 \<and> pp_stream p' = pp_stream ?p2 \<and>
      (\<forall>k. k \<noteq> key \<longrightarrow> map_of (pp_builders p') k = map_of (pp_builders p1) k)"
    unfolding p' by (simp add: part_Close_def put_part_def on_stream_def update_writer_def update_conv' split: option.splits)
  have "accounted ?p2"
    unfolding update_writer_def using f(2) by (intro accounted_on_stream) (auto simp: stream_inv_def)
  then have "accounted p'"
    unfolding p' by (simp add: part_Close_def put_part_def split: option.splits)
  moreover have "writer_states p' = map (\<lambda>(k, cl). (k, cl \<or> fst k = fst key)) (writer_states p1)"
    using sel f(4) by (simp add: writer_states_def update_writer_def on_stream_def writer_key_def)
  ultimately have "stream_inv h p'"
    using f(3,4,6) ws sel
    by (intro close_inv [OF f(2), of key]) (simp_all add: on_stream_def update_writer_def)
  then show ?thesis using f(1) by simp
qed (use assms in simp)

lemma part_new:
  assumes "NewBuilder want (pp_opts p) = Some b" "handed p key = []" "map_of (pp_builders p) key = Some \<lparr>pt_builder = b, pt_slot = s\<rparr>"
    "slot_key s = key"
  shows "part_good want p key ([], [])" "part_ready p key"
proof -
  show "part_good want p key ([], [])"
    using slots.new_inv [of want "pp_opts p" b "(p, s)"] assms by (auto simp: part_good_def slot_received_def)
  show "part_ready p key"
    using assms(1,3) by (auto simp: part_ready_def NewBuilder_def split: if_splits)
qed

text \<open>A new writer for a resource that has none.\<close>

lemma open_inv:
  assumes inv: "stream_inv h p" and r: "find_writer p r = None" and b: "NewBuilder want (pp_opts p) = Some b"
    and p': "p' = on_stream (\<lambda>i. i\<lparr>in_writers := in_writers i @ [\<lparr>sw_resource = r, sw_part = part, sw_inRow = False, sw_closed = False\<rparr>]\<rparr>)
      (p\<lparr>pp_schemas := ss, pp_builders := AList.update (r, part)
           \<lparr>pt_builder = b, pt_slot = \<lparr>sl_resource = r, sl_part = part, sl_seq = 0\<rparr>\<rparr> (pp_builders p)\<rparr>)"
  shows "stream_inv h p'"
proof (rule writers_inv [OF inv])
  let ?k = "(r, part)"
  have ws: "writer_states p' = writer_states p @ [(?k, False)]"
    by (simp add: p' on_stream_def writer_states_def writer_key_def)
  have new: "r \<notin> (fst \<circ> fst) ` set (writer_states p)"
    using r by (auto simp: find_writer_def find_None_iff writer_states_def writer_key_def)
  have hd: "handed p' = handed p"
    by (intro ext) (simp add: handed_def current_epoch_def p' on_stream_def)
  have none: "h r = ([], [])" "handed p ?k = []"
    using inv new by (force simp: stream_inv_def handed_def filter_empty_conv)+
  have part: "part_good schema p' k x = part_good schema p k x" "part_ready p' k = part_ready p k" "all_handed p' k x = all_handed p k x"
    if "k \<noteq> ?k" for schema k x
    using that hd by (simp_all add: part_good_def part_ready_def all_handed_def p' on_stream_def update_conv')
  have old: "k \<noteq> ?k" if "(k, cl) \<in> set (writer_states p)" for k cl
    using that new by force
  have mine: "part_good want p' ?k ([], [])" "part_ready p' ?k"
    using part_new [of want p' b ?k] b none(2) hd by (simp_all add: p' on_stream_def update_conv' slot_key_def)
  show "distinct (map (fst \<circ> fst) (writer_states p'))"
    using inv new by (simp add: ws stream_inv_def)
  show "h x = ([], [])" if "x \<notin> (fst \<circ> fst) ` set (writer_states p')" for x
    using inv that by (auto simp: ws stream_inv_def)
  show "(sx_resource x, sx_part x) \<in> fst ` set (writer_states p')" if "x \<in> set (pp_sent p)" "sx_epoch x = current_epoch p" for x
    using inv that by (auto simp: ws stream_inv_def)
  show "writers_good h p'"
  proof (rule writers_goodI)
    fix k cl assume "(k, cl) \<in> set (writer_states p')"
    then consider "k = ?k" "\<not> cl" | "(k, cl) \<in> set (writer_states p)" by (auto simp: ws)
    then show "if cl then all_handed p' k (h (fst k)) else \<exists>schema. part_good schema p' k (h (fst k))"
    proof cases
      case 2
      then show ?thesis
        using writers_goodD [OF stream_invD(4) [OF inv] 2] part [OF old [OF 2]]
        by simp
    qed (use mine(1) none(1) in auto)
  qed
  show "settled h p'" if "settled h p"
  proof (rule settledI)
    fix k cl assume "(k, cl) \<in> set (writer_states p')"
    then consider "k = ?k" | "(k, cl) \<in> set (writer_states p)" by (auto simp: ws)
    then show "all_handed p' k (h (fst k)) \<and> (\<not> cl \<longrightarrow> part_ready p' k)"
    proof cases
      case 2
      then show ?thesis using settledD(1) [OF that 2] part [OF old [OF 2]] by simp
    qed (use mine(2) none hd all_handed_none [of p' ?k] in auto)
  qed (use that in \<open>auto simp: settled_def p' on_stream_def\<close>)
  show "accounted p'"
    using inv unfolding p' by (intro accounted_on_stream) (auto simp: stream_inv_def accounted_def current_epoch_def)
qed (simp_all add: p' on_stream_def)

lemma inlet_Builder_cases:
  assumes "inlet_Builder c r part schema p = (p', e)"
  obtains (failed) x ss where "e = Some x" "p' = p\<lparr>pp_schemas := ss\<rparr>"
  | (opened) ss want b where "e = None" "NewBuilder want (pp_opts p) = Some b"
      "p' = p\<lparr>pp_schemas := ss, pp_builders := AList.update (r, part)
           \<lparr>pt_builder = b, pt_slot = \<lparr>sl_resource = r, sl_part = part, sl_seq = 0\<rparr>\<rparr> (pp_builders p)\<rparr>"
proof -
  have "(\<exists>x. e = Some x \<and> p' = p) \<or> (\<exists>want p1. open_builder r part want p1 = (p', e) \<and> (p1 = p \<or> (\<exists>ss. p1 = p\<lparr>pp_schemas := ss\<rparr>)))"
    using assms unfolding inlet_Builder_def by (auto split: sum.splits option.splits if_splits)
  then consider x where "e = Some x" "p' = p\<lparr>pp_schemas := pp_schemas p\<rparr>"
    | want ss where "open_builder r part want (p\<lparr>pp_schemas := ss\<rparr>) = (p', e)"
    by (metis pipeline.surjective pipeline.update_convs(5))
  then show thesis
  proof cases
    case (2 want ss)
    then show thesis
      using failed opened by (auto simp: open_builder_def split: option.splits if_splits)
  qed (use failed in blast)
qed

lemma stream_inv_registry:
  assumes "stream_inv h p"
  shows "stream_inv h (p\<lparr>pp_schemas := ss\<rparr>)" "stream_inv h (p\<lparr>pp_messageSchemas := ms\<rparr>)"
proof -
  have a: "accounted p" using assms by (rule stream_invD)
  show "stream_inv h (p\<lparr>pp_schemas := ss\<rparr>)" "stream_inv h (p\<lparr>pp_messageSchemas := ms\<rparr>)"
    by (rule stream_inv_cong [OF assms]; use a in \<open>simp add: writer_states_def accounted_def\<close>)+
qed

lemma stream_Builder_inv:
  assumes "stream_Builder c r part schema p = (p', e)" "live p'" "live p \<longrightarrow> stream_inv h p"
  shows "stream_inv h p' \<and> live p"
proof (cases "live p \<and> find_writer p r = None")
  case True
  then have r: "stream_ready p = None" by (simp add: ready_live)
  obtain p1 x where b: "inlet_Builder c r part schema p = (p1, x)" by (cases "inlet_Builder c r part schema p")
  from b show ?thesis
  proof (cases rule: inlet_Builder_cases)
    case (failed y ss)
    then have "p' = p\<lparr>pp_schemas := ss\<rparr>"
      using assms(1) b True r by (simp add: stream_Builder_def)
    then show ?thesis
      using True assms(3) stream_inv_registry by blast
  next
    case (opened ss want b')
    then show ?thesis
      using assms b True open_inv [OF _ _ opened(2), of h r p' part ss] r by (simp add: stream_Builder_def)
  qed
next
  case False
  then show ?thesis
    using assms by (auto simp: stream_Builder_def ready_live [symmetric] split: option.splits if_splits)
qed

text \<open>A writer is replaced only before the epoch's first row.\<close>

lemma drop_inv:
  assumes inv: "stream_inv h p" and n: "\<not> in_epochWritten (pp_stream p)"
  shows "stream_inv h (drop_writer r p)"
proof (rule writers_inv [OF inv])
  let ?p = "drop_writer r p"
  have ws: "writer_states ?p = filter (\<lambda>x. fst (fst x) \<noteq> r) (writer_states p)"
    by (simp add: drop_writer_def on_stream_def writer_states_def writer_key_def filter_map o_def)
  have hd: "handed ?p = handed p"
    by (intro ext) (simp add: handed_def current_epoch_def drop_writer_def on_stream_def)
  have none: "h x = ([], [])" for x
    using stream_invD(9) [OF inv n] .
  have settled: "settled h p"
    using stream_invD(7) [OF inv] n by (simp add: quiet_def)
  have b: "map_of (pp_builders ?p) k = map_of (pp_builders p) k" if "fst k \<noteq> r" for k
  proof -
    have "map_of (filter (\<lambda>(key, _). fst key \<noteq> r) xs) k = map_of xs k" for xs :: "((string \<times> int) \<times> part_builder) list"
      using that by (induction xs) auto
    then show ?thesis by (simp add: drop_writer_def)
  qed
  have part: "part_good schema ?p k x = part_good schema p k x" "part_ready ?p k = part_ready p k" "all_handed ?p k x = all_handed p k x"
    if "fst k \<noteq> r" for schema k x
    using b [OF that] hd by (simp_all add: part_good_def part_ready_def all_handed_def) (simp add: drop_writer_def on_stream_def)
  show "distinct (map (fst \<circ> fst) (writer_states ?p))"
    using stream_invD(3) [OF inv] by (simp add: ws distinct_map_filter)
  show "h x = ([], [])" for x by (rule none)
  show "(sx_resource x, sx_part x) \<in> fst ` set (writer_states ?p)" if x: "x \<in> set (pp_sent p)" "sx_epoch x = current_epoch p" for x
  proof -
    obtain cl where k: "((sx_resource x, sx_part x), cl) \<in> set (writer_states p)"
      using stream_invD(6) [OF inv x] by auto
    have "handed p (sx_resource x, sx_part x) = []"
      using settledD(1) [OF settled k] none all_handed_none by metis
    then show ?thesis using x by (auto simp: handed_def filter_empty_conv)
  qed
  show "writers_good h ?p"
  proof (rule writers_goodI)
    fix k cl assume "(k, cl) \<in> set (writer_states ?p)"
    then have k: "fst k \<noteq> r" "(k, cl) \<in> set (writer_states p)" by (simp_all add: ws)
    show "if cl then all_handed ?p k (h (fst k)) else \<exists>schema. part_good schema ?p k (h (fst k))"
      using writers_goodD [OF stream_invD(4) [OF inv] k(2)] part [OF k(1)] by simp
  qed
  show "settled h ?p"
  proof (rule settledI)
    fix k cl assume "(k, cl) \<in> set (writer_states ?p)"
    then have k: "fst k \<noteq> r" "(k, cl) \<in> set (writer_states p)" by (simp_all add: ws)
    show "all_handed ?p k (h (fst k)) \<and> (\<not> cl \<longrightarrow> part_ready ?p k)"
      using settledD(1) [OF settled k(2)] part [OF k(1)] by simp
  qed (use settledD(2) [OF settled] in \<open>simp add: drop_writer_def on_stream_def\<close>)
  show "accounted ?p"
    using stream_invD(2) [OF inv] by (auto simp: drop_writer_def on_stream_def accounted_def current_epoch_def counted_def)
qed (simp_all add: drop_writer_def on_stream_def)

lemma set_layout_inv: "stream_inv h p \<Longrightarrow> stream_inv h (set_layout r layout p)"
  by (simp add: set_layout_def stream_inv_registry)

lemma live_registry [simp]: "live (set_layout r layout p) = live p" "live (drop_writer r p) = live p"
  by (simp_all add: live_def set_layout_def drop_writer_def on_stream_def)

lemma reopen_inv:
  assumes "(case stream_Builder c r 0 model p of (p, Some e) \<Rightarrow> (p, Some e) | (p, None) \<Rightarrow> (set_layout r layout p, None)) = (p', e)"
    "live p'" "live p \<longrightarrow> stream_inv h p"
  shows "stream_inv h p' \<and> live p"
proof -
  obtain p1 x where b: "stream_Builder c r 0 model p = (p1, x)" by (cases "stream_Builder c r 0 model p")
  then have "p' = p1 \<or> p' = set_layout r layout p1"
    using assms(1) by (auto split: option.splits)
  then show ?thesis
    using stream_Builder_inv [OF b _ assms(3)] assms(2) set_layout_inv by auto
qed

lemma stream_Close_aged:
  assumes "stream_Close c r p = (p', e)" "live p'"
  shows "live p \<and> (in_epochWritten (pp_stream p') = in_epochWritten (pp_stream p) \<or> \<not> stream_inv h p)"
  using assms
proof (cases rule: stream_Close_live)
  case (closed w p1)
  have "live p"
    using stream_Flush_live [OF closed(2,3)] by metis
  moreover have "in_epochWritten (pp_stream p') = in_epochWritten (pp_stream p)" if "stream_inv h p"
  proof -
    have "producer_view (pp_stream p1) = producer_view (pp_stream p)"
      using stream_Flush_inv [OF closed(2,3) that] call_frame_view by blast
    then show ?thesis
      by (simp add: closed(4) producer_view_eq part_Close_def put_part_def on_stream_def update_writer_def split: option.splits)
  qed
  ultimately show ?thesis by blast
qed (use assms(2) in simp)

lemma MessageBuilder_inv:
  assumes "MessageBuilder c ctx r model layout p = (p', e)" "live p'" "live p \<longrightarrow> stream_inv h p"
  shows "stream_inv h p' \<and> live p"
proof (cases "orelse_err ctx (orelse_err (stream_ready p) (message_err c r model layout p))")
  case (Some x)
  then show ?thesis using assms by (simp add: MessageBuilder_def)
next
  case ok: None
  then have l: "live p" and n: "\<not> in_epochWritten (pp_stream p)"
    by (auto simp: err_simps ready_live message_err_def Let_def split: if_splits)
  then have inv: "stream_inv h p" using assms(3) by simp
  show ?thesis
  proof (cases "find_writer p r")
    case [simp]: (Some w)
    show ?thesis
    proof (cases "case map_of (pp_schemas p) r of None \<Rightarrow> False | Some reg \<Rightarrow> Schema_Equal (rg_model reg) model")
      case True
      then show ?thesis
        using assms(1) ok l inv set_layout_inv by (auto simp: MessageBuilder_def Let_def)
    next
      case False
      obtain p1 x where c: "stream_Close c r p = (p1, x)" by (cases "stream_Close c r p")
      show ?thesis
      proof (cases x)
        case (Some y)
        then have "p' = p1" using assms(1) ok False c by (simp add: MessageBuilder_def Let_def)
        then show ?thesis using stream_Close_inv [OF c _ inv] assms(2) l by simp
      next
        case x: None
        have r: "(case stream_Builder c r 0 model (drop_writer r p1) of (p, Some e) \<Rightarrow> (p, Some e)
            | (p, None) \<Rightarrow> (set_layout r layout p, None)) = (p', e)"
          using assms(1) ok False c x by (simp add: MessageBuilder_def Let_def)
        have "stream_inv h (drop_writer r p1)" if "live p1"
          using stream_Close_inv [OF c that inv] stream_Close_aged [OF c that, of h] inv n drop_inv by blast
        then show ?thesis
          using reopen_inv [OF r assms(2), of h] l by auto
      qed
    qed
  next
    case None
    then have "(case stream_Builder c r 0 model p of (p, Some e) \<Rightarrow> (p, Some e) | (p, None) \<Rightarrow> (set_layout r layout p, None)) = (p', e)"
      using assms(1) ok by (simp add: MessageBuilder_def Let_def)
    then show ?thesis
      using reopen_inv assms(2,3) by blast
  qed
qed

subsection \<open>Epochs\<close>

lemma SealEpoch_inv:
  assumes "SealEpoch p = (p', res)" "live p'" "live p \<longrightarrow> stream_inv h p"
  shows "stream_inv h p' \<and> live p"
proof (cases res)
  case (Inl x)
  then have "p' = p"
    using assms(1) by (auto simp: SealEpoch_def Let_def split: if_splits option.splits)
  then show ?thesis using assms by simp
next
  case (Inr cm)
  then have p': "p' = on_stream (\<lambda>i. i\<lparr>in_sealed := True\<rparr>) p" "in_completed (pp_stream p) \<noteq> []"
    using assms(1) by (auto simp: SealEpoch_def Let_def split: if_splits option.splits)
  then have l: "live p" using assms(2) by (simp add: live_def on_stream_def)
  then have inv: "stream_inv h p" using assms(3) by simp
  have "accounted p'"
    unfolding p'(1) by (intro accounted_on_stream) (use stream_invD(2) [OF inv] in auto)
  then have "stream_inv h p'"
    using stream_invD(8,11,12) [OF inv] p'
    by (intro stream_inv_mono [OF inv]) (auto simp: on_stream_def writer_states_def quiet_def)
  then show ?thesis using l by simp
qed

lemma no_batches_of_epoch:
  assumes "stream_inv h p" "\<not> in_epochWritten (pp_stream p)" "x \<in> set (pp_sent p)"
  shows "sx_epoch x \<noteq> current_epoch p"
proof
  assume e: "sx_epoch x = current_epoch p"
  obtain cl where k: "((sx_resource x, sx_part x), cl) \<in> set (writer_states p)"
    using stream_invD(6) [OF assms(1,3) e] by auto
  have "settled h p"
    using stream_invD(7) [OF assms(1)] assms(2) by (simp add: quiet_def)
  then have "handed p (sx_resource x, sx_part x) = []"
    using settledD(1) [OF _ k] stream_invD(9) [OF assms(1,2)] all_handed_none by metis
  then show False
    using assms(3) e by (auto simp: handed_def filter_empty_conv)
qed

text \<open>A newly bound epoch is later than every epoch a batch was queued in.\<close>

lemma BindEpoch_later:
  assumes "BindEpoch ref p = (p', None)" "stream_inv h p" "live p" "int64 (er_Epoch ref)" "x \<in> set (pp_sent p)"
  shows "\<exists>r. sx_epoch x = Some r \<and> er_Epoch r < er_Epoch ref"
proof -
  have r: "stream_ready p = None" using assms(3) by (simp add: ready_live)
  have pos: "0 < er_Epoch ref"
    using assms(1) by (auto simp: BindEpoch_def EpochRef_Validate_def err_simps split: option.splits if_splits)
  have e: "current_epoch p = in_epoch (pp_stream p)"
    using stream_invD(1) [OF assms(2)] by (simp add: current_epoch_def)
  show ?thesis
  proof (cases "in_epoch (pp_stream p)")
    case None
    then have "\<not> in_epochWritten (pp_stream p)"
      using assms(1) r stream_invD(8) [OF assms(2)] by (auto simp: BindEpoch_def split: option.splits if_splits)
    then have "sx_epoch x \<noteq> None"
      using no_batches_of_epoch [OF assms(2) _ assms(5)] None e by simp
    then show ?thesis
      using stream_invD(10) [OF assms(2)] assms(5) None e by (fastforce simp: tags_ok_def)
  next
    case (Some cur)
    then have "er_Epoch ref = wrap64 (er_Epoch cur + 1)"
      using assms(1) r by (auto simp: BindEpoch_def split: option.splits if_splits)
    moreover have "int64 (er_Epoch cur)" using stream_invD(13) [OF assms(2)] Some e by (simp add: epoch_ok_def)
    ultimately have "er_Epoch cur < er_Epoch ref"
      using pos wrap64_over [of "er_Epoch cur + 1"] by (cases "er_Epoch cur + 1 < 2 ^ 63") (auto simp: int64_def)
    then show ?thesis
      using stream_invD(10) [OF assms(2)] assms(5) Some e by (fastforce simp: tags_ok_def split: option.splits)
  qed
qed

lemma BindEpoch_success:
  assumes "BindEpoch ref p = (p', None)" "stream_inv h p"
  shows "p' = on_stream (\<lambda>i. i\<lparr>in_epoch := Some ref, in_sealed := False, in_epochWritten := False, in_completed := [],
      in_epochRows := 0, in_epochBytes := 0, in_epochResources := []\<rparr>) p" "live p" "quiet (pp_stream p)"
  using assms(1) stream_invD(8) [OF assms(2)]
  by (auto simp: BindEpoch_def ready_live [symmetric] quiet_def split: option.splits if_splits)

lemma part_good_reset:
  assumes "part_good schema p k spec" "all_handed p k spec" "part_ready p k" "pp_opts p' = pp_opts p" "pp_builders p' = pp_builders p"
    "handed p' k = []"
  shows "part_good schema p' k ([], [])"
proof -
  obtain pt where pt: "map_of (pp_builders p) k = Some pt" "slot_key (pt_slot pt) = k"
    "builder_inv schema (pp_opts p) (handed p k) spec (pt_builder pt)"
    using assms(1) by (auto simp: part_good_def)
  then have "builder_inv schema (pp_opts p) [] ([], []) (pt_builder pt)"
    using assms(2,3) by (auto simp: builder_inv_def all_handed_def part_ready_def)
  then show ?thesis
    using pt assms(4-6) by (auto simp: part_good_def)
qed

lemma BindEpoch_inv:
  assumes b: "BindEpoch ref p = (p', None)" and inv: "stream_inv h p" and i: "int64 (er_Epoch ref)"
  shows "stream_inv (\<lambda>_. ([], [])) p'"
proof -
  note p' = BindEpoch_success [OF b inv]
  have settled: "settled h p" using stream_invD(7) [OF inv p'(3)] .
  have isS: "pp_isStream p'" and e: "current_epoch p' = Some ref"
    using stream_invD(1) [OF inv] by (auto simp: p'(1) on_stream_def current_epoch_def)
  have sel: "pp_sent p' = pp_sent p" "writer_states p' = writer_states p" "pp_batchCh p' = pp_batchCh p" "pp_applied p' = pp_applied p"
    "pp_opts p' = pp_opts p" "pp_builders p' = pp_builders p" "pp_errVal p' = pp_errVal p"
    by (simp_all add: p'(1) on_stream_def writer_states_def)
  have later: "\<exists>r. sx_epoch x = Some r \<and> er_Epoch r < er_Epoch ref" if "x \<in> set (pp_sent p)" for x
    using BindEpoch_later [OF b inv p'(2) i that] .
  then have fresh: "sx_epoch x \<noteq> Some ref" if "x \<in> set (pp_sent p)" for x
    using that by fastforce
  then have hd: "handed p' k = []" for k
    by (auto simp: handed_def e sel filter_empty_conv)
  have err: "pp_errVal p = None" using p'(2) by (simp add: live_def)
  have acc: "pp_sent p = map ax_sent (pp_applied p) @ concat (map batch_list (pp_batchCh p))"
    "list_all (queue_item_ok (current_epoch p)) (pp_batchCh p)"
    using stream_invD(2) [OF inv] err by (simp_all add: accounted_def)
  have "of_epoch (Some ref) (pp_applied p) = []"
    using fresh acc(1) by (auto simp: of_epoch_def filter_empty_conv)
  moreover have "list_all (queue_item_ok (Some ref)) (pp_batchCh p)"
    using acc(2) settledD(2) [OF settled] by (auto simp: list_all_iff queue_item_ok_def)
  ultimately have "accounted p'"
    using acc(1) by (simp add: accounted_def e sel counted_empty) (simp add: p'(1) on_stream_def counted_empty)
  moreover have "writers_good (\<lambda>_. ([], [])) p'"
  proof (rule writers_goodI, unfold sel(2))
    fix k cl assume k: "(k, cl) \<in> set (writer_states p)"
    show "if cl then all_handed p' k ([], []) else \<exists>schema. part_good schema p' k ([], [])"
    proof (cases cl)
      case False
      then obtain schema where g: "part_good schema p k (h (fst k))"
        using writers_goodD [OF stream_invD(4) [OF inv] k] by auto
      have "all_handed p k (h (fst k))" "part_ready p k"
        using settledD(1) [OF settled k] False by simp_all
      then have "part_good schema p' k ([], [])"
        by (rule part_good_reset [OF g _ _ sel(5,6) hd])
      then show ?thesis using False by auto
    qed (simp add: all_handed_none hd)
  qed
  moreover have "settled (\<lambda>_. ([], [])) p'"
    using settledD [OF settled] by (intro settledI) (auto simp: sel all_handed_none hd part_ready_def)
  moreover have "tags_ok p'"
    using later by (fastforce simp: tags_ok_def sel e)
  ultimately show ?thesis
    using isS stream_invD(3) [OF inv] fresh i
    by (auto simp: stream_inv_def sel e epoch_ok_def) (auto simp: p'(1) on_stream_def positions_valid_def)
qed

subsection \<open>Barriers\<close>

lemma flush_each_live: "flush_each c rs p = (p', e) \<Longrightarrow> live p' \<Longrightarrow> live p"
proof (induction rs arbitrary: p)
  case (Cons r rs)
  obtain p1 x where f: "stream_Flush c r p = (p1, x)" by (cases "stream_Flush c r p")
  have "live p1"
    using Cons f by (cases x) auto
  then show ?case
    using stream_Flush_live [OF f] by metis
qed simp

lemma flush_each_inv:
  assumes "flush_each c rs p = (p', e)" "live p'" "stream_inv h p"
  shows "e = None \<and> stream_inv h p' \<and> producer_view (pp_stream p') = producer_view (pp_stream p) \<and>
    (\<forall>k cl. (k, cl) \<in> set (writer_states p) \<longrightarrow> fst k \<in> set rs \<or> all_handed p k (h (fst k)) \<and> part_ready p k \<longrightarrow>
      all_handed p' k (h (fst k)) \<and> part_ready p' k)"
  using assms
proof (induction rs arbitrary: p)
  case (Cons r rs)
  obtain p1 x where f: "stream_Flush c r p = (p1, x)" by (cases "stream_Flush c r p")
  have l: "live p1"
    using Cons.prems(1,2) f flush_each_live by (cases x) auto
  obtain key where k: "x = None" "stream_inv h p1" "(key, False) \<in> set (writer_states p)" "fst key = r" "call_frame key p p1"
    "all_handed p1 key (h r)" "part_ready p1 key"
    using stream_Flush_inv [OF f l Cons.prems(3)] by (auto simp del: split_paired_Ex)
  have v: "producer_view (pp_stream p1) = producer_view (pp_stream p)"
    using call_frame_view [OF k(5)] by simp
  have rest: "flush_each c rs p1 = (p', e)"
    using Cons.prems(1) f k(1) by simp
  have IH: "e = None" "stream_inv h p'" "producer_view (pp_stream p') = producer_view (pp_stream p1)"
    "\<And>k cl. (k, cl) \<in> set (writer_states p) \<Longrightarrow> fst k \<in> set rs \<or> all_handed p1 k (h (fst k)) \<and> part_ready p1 k \<Longrightarrow>
      all_handed p' k (h (fst k)) \<and> part_ready p' k"
    using Cons.IH [OF rest Cons.prems(2) k(2), unfolded writer_states_view [OF v]] by blast+
  have "all_handed p' j (h (fst j)) \<and> part_ready p' j"
    if j: "(j, cl) \<in> set (writer_states p)" "fst j \<in> set (r # rs) \<or> all_handed p j (h (fst j)) \<and> part_ready p j" for j cl
  proof (cases "fst j = r")
    case True
    then have "j = key" using states_unique [OF Cons.prems(3) j(1) k(3)] k(4) by simp
    then show ?thesis using IH(4) [OF j(1)] k(4,6,7) by simp
  next
    case False
    then have "j \<noteq> key" using k(4) by auto
    then show ?thesis using IH(4) [OF j(1)] j(2) False other_part [OF k(5)] by auto
  qed
  moreover have "producer_view (pp_stream p') = producer_view (pp_stream p)"
    using IH(3) v by simp
  ultimately show ?case using IH(1,2) by blast
qed simp

text \<open>After the writer has drained the channel, what was flushed is applied.\<close>

lemma flush_settled:
  assumes "stream_flush c p = (p', e)" "live p'" "stream_inv h p"
    and q: "pp_isStream q = pp_isStream p'" "pp_opts q = pp_opts p'" "pp_builders q = pp_builders p'" "pp_sent q = pp_sent p'"
      "producer_view (pp_stream q) = producer_view ((pp_stream p')\<lparr>in_sequence := n\<rparr>)" "pp_batchCh q = []" "accounted q"
  shows "stream_inv h q \<and> settled h q"
proof -
  note f = flush_each_inv [OF assms(1) [unfolded stream_flush_def] assms(2,3)]
  then have inv: "stream_inv h p'" by blast
  have ws: "writer_states p' = writer_states p" and view: "producer_view (pp_stream p') = producer_view (pp_stream p)"
    using f writer_states_view by blast+
  have fields: "writer_states q = writer_states p'" "in_epoch (pp_stream q) = in_epoch (pp_stream p')"
    using q(5) by (simp_all add: producer_view_eq writer_states_def)
  have qinv: "stream_inv h q"
    using q fields by (intro stream_inv_cong [OF inv]) (simp_all add: producer_view_eq)
  note wq = fields(1)
  have "handed q = handed p'"
    using q(1,4) fields(2) by (intro ext) (simp add: handed_def current_epoch_def)
  then have same: "all_handed q k x = all_handed p' k x" "part_ready q k = part_ready p' k" for k x
    using q(3) by (simp_all add: all_handed_def part_ready_def)
  have "settled h q"
  proof (rule settledI)
    fix k cl assume k: "(k, cl) \<in> set (writer_states q)"
    show "all_handed q k (h (fst k)) \<and> (\<not> cl \<longrightarrow> part_ready q k)"
    proof (cases cl)
      case True
      then show ?thesis
        using writers_goodD [OF stream_invD(4) [OF inv], of k cl] k wq same by simp
    next
      case False
      have "fst k \<in> set (map sw_resource (filter (\<lambda>w. \<not> sw_closed w) (in_writers (pp_stream p))))"
      proof -
        have "(k, False) \<in> set (writer_states p)" using k False wq ws by simp
        then show ?thesis by (auto simp: writer_states_def writer_key_def)
      qed
      moreover have "(k, cl) \<in> set (writer_states p)" using k wq ws by simp
      ultimately have "all_handed p' k (h (fst k)) \<and> part_ready p' k" using f by blast
      then show ?thesis using same by simp
    qed
  qed (simp add: q(6))
  then show ?thesis using qinv by simp
qed

lemma complete_control_inv:
  assumes "stream_inv h p" "settled h p" "Control_Validate ctl = None"
  shows "stream_inv h (on_stream (complete_control ctl) p)"
proof -
  have entry: "entry_err (ct_Domain ctl, ct_Position ctl) = None"
    using assms(3) by (auto simp: Control_Validate_def entry_err_def err_simps)
  let ?i = "complete_control ctl (pp_stream p)"
  have keep: "in_epoch ?i = in_epoch (pp_stream p) \<and> in_writers ?i = in_writers (pp_stream p) \<and> in_touched ?i = in_touched (pp_stream p) \<and>
      in_epochWritten ?i = in_epochWritten (pp_stream p) \<and> in_epochRows ?i = in_epochRows (pp_stream p) \<and>
      in_epochBytes ?i = in_epochBytes (pp_stream p) \<and> in_epochResources ?i = in_epochResources (pp_stream p) \<and>
      (in_completed ?i = in_completed (pp_stream p) \<or>
       in_completed ?i = AList.update (ct_Domain ctl) (ct_Position ctl) (in_completed (pp_stream p)))"
    by (auto simp: complete_control_def acceptControl_def Let_def split: control_kind.splits)
  have "set (AList.update k v m) \<subseteq> insert (k, v) (set m)" for k :: domain_key and v :: position and m
    by (induction m) auto
  then have "positions_valid (in_completed ?i)"
    using keep entry stream_invD(11) [OF assms(1)] by (fastforce simp: positions_valid_def)
  moreover have "distinct (map fst (in_completed ?i))"
    using keep stream_invD(12) [OF assms(1)] distinct_update by auto
  moreover have "accounted (on_stream (complete_control ctl) p)"
    using keep stream_invD(2) [OF assms(1)] by (intro accounted_on_stream) auto
  ultimately show ?thesis
    using keep assms(2) stream_invD(8) [OF assms(1)]
    by (intro stream_inv_mono [OF assms(1)]) (simp_all add: on_stream_def writer_states_def)
qed

lemma await_control_cases:
  assumes "await_control c late ctl p = (p', res)" "live p'"
  obtains q where "follows p q" "pp_sent q = pp_sent p" "pp_batchCh q = []" "accounted p \<longrightarrow> accounted q" "live q"
    "p' = q \<or> p' = on_stream (complete_control ctl) q"
proof -
  obtain p1 x where i: "interleave c p = (p1, x)" by (cases "interleave c p")
  let ?q = "writer_rounds c (length (pp_batchCh p1)) p1"
  have f: "follows p ?q" "pp_sent ?q = pp_sent p" "pp_batchCh ?q = []" "accounted p \<longrightarrow> accounted ?q"
    using interleave_follows [OF i] writer_rounds_follows [of p1 c "length (pp_batchCh p1)"] follows_trans
      interleave_accounted [OF _ i] writer_rounds_accounted by auto
  have "p' = ?q \<or> (\<exists>e. p' = setErr e ?q) \<or> p' = on_stream (complete_control ctl) ?q"
    using assms(1) i by (auto simp: await_control_def Let_def split: option.splits)
  moreover have "live ?q" if "p' = on_stream (complete_control ctl) ?q"
    using assms(2) that
    by (auto simp: live_def on_stream_def complete_control_def acceptControl_def Let_def split: control_kind.splits if_splits)
  ultimately show thesis
    using that f assms(2) by auto
qed

lemma Barrier_cases:
  assumes "Barrier c early late ctl p = (p', res)" "live p'"
  obtains (same) "p' = p"
  | (sent) p2 b p4 where "live p" "Control_Validate ctl = None" "bt_rows b = None" "bt_Control b \<noteq> None"
      "stream_flush c (on_stream (\<lambda>i. i\<lparr>in_touched := True\<rparr>) p) = (p2, None)"
      "Pipeline_send c \<lparr>qu_batch = b, qu_epoch = None\<rparr>
         ((on_stream (\<lambda>i. i\<lparr>in_sequence := in_sequence i + 1\<rparr>) p2)\<lparr>pp_receipt := None\<rparr>) = (p4, None)"
      "await_control c late ctl p4 = (p', res)"
proof (cases "\<not> pp_isStream p \<or> in_sealed (pp_stream p)")
  case True
  then show thesis using assms(1) same by (auto simp: Barrier_def split: if_splits)
next
  case False
  let ?p1 = "on_stream (\<lambda>i. i\<lparr>in_touched := True\<rparr>) p"
  have l: "stream_ready ?p1 = None"
  proof (rule ccontr)
    assume n: "stream_ready ?p1 \<noteq> None"
    then have "p' = ?p1" using assms(1) False by (auto simp: Barrier_def Let_def)
    then show False using n assms(2) ready_live [of ?p1] by simp
  qed
  have lp: "live p" using l live_stream(2) [of "\<lambda>i. i\<lparr>in_touched := True\<rparr>" p] by (simp add: ready_live)
  have v: "orelse_err early (validateControl (pp_stream ?p1) ctl) = None"
    using assms False l by (auto simp: Barrier_def Let_def split: option.splits)
  then have cv: "Control_Validate ctl = None" by (simp add: validateControl_def err_simps)
  then have nc: "NewControl ctl = Inr (empty_batch\<lparr>bt_Control := Some ctl\<rparr>)"
    by (simp add: NewControl_def check_err_def)
  obtain p2 x where f: "stream_flush c ?p1 = (p2, x)" by (cases "stream_flush c ?p1")
  have [simp]: "x = None"
    using assms False l v nc f by (cases x) (auto simp: Barrier_def Let_def)
  let ?p3 = "(on_stream (\<lambda>i. i\<lparr>in_sequence := in_sequence i + 1\<rparr>) p2)\<lparr>pp_receipt := None\<rparr>"
  let ?b = "empty_batch\<lparr>bt_Control := Some ctl, bt_Seq := in_sequence (pp_stream ?p3)\<rparr>"
  obtain p4 y where s: "Pipeline_send c \<lparr>qu_batch = ?b, qu_epoch = None\<rparr> ?p3 = (p4, y)"
    by (cases "Pipeline_send c \<lparr>qu_batch = ?b, qu_epoch = None\<rparr> ?p3")
  have y: "y = None"
  proof (rule ccontr)
    assume "y \<noteq> None"
    then have "p' = p4" using assms(1) False l v nc f s by (auto simp: Barrier_def Let_def)
    moreover have "pp_done p4" using Pipeline_send_follows [OF s] \<open>y \<noteq> None\<close> by simp
    ultimately show False using assms(2) by (simp add: live_def)
  qed
  have "await_control c late ctl p4 = (p', res)"
    using assms(1) False l v nc f s y by (simp add: Barrier_def Let_def)
  then show thesis
    using sent [OF lp cv, of ?b p2 p4] f s y by (simp add: empty_batch_def)
qed

lemma Barrier_inv:
  assumes "Barrier c early late ctl p = (p', res)" "live p'" "live p \<longrightarrow> stream_inv h p"
  shows "stream_inv h p' \<and> live p"
  using assms(1,2)
proof (cases rule: Barrier_cases)
  case (sent p2 b p4)
  let ?p1 = "on_stream (\<lambda>i. i\<lparr>in_touched := True\<rparr>) p"
  let ?p3 = "(on_stream (\<lambda>i. i\<lparr>in_sequence := in_sequence i + 1\<rparr>) p2)\<lparr>pp_receipt := None\<rparr>"
  have p1: "stream_inv h ?p1"
    using sent(1) assms(3) by (intro stream_inv_on_stream) (auto simp: writer_states_def)
  note s = Pipeline_send_follows [OF sent(6)]
  obtain q where q: "follows p4 q" "pp_sent q = pp_sent p4" "pp_batchCh q = []" "accounted p4 \<longrightarrow> accounted q" "live q"
    "p' = q \<or> p' = on_stream (complete_control ctl) q"
    using await_control_cases [OF sent(7) assms(2)] by metis
  have f: "follows ?p3 q" "pp_sent q = pp_sent p2"
    using s q(1,2) follows_trans sent(3) by (auto simp: on_stream_def)
  have "live ?p3" using follows_aged [OF f(1)] q(5) by (simp add: aged_def)
  then have l2: "live p2" by (simp add: live_def on_stream_def)
  have p2: "stream_inv h p2"
    using flush_each_inv [OF sent(5) [unfolded stream_flush_def] l2 p1] by blast
  have "accounted ?p3"
    using accounted_on_stream [of p2 "\<lambda>i. i\<lparr>in_sequence := in_sequence i + 1\<rparr>"] stream_invD(2) [OF p2] by (simp add: accounted_def)
  then have "accounted p4"
    using Pipeline_send_accounted [OF _ sent(6)] sent(3,4) by (simp add: queue_item_ok_def)
  then have inv: "stream_inv h q \<and> settled h q"
    using f q by (intro flush_settled [OF sent(5) l2 p1, of q "in_sequence (pp_stream p2) + 1"])
      (auto simp: follows_def on_stream_def)
  then show ?thesis
    using q(6) complete_control_inv sent(1,2) by auto
qed (use assms in simp)

section \<open>Runs of a producer\<close>

text \<open>
  The calls a source makes, the flush timer, and a point where the writer and the schedule run on. A
  context error is what the call's context reports when the call asks.
\<close>

datatype producer_call =
    CallBuilder string int schema
  | CallMessageBuilder "goerr option" string schema message_layout
  | CallAppend string append_call
  | CallEndRow string meta
  | CallFlush string
  | CallClose string
  | CallControl "goerr option" "goerr option" control
  | CallBind epoch_ref
  | CallSeal
  | CallTick
  | CallIdle

text \<open>
  The second component is the specification: per resource, the open row and the rows ended since the
  epoch was bound, whatever became of the calls.
\<close>

fun producer_step ::
  "'k calls \<Rightarrow> producer_call \<Rightarrow> 'k pipeline \<times> (string \<Rightarrow> cell list \<times> row list) \<Rightarrow>
   'k pipeline \<times> (string \<Rightarrow> cell list \<times> row list)" where
  "producer_step c (CallBuilder r part schema) (p, h) = (fst (stream_Builder c r part schema p), h)"
| "producer_step c (CallMessageBuilder ctx r model layout) (p, h) = (fst (MessageBuilder c ctx r model layout p), h)"
| "producer_step c (CallAppend r a) (p, h) = (stream_Append c r a p, h(r := spec_step (BAppend a) (h r)))"
| "producer_step c (CallEndRow r m) (p, h) =
     (fst (stream_EndRow c r m p), h(r := spec_run (row_end (pp_cfg p) m) (h r)))"
| "producer_step c (CallFlush r) (p, h) = (fst (stream_Flush c r p), h)"
| "producer_step c (CallClose r) (p, h) = (fst (stream_Close c r p), h)"
| "producer_step c (CallControl early late ctl) (p, h) = (fst (Barrier c early late ctl p), h)"
| "producer_step c (CallBind ref) (p, h) =
     (case BindEpoch ref p of (p, None) \<Rightarrow> (p, \<lambda>_. ([], [])) | (p, Some _) \<Rightarrow> (p, h))"
| "producer_step c CallSeal (p, h) = (fst (SealEpoch p), h)"
| "producer_step c CallTick (p, h) = (ticker p, h)"
| "producer_step c CallIdle (p, h) = (fst (interleave c p), h)"

text \<open>Epoch numbers are 64-bit integers.\<close>

definition call_ok :: "producer_call \<Rightarrow> bool" where
  "call_ok call = (case call of CallBind ref \<Rightarrow> int64 (er_Epoch ref) | _ \<Rightarrow> True)"

lemma builder_inv_RequestFlush [simp]: "builder_inv schema opts sent spec (RequestFlush b) = builder_inv schema opts sent spec b"
  by (simp add: builder_inv_def RequestFlush_def)

lemma ticker_inv:
  assumes "stream_inv h p"
  shows "stream_inv h (ticker p)"
proof (rule writers_inv [OF assms])
  have b: "map_of (pp_builders (ticker p)) k = map_option (\<lambda>pt. pt\<lparr>pt_builder := RequestFlush (pt_builder pt)\<rparr>) (map_of (pp_builders p) k)" for k
    by (simp add: ticker_def map_of_map)
  have hd: "handed (ticker p) = handed p"
    by (intro ext) (simp add: handed_def current_epoch_def ticker_def)
  have "pp_opts (ticker p) = pp_opts p" "bd_err (RequestFlush b) = bd_err b" "bd_closed (RequestFlush b) = bd_closed b" for b
    by (simp_all add: ticker_def RequestFlush_def)
  then have part: "part_good schema (ticker p) k x = part_good schema p k x" "part_ready (ticker p) k = part_ready p k"
    "all_handed (ticker p) k x = all_handed p k x" for schema k x
    by (auto simp: part_good_def part_ready_def all_handed_def b hd split: option.splits)
  have ws: "writer_states (ticker p) = writer_states p" by (simp add: ticker_def writer_states_def)
  show "writers_good h (ticker p)"
    using stream_invD(4) [OF assms] unfolding writers_good_def ws part .
  show "settled h (ticker p)" if "settled h p"
    using that by (simp add: settled_def ws part) (simp add: ticker_def)
  show "accounted (ticker p)"
    using stream_invD(2) [OF assms] by (simp add: ticker_def)
qed (use stream_invD(3,5,6) [OF assms] in \<open>auto simp: ticker_def writer_states_def\<close>)

lemma producer_step_inv:
  assumes "producer_step c call (p, h) = (p', h')" "call_ok call" "live p'" "live p \<longrightarrow> stream_inv h p"
  shows "stream_inv h' p'"
proof (cases call)
  case (CallFlush r)
  obtain e where f: "stream_Flush c r p = (p', e)" using assms(1) CallFlush by (cases "stream_Flush c r p") auto
  then have "live p" using stream_Flush_live [OF f assms(3)] by metis
  then show ?thesis using stream_Flush_inv [OF f assms(3)] assms(1,4) CallFlush by auto
next
  case (CallClose r)
  obtain e where f: "stream_Close c r p = (p', e)" using assms(1) CallClose by (cases "stream_Close c r p") auto
  then have "live p" using stream_Close_aged [OF f assms(3)] by blast
  then show ?thesis using stream_Close_inv [OF f assms(3)] assms(1,4) CallClose by auto
next
  case (CallBind ref)
  obtain q e where b: "BindEpoch ref p = (q, e)" by (cases "BindEpoch ref p")
  show ?thesis
  proof (cases e)
    case None
    then have "live p" using b by (auto simp: BindEpoch_def ready_live [symmetric] split: option.splits if_splits)
    then show ?thesis using BindEpoch_inv [of ref p q h] assms b None CallBind by (auto simp: call_ok_def)
  next
    case (Some x)
    then have "q = p" using b by (auto simp: BindEpoch_def split: option.splits if_splits)
    then show ?thesis using assms b Some CallBind by auto
  qed
next
  case CallTick
  then have "live p" using assms(1,3) by (auto simp: live_def ticker_def)
  then show ?thesis using assms ticker_inv CallTick by auto
next
  case CallIdle
  obtain w where i: "interleave c p = (p', w)" using assms(1) CallIdle by (cases "interleave c p") auto
  have "live p" using follows_aged interleave_follows [OF i] assms(3) by (auto simp: aged_def)
  then have "stream_inv h p'"
    using interleave_follows [OF i] interleave_accounted [OF _ i] assms(4) follows_inv stream_invD(2) by metis
  then show ?thesis using assms(1) CallIdle by auto
next
  case (CallBuilder r part schema)
  then show ?thesis
    using assms stream_Builder_inv [of c r part schema p p' "snd (stream_Builder c r part schema p)" h] by auto
next
  case (CallMessageBuilder ctx r model layout)
  then show ?thesis
    using assms MessageBuilder_inv [of c ctx r model layout p p' "snd (MessageBuilder c ctx r model layout p)" h] by auto
next
  case (CallAppend r a)
  then show ?thesis using assms stream_Append_inv [of c r a p h] by auto
next
  case (CallEndRow r m)
  then show ?thesis using assms stream_EndRow_inv [of c r m p p' "snd (stream_EndRow c r m p)" h] by auto
next
  case (CallControl early late ctl)
  then show ?thesis using assms Barrier_inv [of c early late ctl p p' "snd (Barrier c early late ctl p)" h] by auto
next
  case CallSeal
  then show ?thesis using assms SealEpoch_inv [of p p' "snd (SealEpoch p)" h] by auto
qed

lemma producer_run_inv:
  assumes "list_all call_ok calls" "live p \<longrightarrow> stream_inv h p" "fold (producer_step c) calls (p, h) = (p', h')" "live p'"
  shows "stream_inv h' p'"
  using assms
proof (induction calls arbitrary: p h)
  case (Cons call calls)
  obtain p1 h1 where s: "producer_step c call (p, h) = (p1, h1)" by (cases "producer_step c call (p, h)")
  then show ?case
    using Cons.IH [of p1 h1] Cons.prems producer_step_inv [OF s] by simp
qed simp

lemma start_inv:
  assumes "NewStream cfg layouts sink schedule order = Inr p"
  shows "stream_inv (\<lambda>_. ([], [])) p"
proof -
  have p: "p = (Pipeline_New cfg layouts sink schedule)\<lparr>pp_isStream := True, pp_stream := no_stream\<lparr>in_strict := (order = OrderingGlobalStrict)\<rparr>\<rparr>"
    using assms by (simp add: NewStream_def split: if_splits)
  have sel: "pp_isStream p" "pp_sent p = []" "pp_applied p = []" "pp_batchCh p = []" "writer_states p = []" "current_epoch p = None"
    "\<not> in_epochWritten (pp_stream p)" "in_completed (pp_stream p) = []"
    by (simp_all add: p Pipeline_New_def Let_def no_stream_def writer_states_def current_epoch_def)
  then show ?thesis
    by (simp add: stream_inv_def accounted_def writers_good_def settled_def tags_ok_def epoch_ok_def positions_valid_def)
qed

text \<open>What was handed over for a resource is what was applied for it, once everything is settled.\<close>

definition applied_rows :: "epoch_ref \<Rightarrow> string \<Rightarrow> 'k pipeline \<Rightarrow> row list" where
  "applied_rows ref r p =
     concat (map (\<lambda>x. batch_rows (sx_rows (ax_sent x), sx_ops (ax_sent x))) (of_resource r (of_epoch (Some ref) (pp_applied p))))"

lemma settled_applied:
  assumes inv: "stream_inv h p" and s: "settled h p" and l: "live p" and e: "in_epoch (pp_stream p) = Some ref"
  shows "h r = ([], applied_rows ref r p)"
proof -
  have cur: "current_epoch p = Some ref" using e stream_invD(1) [OF inv] by (simp add: current_epoch_def)
  have "concat (map batch_list (pp_batchCh p)) = []"
    using settledD(2) [OF s] by simp
  then have sent: "pp_sent p = map ax_sent (pp_applied p)"
    using stream_invD(2) [OF inv] l by (simp add: accounted_def live_def)
  show ?thesis
  proof (cases "r \<in> (fst \<circ> fst) ` set (writer_states p)")
    case False
    then have "of_resource r (of_epoch (Some ref) (pp_applied p)) = []"
      using stream_invD(6) [OF inv] cur by (force simp: of_resource_def of_epoch_def filter_empty_conv sent)
    then show ?thesis
      using stream_invD(5) [OF inv False] by (simp add: applied_rows_def)
  next
    case True
    then obtain k cl where k: "(k, cl) \<in> set (writer_states p)" "fst k = r" by auto
    have key: "(sx_resource x, sx_part x) = k" if x: "x \<in> set (pp_sent p)" "sx_epoch x = Some ref" "sx_resource x = r" for x
    proof -
      obtain cl' where "((sx_resource x, sx_part x), cl') \<in> set (writer_states p)"
        using stream_invD(6) [OF inv x(1)] x(2) cur by auto
      then show ?thesis using states_unique [OF inv _ k(1)] x(3) k(2) by auto
    qed
    have "filter (\<lambda>x. sx_epoch (ax_sent x) = Some ref \<and> (sx_resource (ax_sent x), sx_part (ax_sent x)) = k) (pp_applied p) =
        of_resource r (of_epoch (Some ref) (pp_applied p))"
      unfolding of_resource_def of_epoch_def filter_filter
    proof (rule filter_cong [OF refl])
      fix x assume "x \<in> set (pp_applied p)"
      then have "ax_sent x \<in> set (pp_sent p)" by (simp add: sent)
      then show "(sx_epoch (ax_sent x) = Some ref \<and> (sx_resource (ax_sent x), sx_part (ax_sent x)) = k) =
          (sx_epoch (ax_sent x) = Some ref \<and> sx_resource (ax_sent x) = r)"
        using key [of "ax_sent x"] k(2) by auto
    qed
    then have "handed p k = map (\<lambda>x. (sx_rows (ax_sent x), sx_ops (ax_sent x))) (of_resource r (of_epoch (Some ref) (pp_applied p)))"
      by (simp add: handed_def cur sent filter_map o_def)
    then show ?thesis
      using settledD(1) [OF s k(1)] k(2) by (simp add: all_handed_def applied_rows_def o_def)
  qed
qed

text \<open>
  C1: a sealed epoch is complete and exact. After any sequence of producer calls on a new stream
  pipeline, whatever the writer's schedule, cancellations, the sink's answers and the outcome of the
  calls: if \<^verbatim>\<open>SealEpoch\<close> returns evidence, then for every resource no row is open and the rows ended since
  the epoch was bound are exactly, in order, the rows of the batches the sink applied in this epoch
  with a matching checksum; the evidence is bound to the epoch, and its totals, overall and per
  resource, are those of the applied batches, modulo the width of a 64-bit counter; and it covers at
  least one source position.
\<close>

theorem sealed_epoch_exact:
  assumes "NewStream cfg layouts sink schedule order = Inr start" "list_all call_ok calls"
    "fold (producer_step c) calls (start, \<lambda>_. ([], [])) = (p, written)" "SealEpoch p = (p', Inr completion)"
  shows "\<exists>ref. in_epoch (pp_stream p) = Some ref \<and> cm_binding completion = Binding ref \<and>
    (\<forall>r. written r = ([], applied_rows ref r p)) \<and>
    \<lparr>rt_Rows = cm_rows completion, rt_Bytes = cm_bytes completion\<rparr> = total_of (of_epoch (Some ref) (pp_applied p)) \<and>
    (\<forall>r. totals_at (cm_resources completion) r = total_of (of_resource r (of_epoch (Some ref) (pp_applied p)))) \<and>
    cm_positions completion \<noteq> [] \<and> positions_valid (cm_positions completion)"
proof -
  obtain ref where ref: "in_epoch (pp_stream p) = Some ref" "in_completed (pp_stream p) \<noteq> []" "stream_ready p = None"
    "completion = NewWithMessageSchemas (Binding ref) (in_completed (pp_stream p)) (in_epochRows (pp_stream p))
       (in_epochBytes (pp_stream p)) (in_epochResources (pp_stream p)) (pp_messageSchemas p)"
    using assms(4) by (auto simp: SealEpoch_def Let_def split: if_splits option.splits)
  then have l: "live p" by (simp add: ready_live)
  have inv: "stream_inv written p"
    using producer_run_inv [OF assms(2) _ assms(3) l] start_inv [OF assms(1)] by simp
  have "settled written p"
    using stream_invD(7) [OF inv] ref(2) by (simp add: quiet_def)
  then have rows: "written r = ([], applied_rows ref r p)" for r
    using settled_applied [OF inv _ l ref(1)] by blast
  have "current_epoch p = Some ref" using ref(1) stream_invD(1) [OF inv] by (simp add: current_epoch_def)
  then have "counted (of_epoch (Some ref) (pp_applied p)) (pp_stream p)"
    using stream_invD(2) [OF inv] l by (simp add: accounted_def live_def)
  then show ?thesis
    using ref rows stream_invD(11) [OF inv] by (simp add: counted_def NewWithMessageSchemas_def Completion_New_def)
qed

definition demo_control :: control where
  "demo_control = \<lparr>ct_Kind = ProgressBoundary, ct_Domain = DomainKey ''pg'' ''a'', ct_Position = Position ''opaque'' 1 (Some ''x''),
     ct_TxnID = [], ct_Resource = [], ct_MembershipRevision = 0\<rparr>"

definition write_id :: "int \<Rightarrow> producer_call list" where
  "write_id n = [CallAppend ''orders'' (AInt64 n), CallEndRow ''orders'' no_meta]"

definition demo_calls :: "producer_call list" where
  "demo_calls = [CallBuilder ''orders'' 0 demo_schema, CallBind demo_ref] @ concat (map write_id [7, 8, 9]) @
     [CallTick, CallControl None None demo_control]"

definition demo_start :: "nat pipeline" where
  "demo_start = projr (NewStream demo_config None 0 demo_schedule OrderingGlobalStrict)"

definition demo_end :: "nat pipeline \<times> (string \<Rightarrow> cell list \<times> row list)" where
  "demo_end = fold (producer_step demo_sink) demo_calls (demo_start, \<lambda>_. ([], []))"

theorem sealed_epoch_exact_witness:
  "snd demo_end ''orders'' = ([], applied_rows demo_ref ''orders'' (fst demo_end)) \<and>
    applied_rows demo_ref ''orders'' (fst demo_end) = [([CInt64 7], OpInsert), ([CInt64 8], OpInsert), ([CInt64 9], OpInsert)]"
proof -
  have start: "NewStream demo_config None 0 demo_schedule OrderingGlobalStrict = Inr demo_start"
    by (simp add: demo_start_def NewStream_def)
  have run: "fold (producer_step demo_sink) demo_calls (demo_start, \<lambda>_. ([], [])) = (fst demo_end, snd demo_end)"
    by (simp add: demo_end_def)
  have "list_all call_ok demo_calls" by code_simp
  moreover have "\<not> isl (snd (SealEpoch (fst demo_end)))" by code_simp
  then obtain p' completion where "SealEpoch (fst demo_end) = (p', Inr completion)"
    by (cases "SealEpoch (fst demo_end)"; cases "snd (SealEpoch (fst demo_end))") auto
  moreover have ref: "in_epoch (pp_stream (fst demo_end)) = Some demo_ref" by code_simp
  ultimately have "snd demo_end ''orders'' = ([], applied_rows demo_ref ''orders'' (fst demo_end))"
    using sealed_epoch_exact [OF start _ run] by auto
  moreover have "applied_rows demo_ref ''orders'' (fst demo_end) = [([CInt64 7], OpInsert), ([CInt64 8], OpInsert), ([CInt64 9], OpInsert)]"
    by code_simp
  ultimately show ?thesis by blast
qed

end
