(* ===== verification/StreamCodec.thy ===== *)
theory StreamCodec
  imports Progress
begin

text \<open>
  Helpers for native stream connectors (\<^verbatim>\<open>streamkit/codec.go\<close>, \<^verbatim>\<open>streamkit/headers.go\<close>,
  \<^verbatim>\<open>streamkit/retry.go\<close>): the codec registry with the opaque and the counter codec, both shown to keep the
  codec contract of \<^verbatim>\<open>rowmodel\<close>, the binary header encoding, and bounded retries.
\<close>

section \<open>The codec registry\<close>

type_synonym codec_registry = "((string \<times> int) \<times> position_codec) list"

definition Registry_Register :: "codec_registry \<Rightarrow> string \<Rightarrow> int \<Rightarrow> position_codec option \<Rightarrow> codec_registry res" where
  "Registry_Register codecs name version c =
     (case c of
        None \<Rightarrow> Inl (ErrMsg ''streamkit: invalid codec registration'')
      | Some codec \<Rightarrow>
          if name = [] \<or> version < 0 then Inl (ErrMsg ''streamkit: invalid codec registration'')
          else if map_of codecs (name, version) \<noteq> None then Inl (ErrMsg ''streamkit: duplicate codec'')
          else Inr (((name, version), codec) # codecs))"

definition Registry_Lookup :: "codec_registry \<Rightarrow> codec_lookup" where
  "Registry_Lookup codecs name version =
     (case map_of codecs (name, version) of
        None \<Rightarrow> Inl (ErrWrap ''streamkit: unknown codec'' ErrUnknownCodec)
      | Some c \<Rightarrow> Inr (Some c))"

text \<open>A registration adds its codec and changes no other.\<close>

lemma Register_Lookup:
  assumes "Registry_Register codecs name version c = Inr codecs'"
  shows "Registry_Lookup codecs' n v = (if (n, v) = (name, version) then Inr c else Registry_Lookup codecs n v)"
  using assms by (auto simp: Registry_Register_def Registry_Lookup_def split: option.splits if_splits)

lemma Register_keeps:
  assumes "Registry_Register codecs name version c = Inr codecs'" "Registry_Lookup codecs n v = Inr codec"
  shows "Registry_Lookup codecs' n v = Inr codec"
proof -
  have "(n, v) \<noteq> (name, version)"
    using assms by (auto simp: Registry_Register_def Registry_Lookup_def split: option.splits if_splits)
  then show ?thesis using Register_Lookup [OF assms(1)] assms(2) by auto
qed

section \<open>Codecs\<close>

definition Opaque_Compare :: "position \<Rightarrow> position \<Rightarrow> position_order res" where
  "Opaque_Compare a b =
     (if Codec a \<noteq> Codec b \<or> PVersion a \<noteq> PVersion b then Inr PositionIncomparable
      else check_err (Position_Validate a)
        (check_err (Position_Validate b)
          (if PValue a = PValue b then Inr PositionEqual else Inr PositionIncomparable)))"

definition OpaqueCodec :: position_codec where
  "OpaqueCodec = \<lparr>
     pc_Validate = Position_Validate,
     pc_Compare = Opaque_Compare,
     pc_Canonicalize = (\<lambda>p. check_err (Position_Validate p) (Inr p))\<rparr>"

definition value_bytes :: "position \<Rightarrow> string" where
  "value_bytes p = (case PValue p of None \<Rightarrow> [] | Some v \<Rightarrow> v)"

definition Uint64_Validate :: "position \<Rightarrow> goerr option" where
  "Uint64_Validate p =
     orelse_err (Position_Validate p)
       (let v = value_bytes p in
        if v = [] then Some (ErrMsg ''streamkit: empty counter'')
        else if \<not> list_all is_digit v then Some (ErrMsg ''streamkit: non-decimal counter'')
        else if parse_uint v = None then Some (ErrMsg ''strconv.ParseUint: value out of range'') else None)"

text \<open>The number a validated counter holds.\<close>

definition counter :: "position \<Rightarrow> nat" where
  "counter p = the (parse_uint (value_bytes p))"

definition Uint64_Canonicalize :: "position \<Rightarrow> position res" where
  "Uint64_Canonicalize p =
     check_err (Uint64_Validate p) (Inr (Position (Codec p) (PVersion p) (Some (format_uint (counter p)))))"

definition Uint64_Compare :: "position \<Rightarrow> position \<Rightarrow> position_order res" where
  "Uint64_Compare a b =
     (if Codec a \<noteq> Codec b \<or> PVersion a \<noteq> PVersion b then Inr PositionIncomparable
      else check_err (Uint64_Validate a)
        (check_err (Uint64_Validate b)
          (let x = counter a; y = counter b in
           if x < y then Inr PositionBefore else if x > y then Inr PositionAfter else Inr PositionEqual)))"

definition Uint64Codec :: position_codec where
  "Uint64Codec = \<lparr>
     pc_Validate = Uint64_Validate,
     pc_Compare = Uint64_Compare,
     pc_Canonicalize = Uint64_Canonicalize\<rparr>"

interpretation opaque: codec_laws OpaqueCodec
  by unfold_locales
    (auto simp: OpaqueCodec_def Opaque_Compare_def flip_order_def err_simps split: if_splits)

lemma Uint64_Validate_None:
  "Uint64_Validate p = None \<longleftrightarrow> Position_Validate p = None \<and> parse_uint (value_bytes p) \<noteq> None"
  by (auto simp: Uint64_Validate_def err_simps Let_def parse_uint_def)

lemma Uint64_position: "Uint64_Validate p = None \<Longrightarrow> Position_Validate p = None"
  by (simp add: Uint64_Validate_None)

lemma counter_bound: "Uint64_Validate p = None \<Longrightarrow> counter p < 2 ^ 64"
  by (auto simp: Uint64_Validate_None counter_def parse_uint_def split: if_splits)

lemma counter_position [simp]:
  "value_bytes (Position c v (Some s)) = s"
  "n < 2 ^ 64 \<Longrightarrow> counter (Position c v (Some (format_uint n))) = n"
  by (simp_all add: value_bytes_def counter_def)

lemma Uint64_canonical_valid:
  assumes "Uint64_Validate p = None"
  shows "Uint64_Validate (Position (Codec p) (PVersion p) (Some (format_uint (counter p)))) = None"
  using assms counter_bound [OF assms] by (simp add: Uint64_Validate_None Position_Validate_def)

interpretation uint64: codec_laws Uint64Codec
proof unfold_locales
  fix p assume v: "pc_Validate Uint64Codec p = None"
  then show "\<exists>q. pc_Canonicalize Uint64Codec p = Inr q \<and> pc_Validate Uint64Codec q = None \<and>
      pc_Canonicalize Uint64Codec q = Inr q"
    using Uint64_canonical_valid [of p] counter_bound [of p] by (simp add: Uint64Codec_def Uint64_Canonicalize_def)
  show "pc_Compare Uint64Codec p p = Inr PositionEqual"
    using v by (simp add: Uint64Codec_def Uint64_Compare_def)
next
  fix p q k assume "pc_Validate Uint64Codec p = None" "pc_Validate Uint64Codec q = None" "pc_Compare Uint64Codec p q = Inr k"
  then show "pc_Compare Uint64Codec q p = Inr (flip_order k)"
    by (auto simp: Uint64Codec_def Uint64_Compare_def flip_order_def Let_def split: if_splits)
qed (auto simp: Uint64Codec_def Uint64_Canonicalize_def err_simps)

definition number_order :: "nat \<Rightarrow> nat \<Rightarrow> position_order" where
  "number_order x y = (if x < y then PositionBefore else if y < x then PositionAfter else PositionEqual)"

text \<open>
  C20: a registered counter codec orders positions by number. Once the counter codec is registered
  under a name and version, and whatever is registered after it, two positions of that codec whose
  bytes are decimal 64-bit counters compare as their numbers do, swapping the arguments reverses the
  answer, and their canonical forms exist and agree exactly when the numbers are equal.
\<close>

theorem counter_positions_ordered:
  assumes "Registry_Register codecs0 name version (Some Uint64Codec) = Inr codecs1"
    "Registry_Register codecs1 other v other_codec = Inr codecs"
    and a: "a = Position name version (Some x)" "Uint64_Validate a = None"
    and b: "b = Position name version (Some y)" "Uint64_Validate b = None"
    and d: "DomainKey_Validate d = None"
  shows "let r = Some (Registry_Lookup codecs) in
    ComparePositions r d a d b = Inr (number_order (dec_val x) (dec_val y)) \<and>
    ComparePositions r d b d a = Inr (flip_order (number_order (dec_val x) (dec_val y))) \<and>
    \<not> isl (CanonicalPosition r a) \<and> (CanonicalPosition r a = CanonicalPosition r b \<longleftrightarrow> dec_val x = dec_val y)"
proof -
  let ?l = "Registry_Lookup codecs"
  let ?c = "\<lambda>p. Position name version (Some (format_uint (counter p)))"
  have l: "?l name version = Inr (Some Uint64Codec)"
    using Register_keeps [OF assms(2)] Register_Lookup [OF assms(1)] by simp
  have num: "counter a = dec_val x" "counter b = dec_val y"
    using a b by (auto simp: counter_def parse_uint_def Uint64_Validate_None split: if_splits)
  have ca: "CanonicalPosition (Some ?l) a = Inr (?c a)" and cb: "CanonicalPosition (Some ?l) b = Inr (?c b)"
    using l a b Uint64_canonical_valid [of a] Uint64_canonical_valid [of b] Uint64_position [of a] Uint64_position [of b]
    by (auto simp: CanonicalPosition_Inr Uint64Codec_def Uint64_Canonicalize_def)
  have "pc_Compare Uint64Codec (?c a) (?c b) = Inr (number_order (counter a) (counter b))"
    using a b Uint64_canonical_valid [of a] Uint64_canonical_valid [of b] counter_bound [of a] counter_bound [of b]
    by (simp add: Uint64Codec_def Uint64_Compare_def Let_def number_order_def)
  then have cmp: "ComparePositions (Some ?l) d a d b = Inr (number_order (dec_val x) (dec_val y))"
    using d ca cb l a(1) b(1) num by (simp add: ComparePositions_def number_order_def)
  then show ?thesis
    using uint64.compare_swap [of ?l a, OF _ cmp] l ca cb num a(1) by simp
qed

theorem counter_positions_ordered_witness:
  "\<exists>codecs. Registry_Register [] ''seq'' 1 (Some Uint64Codec) = Inr [((''seq'', 1), Uint64Codec)] \<and>
    Registry_Register [((''seq'', 1), Uint64Codec)] ''opaque'' 1 (Some OpaqueCodec) = Inr codecs \<and>
    ComparePositions (Some (Registry_Lookup codecs)) (DomainKey ''pg'' ''a'') (Position ''seq'' 1 (Some ''0099''))
      (DomainKey ''pg'' ''a'') (Position ''seq'' 1 (Some ''100'')) = Inr PositionBefore"
proof -
  have r: "Registry_Register [] ''seq'' 1 (Some Uint64Codec) = Inr [((''seq'', 1), Uint64Codec)]"
    "Registry_Register [((''seq'', 1), Uint64Codec)] ''opaque'' 1 (Some OpaqueCodec) =
      Inr [((''opaque'', 1), OpaqueCodec), ((''seq'', 1), Uint64Codec)]"
    by (simp_all add: Registry_Register_def)
  have v: "Uint64_Validate (Position ''seq'' 1 (Some ''0099'')) = None" "Uint64_Validate (Position ''seq'' 1 (Some ''100'')) = None"
    "DomainKey_Validate (DomainKey ''pg'' ''a'') = None"
    by (simp_all add: Uint64_Validate_None Position_Validate_def DomainKey_Validate_def value_bytes_def parse_uint_def
      is_digit_def in_range_def byte_def dec_val_def digit_val_def)
  have "number_order (dec_val ''0099'') (dec_val ''100'') = PositionBefore"
    by (simp add: number_order_def dec_val_def digit_val_def byte_def)
  then show ?thesis
    using counter_positions_ordered [OF r refl v(1) refl v(2) v(3)] r by (auto simp: Let_def)
qed

section \<open>Headers\<close>

text \<open>A header list and a header value may be nil; a byte is a \<^typ>\<open>char\<close>.\<close>

record header =
  hd_Key :: string
  hd_Value :: "string option"
  hd_Null :: bool

definition header_bytes :: "header \<Rightarrow> string" where
  "header_bytes h = (case hd_Value h of None \<Rightarrow> [] | Some v \<Rightarrow> v)"

definition headerLength :: "nat \<Rightarrow> nat res" where
  "headerLength n = (if n > 2 ^ 32 - 1 then Inl ErrInvalidEnvelope else Inr n)"

text \<open>\<^verbatim>\<open>binary.BigEndian.AppendUint32\<close> and \<^verbatim>\<open>binary.Read\<close> of a \<^verbatim>\<open>uint32\<close>.\<close>

definition be32 :: "nat \<Rightarrow> string" where
  "be32 n = [char_of (n div 16777216), char_of (n div 65536 mod 256), char_of (n div 256 mod 256), char_of (n mod 256)]"

fun read_u32 :: "string \<Rightarrow> (nat \<times> string) option" where
  "read_u32 (a # b # c # d # r) = Some (byte a * 16777216 + byte b * 65536 + byte c * 256 + byte d, r)"
| "read_u32 _ = None"

definition encode_header :: "header \<Rightarrow> string res" where
  "encode_header h =
     (if hd_Null h \<and> header_bytes h \<noteq> [] then Inl ErrInvalidEnvelope
      else bind_res (headerLength (length (hd_Key h))) (\<lambda>keySize.
        bind_res (headerLength (length (header_bytes h))) (\<lambda>valueSize.
          Inr (be32 keySize @ hd_Key h @ [char_of (if hd_Null h then 1 else 0 :: nat)] @ be32 valueSize @ header_bytes h))))"

primrec encode_headers :: "string \<Rightarrow> header list \<Rightarrow> string res" where
  "encode_headers out [] = Inr out"
| "encode_headers out (h # hs) = bind_res (encode_header h) (\<lambda>e. encode_headers (out @ e) hs)"

definition EncodeHeaders :: "header list option \<Rightarrow> string res" where
  "EncodeHeaders headers =
     (case headers of
        None \<Rightarrow> Inr [CHR 0x01, CHR 0x00]
      | Some hs \<Rightarrow> bind_res (headerLength (length hs)) (\<lambda>n. encode_headers ([CHR 0x01, CHR 0x01] @ be32 n) hs))"

definition readBytes :: "string \<Rightarrow> (string \<times> string) res" where
  "readBytes r =
     (case read_u32 r of
        None \<Rightarrow> Inl ErrInvalidEnvelope
      | Some (n, r) \<Rightarrow> if n > length r then Inl ErrInvalidEnvelope else Inr (take n r, drop n r))"

definition decode_header :: "string \<Rightarrow> (header \<times> string) res" where
  "decode_header r =
     bind_res (readBytes r) (\<lambda>(key, r).
       case r of
         [] \<Rightarrow> Inl ErrInvalidEnvelope
       | flag # r \<Rightarrow>
           if byte flag > 1 then Inl ErrInvalidEnvelope
           else bind_res (readBytes r) (\<lambda>(val, r).
             if byte flag = 1 \<and> val \<noteq> [] then Inl ErrInvalidEnvelope
             else Inr (\<lparr>hd_Key = key, hd_Value = (if byte flag = 1 then None else Some val), hd_Null = byte flag = 1\<rparr>, r)))"

text \<open>The loop over the count; what is left of the input is the reader's rest.\<close>

primrec decode_headers :: "nat \<Rightarrow> header list \<Rightarrow> string \<Rightarrow> header list res" where
  "decode_headers 0 out r = (if r \<noteq> [] then Inl ErrInvalidEnvelope else Inr out)"
| "decode_headers (Suc n) out r = bind_res (decode_header r) (\<lambda>(h, r). decode_headers n (out @ [h]) r)"

definition DecodeHeaders :: "string \<Rightarrow> header list option res" where
  "DecodeHeaders data =
     (case data of
        version # presence # r \<Rightarrow>
          if byte version \<noteq> 1 \<or> byte presence > 1 then Inl ErrInvalidEnvelope
          else if byte presence = 0 then (if r \<noteq> [] then Inl ErrInvalidEnvelope else Inr None)
          else (case read_u32 r of
                  None \<Rightarrow> Inl ErrInvalidEnvelope
                | Some (n, r) \<Rightarrow>
                    if n > length r div 9 then Inl ErrInvalidEnvelope
                    else bind_res (decode_headers n [] r) (\<lambda>hs. Inr (Some hs)))
      | _ \<Rightarrow> Inl ErrInvalidEnvelope)"

lemma length_be32 [simp]: "length (be32 n) = 4"
  by (simp add: be32_def)

lemma byte_flags [simp]: "byte c = 0 \<longleftrightarrow> c = CHR 0x00" "byte c = Suc 0 \<longleftrightarrow> c = CHR 0x01"
proof -
  have "byte (CHR 0x00) = 0" "byte (CHR 0x01) = Suc 0" by (simp_all add: byte_def)
  then show "byte c = 0 \<longleftrightarrow> c = CHR 0x00" "byte c = Suc 0 \<longleftrightarrow> c = CHR 0x01"
    by (metis byte_inject)+
qed

lemma base256:
  fixes a b c d :: nat
  assumes "a < 256" "b < 256" "c < 256" "d < 256" "n = a * 16777216 + b * 65536 + c * 256 + d"
  shows "n < 2 ^ 32" "n div 16777216 = a" "n div 65536 mod 256 = b" "n div 256 mod 256 = c" "n mod 256 = d"
proof -
  have n: "n = (((a * 256 + b) * 256) + c) * 256 + d" using assms(5) by simp
  have q: "n div 256 = (a * 256 + b) * 256 + c" using n assms(4) by simp
  have q2: "n div 65536 = a * 256 + b" using q assms(3) div_mult2_eq [of n 256 256] by simp
  show "n div 16777216 = a" using q2 assms(2) div_mult2_eq [of n 65536 256] by simp
  show "n div 65536 mod 256 = b" "n div 256 mod 256 = c" "n mod 256 = d"
    unfolding q q2 using n assms(2-4) by (simp_all only: mod_mult_self3 mod_less)
  show "n < 2 ^ 32" using assms by simp
qed

lemma read_u32_Some: "read_u32 s = Some (n, r) \<longleftrightarrow> n < 2 ^ 32 \<and> s = be32 n @ r"
proof
  assume "read_u32 s = Some (n, r)"
  then obtain a b c d where s: "s = a # b # c # d # r" "n = byte a * 16777216 + byte b * 65536 + byte c * 256 + byte d"
    by (cases s rule: read_u32.cases) auto
  note base256 [OF _ _ _ _ s(2)]
  then show "n < 2 ^ 32 \<and> s = be32 n @ r"
    using s(1) by (simp add: be32_def) (simp add: byte_def)
next
  assume n: "n < 2 ^ 32 \<and> s = be32 n @ r"
  then have "n div 16777216 < 256" by (simp add: less_mult_imp_div_less)
  moreover have "n div 16777216 * 16777216 + n div 65536 mod 256 * 65536 + n div 256 mod 256 * 256 + n mod 256 = n"
  proof -
    have "n div 65536 = n div 256 div 256" "n div 16777216 = n div 256 div 256 div 256"
      by (simp_all flip: div_mult2_eq)
    moreover have "n = q3 * 16777216 + b * 65536 + c * 256 + d" if "n = q * 256 + d" "q = q2 * 256 + c" "q2 = q3 * 256 + b"
      for q q2 q3 b c d :: nat
      using that by simp
    ultimately show ?thesis
      using div_mult_mod_eq [of _ "256::nat", symmetric] by metis
  qed
  ultimately show "read_u32 s = Some (n, r)"
    using n by (simp add: be32_def byte_def)
qed

lemma readBytes_Inr: "readBytes s = Inr (b, r) \<longleftrightarrow> length b < 2 ^ 32 \<and> s = be32 (length b) @ b @ r"
proof
  assume "readBytes s = Inr (b, r)"
  then obtain n t where "read_u32 s = Some (n, t)" "n \<le> length t" "b = take n t" "r = drop n t"
    by (auto simp: readBytes_def split: option.splits if_splits)
  then show "length b < 2 ^ 32 \<and> s = be32 (length b) @ b @ r"
    by (simp add: read_u32_Some)
next
  assume b: "length b < 2 ^ 32 \<and> s = be32 (length b) @ b @ r"
  then have "read_u32 s = Some (length b, b @ r)" by (simp add: read_u32_Some)
  then show "readBytes s = Inr (b, r)" by (simp add: readBytes_def)
qed

text \<open>What decoding yields: a null header has a nil value, any other an allocated one.\<close>

definition normal_header :: "header \<Rightarrow> header" where
  "normal_header h = h\<lparr>hd_Value := if hd_Null h then None else Some (header_bytes h)\<rparr>"

lemma normal_header_idem [simp]: "normal_header (normal_header h) = normal_header h"
  by (cases h) (simp add: normal_header_def header_bytes_def)

lemma encode_header_Inr:
  "encode_header h = Inr e \<longleftrightarrow>
    (hd_Null h \<longrightarrow> header_bytes h = []) \<and> length (hd_Key h) < 2 ^ 32 \<and> length (header_bytes h) < 2 ^ 32 \<and>
    e = be32 (length (hd_Key h)) @ hd_Key h @ [char_of (if hd_Null h then 1 else 0 :: nat)] @
      be32 (length (header_bytes h)) @ header_bytes h"
  by (auto simp: encode_header_def headerLength_def err_simps)

lemma encode_header_normal: "encode_header h = Inr e \<Longrightarrow> encode_header (normal_header h) = Inr e"
  by (auto simp: encode_header_Inr normal_header_def header_bytes_def)

lemma decode_header_Inr:
  "decode_header s = Inr (h, r) \<longleftrightarrow> h = normal_header h \<and> (\<exists>e. encode_header h = Inr e \<and> s = e @ r)"
proof
  assume "decode_header s = Inr (h, r)"
  then obtain key t' where k': "readBytes s = Inr (key, t')" "t' \<noteq> []"
    by (cases "readBytes s") (auto simp: decode_header_def split: list.splits)
  then obtain flag t where "t' = flag # t" by (cases t') auto
  with k' \<open>decode_header s = Inr (h, r)\<close> obtain val where k: "readBytes s = Inr (key, flag # t)" "\<not> byte flag > 1" "readBytes t = Inr (val, r)"
    "\<not> (byte flag = 1 \<and> val \<noteq> [])"
    "h = \<lparr>hd_Key = key, hd_Value = (if byte flag = 1 then None else Some val), hd_Null = byte flag = 1\<rparr>"
    by (auto simp: decode_header_def err_simps split: if_splits)
  have "byte flag = 0 \<or> byte flag = 1" using k(2) by linarith
  moreover have "flag = char_of (byte flag)" by (simp add: byte_def)
  ultimately have "flag = char_of (if hd_Null h then 1 else 0 :: nat)"
    using k(5) by (auto simp del: byte_flags)
  moreover have "h = normal_header h" "header_bytes h = val"
    using k(4,5) by (auto simp: normal_header_def header_bytes_def)
  ultimately show "h = normal_header h \<and> (\<exists>e. encode_header h = Inr e \<and> s = e @ r)"
    using k by (auto simp: encode_header_Inr readBytes_Inr)
next
  assume "h = normal_header h \<and> (\<exists>e. encode_header h = Inr e \<and> s = e @ r)"
  then obtain e where e: "h = normal_header h" "encode_header h = Inr e" "s = e @ r" by blast
  let ?f = "char_of (if hd_Null h then 1 else 0 :: nat)"
  have "readBytes s = Inr (hd_Key h, ?f # be32 (length (header_bytes h)) @ header_bytes h @ r)"
    "readBytes (be32 (length (header_bytes h)) @ header_bytes h @ r) = Inr (header_bytes h, r)"
    "hd_Null h \<longrightarrow> header_bytes h = []"
    using e(2,3) by (auto simp: encode_header_Inr readBytes_Inr)
  moreover have "h = \<lparr>hd_Key = hd_Key h, hd_Value = (if hd_Null h then None else Some (header_bytes h)), hd_Null = hd_Null h\<rparr>"
    using arg_cong [OF e(1), of hd_Value] by (intro header.equality) (simp_all add: normal_header_def)
  ultimately show "decode_header s = Inr (h, r)"
    by (auto simp: decode_header_def)
qed

lemma encode_headers_out: "encode_headers out hs = bind_res (encode_headers [] hs) (\<lambda>data. Inr (out @ data))"
proof (induction hs arbitrary: out)
  case (Cons h hs)
  show ?case
  proof (cases "encode_header h")
    case (Inr e)
    then show ?thesis
      using Cons [of "out @ e"] Cons [of e] by (simp add: bind_res_def split: sum.splits)
  qed simp
qed simp

lemma encode_headers_Cons:
  "encode_headers [] (h # hs) = Inr data \<longleftrightarrow> (\<exists>e t. encode_header h = Inr e \<and> encode_headers [] hs = Inr t \<and> data = e @ t)"
proof (cases "encode_header h")
  case (Inr e)
  then show ?thesis using encode_headers_out [of e hs] by (auto simp: err_simps)
qed simp

lemma decode_encoded:
  assumes "encode_headers [] hs = Inr r"
  shows "decode_headers (length hs) out r = Inr (out @ map normal_header hs)"
  using assms
proof (induction hs arbitrary: out r)
  case (Cons h hs)
  obtain e t where e: "encode_header h = Inr e" "encode_headers [] hs = Inr t" "r = e @ t"
    using Cons.prems by (auto simp: encode_headers_Cons simp del: encode_headers.simps)
  have "decode_header r = Inr (normal_header h, t)"
    using encode_header_normal [OF e(1)] e(3) by (simp add: decode_header_Inr)
  then show ?case using Cons.IH [OF e(2)] by simp
qed simp

lemma encode_decoded:
  assumes "decode_headers n out r = Inr res"
  shows "\<exists>hs. length hs = n \<and> map normal_header hs = hs \<and> encode_headers [] hs = Inr r \<and> res = out @ hs"
  using assms
proof (induction n arbitrary: out r)
  case (Suc n)
  obtain h e t where h: "h = normal_header h" "encode_header h = Inr e" "r = e @ t" "decode_headers n (out @ [h]) t = Inr res"
    using Suc.prems by (auto simp: err_simps decode_header_Inr)
  obtain hs where "length hs = n" "map normal_header hs = hs" "encode_headers [] hs = Inr t" "res = (out @ [h]) @ hs"
    using Suc.IH [OF h(4)] by blast
  then show ?case
    using h by (intro exI [of _ "h # hs"]) (simp del: encode_headers.simps add: encode_headers_Cons)
qed (simp split: if_splits)

lemma encoded_size: "encode_headers [] hs = Inr data \<Longrightarrow> 9 * length hs \<le> length data"
proof (induction hs arbitrary: data)
  case (Cons h hs)
  then obtain e t where e: "encode_header h = Inr e" "encode_headers [] hs = Inr t" "data = e @ t"
    by (auto simp: encode_headers_Cons simp del: encode_headers.simps)
  have "9 \<le> length e" using e(1) by (auto simp: encode_header_Inr)
  then show ?case using Cons.IH [OF e(2)] e(3) by simp
qed simp

lemma EncodeHeaders_Some:
  "EncodeHeaders (Some hs) = Inr data \<longleftrightarrow>
    (\<exists>r. length hs < 2 ^ 32 \<and> encode_headers [] hs = Inr r \<and> data = CHR 0x01 # CHR 0x01 # be32 (length hs) @ r)"
  by (subst EncodeHeaders_def, simp, subst encode_headers_out) (auto simp: headerLength_def err_simps)

lemma DecodeHeaders_Encode:
  assumes "EncodeHeaders hs = Inr data"
  shows "DecodeHeaders data = Inr (map_option (map normal_header) hs)"
proof (cases hs)
  case (Some l)
  then obtain r where r: "length l < 2 ^ 32" "encode_headers [] l = Inr r" "data = CHR 0x01 # CHR 0x01 # be32 (length l) @ r"
    using assms by (auto simp: EncodeHeaders_Some)
  have "read_u32 (be32 (length l) @ r) = Some (length l, r)" using r(1) by (simp add: read_u32_Some)
  then show ?thesis
    using r decode_encoded [OF r(2)] encoded_size [OF r(2)] Some by (simp add: DecodeHeaders_def byte_def)
qed (use assms in \<open>auto simp: EncodeHeaders_def DecodeHeaders_def byte_def\<close>)

lemma EncodeHeaders_Decode:
  assumes "DecodeHeaders data = Inr hs"
  shows "map_option (map normal_header) hs = hs \<and> EncodeHeaders hs = Inr data"
proof -
  obtain v b r where d: "data = v # b # r" "byte v = 1" "byte b \<le> 1"
    using assms by (auto simp: DecodeHeaders_def split: list.splits if_splits)
  have v: "v = CHR 0x01" using d(2) by simp
  show ?thesis
  proof (cases "byte b = 0")
    case True
    then have "b = CHR 0x00" by simp
    then show ?thesis using assms d v by (auto simp: DecodeHeaders_def EncodeHeaders_def byte_def split: if_splits)
  next
    case False
    then have "byte b = 1" using d(3) by linarith
    then have b: "b = CHR 0x01" by simp
    obtain n t l where n: "read_u32 r = Some (n, t)" "decode_headers n [] t = Inr l" "hs = Some l"
      using assms d \<open>byte b = 1\<close> by (auto simp: DecodeHeaders_def err_simps split: option.splits if_splits)
    then show ?thesis
      using encode_decoded [OF n(2)] d(1) v b by (auto simp: read_u32_Some EncodeHeaders_Some)
  qed
qed

text \<open>
  C19: header encoding and decoding are inverse. Decoding accepts exactly the bytes that encoding a
  header list produces, and returns that list; nil and empty lists, order, duplicates, null and empty
  values are kept. For any list that encodes at all, decoding gives it back with each header's value
  in its normal form: nil when the header is null, allocated otherwise.
\<close>

theorem headers_roundtrip:
  "(DecodeHeaders data = Inr hs \<longleftrightarrow> map_option (map normal_header) hs = hs \<and> EncodeHeaders hs = Inr data) \<and>
   (EncodeHeaders hs' = Inr data \<longrightarrow> DecodeHeaders data = Inr (map_option (map normal_header) hs'))"
  using DecodeHeaders_Encode EncodeHeaders_Decode by (metis option.map_id)

definition demo_headers :: "header list" where
  "demo_headers = [\<lparr>hd_Key = ''k'', hd_Value = Some ''v'', hd_Null = False\<rparr>, \<lparr>hd_Key = ''k'', hd_Value = None, hd_Null = True\<rparr>,
     \<lparr>hd_Key = [], hd_Value = Some [], hd_Null = False\<rparr>]"

theorem headers_roundtrip_witness:
  "\<exists>data. EncodeHeaders (Some demo_headers) = Inr data \<and> length data = 36 \<and> DecodeHeaders data = Inr (Some demo_headers)"
proof -
  obtain data where "EncodeHeaders (Some demo_headers) = Inr data" "length data = 36"
    by (auto simp: EncodeHeaders_def demo_headers_def headerLength_def encode_header_def header_bytes_def)
  moreover have "map normal_header demo_headers = demo_headers"
    by (simp add: demo_headers_def normal_header_def header_bytes_def)
  ultimately show ?thesis
    using headers_roundtrip [of data "Some demo_headers" None] by auto
qed

section \<open>Retries\<close>

record retry_policy =
  rp_MaxAttempts :: int
  rp_Delay :: int
  rp_Retryable :: "(goerr \<Rightarrow> bool) option"

text \<open>\<^verbatim>\<open>errors.Is\<close> looks through wrapped and joined errors.\<close>

fun errors_is :: "goerr \<Rightarrow> goerr \<Rightarrow> bool" where
  "errors_is (ErrWrap m e) target = (ErrWrap m e = target \<or> errors_is e target)"
| "errors_is (ErrJoin es) target = (ErrJoin es = target \<or> list_ex (\<lambda>e. errors_is e target) es)"
| "errors_is e target = (e = target)"

definition gives_up :: "retry_policy \<Rightarrow> goerr \<Rightarrow> bool" where
  "gives_up policy e \<longleftrightarrow> errors_is e ErrCanceled \<or> errors_is e ErrDeadlineExceeded \<or>
     (case rp_Retryable policy of None \<Rightarrow> True | Some retryable \<Rightarrow> \<not> retryable e)"

text \<open>
  The environment's state is threaded: \<^term>\<open>ctx\<close> reads \<^verbatim>\<open>ctx.Err()\<close>, \<^term>\<open>operation\<close> is the call and \<^term>\<open>wait\<close> what
  happens until the delay has passed or the context is done. When both have happened the select may
  take the timer, and the next round then returns the context's error before it calls anything. The
  loop is on the attempts that are left.
\<close>

fun retry_loop ::
  "('s \<Rightarrow> goerr option) \<Rightarrow> retry_policy \<Rightarrow> ('s \<Rightarrow> 's \<times> goerr option) \<Rightarrow> (int \<Rightarrow> 's \<Rightarrow> 's) \<Rightarrow> nat \<Rightarrow> 's \<Rightarrow> 's \<times> goerr option" where
  "retry_loop ctx policy operation wait 0 s = (s, None)"
| "retry_loop ctx policy operation wait (Suc n) s =
     (case ctx s of
        Some e \<Rightarrow> (s, Some e)
      | None \<Rightarrow>
          (case operation s of (s, err) \<Rightarrow>
             case ctx s of
               Some e \<Rightarrow> (s, Some e)
             | None \<Rightarrow>
                 (case err of
                    None \<Rightarrow> (s, None)
                  | Some e \<Rightarrow>
                      if n = 0 \<or> gives_up policy e then (s, Some e)
                      else let s = wait (rp_Delay policy) s in
                        case ctx s of
                          Some e \<Rightarrow> (s, Some e)
                        | None \<Rightarrow> retry_loop ctx policy operation wait n s)))"

definition Retry ::
  "('s \<Rightarrow> goerr option) \<Rightarrow> retry_policy \<Rightarrow> ('s \<Rightarrow> 's \<times> goerr option) option \<Rightarrow> (int \<Rightarrow> 's \<Rightarrow> 's) \<Rightarrow> 's \<Rightarrow> 's \<times> goerr option" where
  "Retry ctx policy operation wait s =
     (case operation of
        None \<Rightarrow> (s, Some (ErrMsg ''streamkit: invalid retry policy or operation''))
      | Some f \<Rightarrow>
          if rp_MaxAttempts policy < 0 \<or> rp_Delay policy < 0
          then (s, Some (ErrMsg ''streamkit: invalid retry policy or operation''))
          else retry_loop ctx policy f wait (nat (max 1 (rp_MaxAttempts policy))) s)"

text \<open>An operation that records what each call returned.\<close>

definition logged :: "('s \<Rightarrow> 's \<times> goerr option) \<Rightarrow> 's \<times> goerr option list \<Rightarrow> ('s \<times> goerr option list) \<times> goerr option" where
  "logged f = (\<lambda>(s, log). case f s of (s', e) \<Rightarrow> ((s', log @ [e]), e))"

definition retry_outcome :: "retry_policy \<Rightarrow> nat \<Rightarrow> goerr option \<Rightarrow> goerr option list \<Rightarrow> goerr option \<Rightarrow> bool" where
  "retry_outcome policy limit ended log e \<longleftrightarrow>
     length log \<le> limit \<and>
     list_all (\<lambda>x. case x of None \<Rightarrow> False | Some err \<Rightarrow> \<not> gives_up policy err) (butlast log) \<and>
     (case ended of
        Some cause \<Rightarrow> e = Some cause
      | None \<Rightarrow> log \<noteq> [] \<and> e = last log \<and>
          (case e of None \<Rightarrow> True | Some err \<Rightarrow> gives_up policy err \<or> length log = limit))"

abbreviation logged_loop ::
  "('s \<Rightarrow> goerr option) \<Rightarrow> retry_policy \<Rightarrow> ('s \<Rightarrow> 's \<times> goerr option) \<Rightarrow> (int \<Rightarrow> 's \<Rightarrow> 's) \<Rightarrow> nat \<Rightarrow>
    's \<times> goerr option list \<Rightarrow> ('s \<times> goerr option list) \<times> goerr option" where
  "logged_loop ctx policy f wait \<equiv> retry_loop (ctx \<circ> fst) policy (logged f) (\<lambda>d (s, l). (wait d s, l))"

lemma retry_round:
  assumes "f s = (s1, r)" "s2 = wait (rp_Delay policy) s1"
  shows "logged_loop ctx policy f wait (Suc n) (s, log) =
    (if ctx s \<noteq> None then ((s, log), ctx s)
     else if ctx s1 \<noteq> None then ((s1, log @ [r]), ctx s1)
     else if r = None \<or> n = 0 \<or> gives_up policy (the r) then ((s1, log @ [r]), r)
     else if ctx s2 \<noteq> None then ((s2, log @ [r]), ctx s2)
     else logged_loop ctx policy f wait n (s2, log @ [r]))"
  using assms by (auto simp: logged_def Let_def split: option.splits)

lemma outcome_stop:
  assumes "log' = log \<and> ended = e \<and> e \<noteq> None \<or> log' = log @ [r] \<and> ended = e \<and> e \<noteq> None \<or>
    log' = log @ [r] \<and> ended = None \<and> e = r \<and> (r = None \<or> n = 0 \<or> gives_up policy (the r))"
  shows "\<exists>calls. log' = log @ calls \<and> retry_outcome policy (Suc n) ended calls e"
proof (cases "log' = log @ [r]")
  case True
  then show ?thesis
    using assms by (intro exI [of _ "[r]"]) (auto simp: retry_outcome_def split: option.splits)
next
  case False
  then show ?thesis
    using assms by (intro exI [of _ "[]"]) (auto simp: retry_outcome_def split: option.splits)
qed

lemma retry_loop_outcome:
  "logged_loop ctx policy f wait (Suc n) (s, log) = ((s', log'), e) \<Longrightarrow>
    \<exists>calls. log' = log @ calls \<and> retry_outcome policy (Suc n) (ctx s') calls e"
proof (induction n arbitrary: s log)
  case 0
  obtain s1 r where f: "f s = (s1, r)" by (cases "f s")
  show ?case
    using "0.prems" unfolding retry_round [of f s s1 r _ wait policy, OF f refl]
    by (intro outcome_stop [of _ _ _ _ r]) (auto simp del: retry_loop.simps not_None_eq split: if_splits)
next
  case (Suc n)
  obtain s1 r where f: "f s = (s1, r)" by (cases "f s")
  let ?s2 = "wait (rp_Delay policy) s1"
  show ?case
  proof (cases "ctx s = None \<and> ctx s1 = None \<and> r \<noteq> None \<and> \<not> gives_up policy (the r) \<and> ctx ?s2 = None")
    case True
    then have "logged_loop ctx policy f wait (Suc n) (?s2, log @ [r]) = ((s', log'), e)"
      using Suc.prems unfolding retry_round [of f s s1 r _ wait policy, OF f refl]
      by (auto simp del: retry_loop.simps)
    from Suc.IH [OF this] obtain calls where "log' = log @ r # calls" "retry_outcome policy (Suc n) (ctx s') calls e" by auto
    then show ?thesis
      using True by (intro exI [of _ "r # calls"]) (auto simp: retry_outcome_def split: option.splits)
  next
    case False
    then show ?thesis
      using Suc.prems unfolding retry_round [of f s s1 r _ wait policy, OF f refl]
      by (intro outcome_stop [of _ _ _ _ r]) (auto simp del: retry_loop.simps not_None_eq split: if_splits)
  qed
qed

text \<open>
  C22: retries are bounded and never hide a failure. With a valid policy \<^verbatim>\<open>Retry\<close> returns after at most
  \<^verbatim>\<open>max(1, MaxAttempts)\<close> calls of the operation; every call but the last failed with an error the policy
  retries, which is never a cancellation; when the context has ended the result is the context's
  error, even if the last call succeeded; and otherwise the result is that of the last call, an error
  only if the policy gives up on it or the attempts are used up.
\<close>

theorem retry_bounded:
  assumes "0 \<le> rp_MaxAttempts policy" "0 \<le> rp_Delay policy"
    "Retry (ctx \<circ> fst) policy (Some (logged f)) (\<lambda>d (s, l). (wait d s, l)) (s, []) = ((s', log), e)"
  shows "retry_outcome policy (nat (max 1 (rp_MaxAttempts policy))) (ctx s') log e"
proof -
  obtain n where n: "nat (max 1 (rp_MaxAttempts policy)) = Suc n"
    by (cases "nat (max 1 (rp_MaxAttempts policy))") auto
  then show ?thesis
    using assms retry_loop_outcome [of ctx policy f wait n s "[]" s' log e] by (auto simp: Retry_def)
qed

definition demo_policy :: retry_policy where
  "demo_policy = \<lparr>rp_MaxAttempts = 3, rp_Delay = 5, rp_Retryable = Some (\<lambda>e. e = ErrMsg ''busy'')\<rparr>"

definition demo_operation :: "nat \<Rightarrow> nat \<times> goerr option" where
  "demo_operation n = (Suc n, if n < 2 then Some (ErrMsg ''busy'') else None)"

theorem retry_bounded_witness:
  "Retry ((\<lambda>_. None) \<circ> fst) demo_policy (Some (logged demo_operation)) (\<lambda>d (s, l). (s, l)) (0, []) =
      ((3, [Some (ErrMsg ''busy''), Some (ErrMsg ''busy''), None]), None) \<and>
    retry_outcome demo_policy 3 None [Some (ErrMsg ''busy''), Some (ErrMsg ''busy''), None] None"
proof -
  have run: "Retry ((\<lambda>_. None) \<circ> fst) demo_policy (Some (logged demo_operation)) (\<lambda>d (s, l). (s, l)) (0, []) =
      ((3, [Some (ErrMsg ''busy''), Some (ErrMsg ''busy''), None]), None)"
    by (simp add: Retry_def demo_policy_def logged_def demo_operation_def gives_up_def eval_nat_numeral)
  then show ?thesis
    using retry_bounded [of demo_policy "\<lambda>_. None" demo_operation "\<lambda>_ s. s"] by (simp add: demo_policy_def)
qed

end
