(* ===== verification/StreamKit.thy ===== *)
theory StreamKit
  imports StreamEpoch StreamCodec
begin

text \<open>
  The boundary tracker of a stream connector (\<^verbatim>\<open>streamkit/boundary.go\<close>) and canonical event identities
  (\<^verbatim>\<open>streamkit/envelope.go\<close>). The tracker asks its owner to finish at the next safe source boundary; run
  over a stream pipeline, the boundary it reports is one at which the epoch can be sealed.
\<close>

section \<open>The boundary tracker\<close>

text \<open>
  Clock readings are arguments, in nanoseconds. The timer is nil, armed for a deadline, or stopped;
  its channel \<^verbatim>\<open>Wake\<close> delivers once an armed deadline has passed.
\<close>

datatype wake_timer = TimerNil | TimerArmed int | TimerStopped

record boundary_tracker =
  tk_limits :: boundary
  tk_started :: int
  tk_last :: int
  tk_records :: int
  tk_bytes :: int
  tk_timer :: wake_timer
  tk_requested :: bool
  tk_closed :: bool
  tk_err :: "goerr option"
  tk_transactions :: "(domain_key \<times> string) list"

definition deadline :: "boundary_tracker \<Rightarrow> int option" where
  "deadline b =
     (let d = (if by_MaxWait (tk_limits b) > 0 then Some (tk_last b + by_MaxWait (tk_limits b)) else None) in
      if by_MaxAge (tk_limits b) > 0
      then let age = tk_started b + by_MaxAge (tk_limits b) in
        case d of None \<Rightarrow> Some age | Some w \<Rightarrow> if age < w then Some age else Some w
      else d)"

definition arm :: "boundary_tracker \<Rightarrow> boundary_tracker" where
  "arm b = (case deadline b of None \<Rightarrow> b | Some d \<Rightarrow> b\<lparr>tk_timer := TimerArmed d\<rparr>)"

definition stop_timer :: "boundary_tracker \<Rightarrow> boundary_tracker" where
  "stop_timer b = (if tk_timer b = TimerNil then b else b\<lparr>tk_timer := TimerStopped\<rparr>)"

definition NewBoundaryTracker :: "int \<Rightarrow> boundary \<Rightarrow> boundary_tracker res" where
  "NewBoundaryTracker now limits =
     (if by_MaxRecords limits < 0 \<or> by_MaxBytes limits < 0 \<or> by_MaxWait limits < 0 \<or> by_MaxAge limits < 0
      then Inl (ErrMsg ''streamkit: negative boundary limit'')
      else Inr (arm \<lparr>tk_limits = limits, tk_started = now, tk_last = now, tk_records = 0, tk_bytes = 0, tk_timer = TimerNil,
        tk_requested = False, tk_closed = False, tk_err = None, tk_transactions = []\<rparr>))"

definition Tracker_Close :: "boundary_tracker \<Rightarrow> boundary_tracker" where
  "Tracker_Close b = stop_timer (b\<lparr>tk_closed := True\<rparr>)"

definition tracker_ready :: "boundary_tracker \<Rightarrow> goerr option" where
  "tracker_ready b = (case tk_err b of Some e \<Rightarrow> Some e | None \<Rightarrow> if tk_closed b then Some ErrBoundaryClosed else None)"

definition tracker_fail :: "goerr \<Rightarrow> boundary_tracker \<Rightarrow> boundary_tracker" where
  "tracker_fail e b = Tracker_Close (b\<lparr>tk_err := Some e\<rparr>)"

definition Requested :: "int \<Rightarrow> boundary_tracker \<Rightarrow> boundary_tracker \<times> bool" where
  "Requested now b =
     (if tk_closed b \<or> tk_err b \<noteq> None then (b, False)
      else let l = tk_limits b;
               r = tk_requested b \<or>
                 (by_MaxRecords l > 0 \<and> tk_records b \<ge> by_MaxRecords l) \<or>
                 (by_MaxBytes l > 0 \<and> tk_bytes b \<ge> by_MaxBytes l) \<or>
                 (by_MaxWait l > 0 \<and> now - tk_last b \<ge> by_MaxWait l) \<or>
                 (by_MaxAge l > 0 \<and> now - tk_started b \<ge> by_MaxAge l)
           in (b\<lparr>tk_requested := r\<rparr>, r))"

text \<open>The clock is read three times: by the two calls of \<^verbatim>\<open>Requested\<close> and for the last activity.\<close>

definition Tracker_Add :: "int \<Rightarrow> int \<Rightarrow> int \<Rightarrow> int \<Rightarrow> int \<Rightarrow> boundary_tracker \<Rightarrow> boundary_tracker \<times> goerr option" where
  "Tracker_Add now1 now2 now3 records nbytes b =
     (case tracker_ready b of
        Some e \<Rightarrow> (b, Some e)
      | None \<Rightarrow>
          if records < 0 \<or> nbytes < 0 \<or> records > 2 ^ 63 - 1 - tk_records b \<or> nbytes > 2 ^ 63 - 1 - tk_bytes b
          then let e = ErrMsg ''streamkit: invalid boundary accounting'' in (tracker_fail e b, Some e)
          else
            let b = fst (Requested now1 b);
                b = b\<lparr>tk_records := tk_records b + records, tk_bytes := tk_bytes b + nbytes\<rparr>;
                b = (if records > 0 then b\<lparr>tk_last := now2\<rparr> else b)
            in case Requested now3 b of (b, r) \<Rightarrow> (if r then b else arm b, None))"

definition Tracker_Request :: "boundary_tracker \<Rightarrow> boundary_tracker \<times> goerr option" where
  "Tracker_Request b =
     (case tracker_ready b of
        Some e \<Rightarrow> (b, Some e)
      | None \<Rightarrow> (stop_timer (b\<lparr>tk_requested := True\<rparr>), None))"

definition tracker_validateControl :: "boundary_tracker \<Rightarrow> control \<Rightarrow> goerr option" where
  "tracker_validateControl b c =
     orelse_err (Control_Validate c)
       (let txn = (case map_of (tk_transactions b) (ct_Domain c) of None \<Rightarrow> [] | Some t \<Rightarrow> t) in
        case ct_Kind c of
          TxnBegin \<Rightarrow> if txn \<noteq> [] then Some (ErrMsg ''streamkit: nested transaction'') else None
        | TxnEnd \<Rightarrow> if txn \<noteq> ct_TxnID c then Some (ErrMsg ''streamkit: unmatched transaction end'') else None
        | ProgressBoundary \<Rightarrow> if txn \<noteq> [] then Some (ErrMsg ''streamkit: progress inside transaction'') else None
        | MemberActivated \<Rightarrow> if txn \<noteq> [] then Some (ErrMsg ''streamkit: progress inside transaction'') else None
        | _ \<Rightarrow> None)"

definition track_control :: "control \<Rightarrow> boundary_tracker \<Rightarrow> boundary_tracker" where
  "track_control c b = (case ct_Kind c of
     TxnBegin \<Rightarrow> b\<lparr>tk_transactions := AList.update (ct_Domain c) (ct_TxnID c) (tk_transactions b)\<rparr>
   | TxnEnd \<Rightarrow> b\<lparr>tk_transactions := AList.delete (ct_Domain c) (tk_transactions b)\<rparr>
   | _ \<Rightarrow> b)"

text \<open>
  The sink is a parameter with its own state; \<^term>\<open>early\<close> and \<^term>\<open>late\<close> are the context's errors before and after
  the sink's control.
\<close>

definition Tracker_Control ::
  "int \<Rightarrow> goerr option \<Rightarrow> goerr option \<Rightarrow> (control \<Rightarrow> 'p \<Rightarrow> 'p \<times> goerr option) \<Rightarrow> control \<Rightarrow> boundary_tracker \<Rightarrow> 'p \<Rightarrow>
    boundary_tracker \<times> 'p \<times> bool res" where
  "Tracker_Control now early late sink c b p =
     (case tracker_ready b of
        Some e \<Rightarrow> (b, p, Inl e)
      | None \<Rightarrow>
          (case orelse_err early (tracker_validateControl b c) of
             Some e \<Rightarrow> (tracker_fail e b, p, Inl e)
           | None \<Rightarrow>
               (case sink c p of (p, err) \<Rightarrow>
                  case orelse_err err late of
                    Some e \<Rightarrow> (tracker_fail e b, p, Inl e)
                  | None \<Rightarrow>
                      let b = track_control c b;
                          safe = (ct_Kind c = TxnEnd \<or> ct_Kind c = ProgressBoundary)
                      in if safe \<and> tk_transactions b = []
                         then case Requested now b of (b, r) \<Rightarrow>
                           if r then (Tracker_Close b, p, Inr True) else (b, p, Inr False)
                         else (b, p, Inr False))))"

subsection \<open>When a boundary is requested\<close>

text \<open>The trackers that calls of the owner reach.\<close>

inductive tracker_reach :: "boundary \<Rightarrow> (control \<Rightarrow> 'p \<Rightarrow> 'p \<times> goerr option) \<Rightarrow> boundary_tracker \<Rightarrow> bool"
  for limits :: boundary and sink :: "control \<Rightarrow> 'p \<Rightarrow> 'p \<times> goerr option" where
  new: "NewBoundaryTracker now limits = Inr b \<Longrightarrow> tracker_reach limits sink b"
| add: "tracker_reach limits sink b \<Longrightarrow> tracker_reach limits sink (fst (Tracker_Add now1 now2 now3 records nbytes b))"
| requested: "tracker_reach limits sink b \<Longrightarrow> tracker_reach limits sink (fst (Requested now b))"
| request: "tracker_reach limits sink b \<Longrightarrow> tracker_reach limits sink (fst (Tracker_Request b))"
| control: "tracker_reach limits sink b \<Longrightarrow> tracker_reach limits sink (fst (Tracker_Control now early late sink c b p))"
| close: "tracker_reach limits sink b \<Longrightarrow> tracker_reach limits sink (Tracker_Close b)"

definition tracker_open :: "boundary_tracker \<Rightarrow> bool" where
  "tracker_open b \<longleftrightarrow> \<not> tk_closed b \<and> tk_err b = None"

lemma tracker_ready_open: "tracker_ready b = None \<longleftrightarrow> tracker_open b"
  by (auto simp: tracker_ready_def tracker_open_def split: option.splits)

definition limits_reached :: "boundary_tracker \<Rightarrow> bool" where
  "limits_reached b \<longleftrightarrow>
     (by_MaxRecords (tk_limits b) > 0 \<and> tk_records b \<ge> by_MaxRecords (tk_limits b)) \<or>
     (by_MaxBytes (tk_limits b) > 0 \<and> tk_bytes b \<ge> by_MaxBytes (tk_limits b))"

lemma Requested_open:
  "tracker_open b \<Longrightarrow> Requested now b =
    (let r = tk_requested b \<or> limits_reached b \<or> (\<exists>d. deadline b = Some d \<and> d \<le> now) in (b\<lparr>tk_requested := r\<rparr>, r))"
  by (auto simp: Requested_def tracker_open_def limits_reached_def deadline_def Let_def intro!: boundary_tracker.equality)

lemma Requested_shut: "\<not> tracker_open b \<Longrightarrow> Requested now b = (b, False)"
  by (auto simp: Requested_def tracker_open_def)

text \<open>An open tracker without a request is below its counts, and its timer is armed for the deadline.\<close>

definition tracker_inv :: "boundary_tracker \<Rightarrow> bool" where
  "tracker_inv b \<longleftrightarrow> 0 \<le> tk_records b \<and> tk_records b < 2 ^ 63 \<and> 0 \<le> tk_bytes b \<and> tk_bytes b < 2 ^ 63 \<and>
     (tracker_open b \<and> \<not> tk_requested b \<longrightarrow> \<not> limits_reached b \<and>
        tk_timer b = (case deadline b of None \<Rightarrow> TimerNil | Some d \<Rightarrow> TimerArmed d)) \<and>
     (deadline b = None \<longrightarrow> tk_timer b = TimerNil)"

lemma deadline_cong: "deadline (b\<lparr>tk_requested := r\<rparr>) = deadline b" "deadline (b\<lparr>tk_closed := r\<rparr>) = deadline b"
  "deadline (b\<lparr>tk_err := e\<rparr>) = deadline b" "deadline (b\<lparr>tk_timer := t\<rparr>) = deadline b"
  "deadline (b\<lparr>tk_transactions := x\<rparr>) = deadline b" "deadline (b\<lparr>tk_records := n, tk_bytes := m\<rparr>) = deadline b"
  by (simp_all add: deadline_def)

lemma deadline_activity: "deadline (b\<lparr>tk_last := t\<rparr>) = None \<longleftrightarrow> deadline b = None"
  by (simp add: deadline_def Let_def split: option.splits)

lemmas tracker_simps = tracker_inv_def tracker_open_def limits_reached_def deadline_cong

lemma arm_inv:
  assumes "0 \<le> tk_records b" "tk_records b < 2 ^ 63" "0 \<le> tk_bytes b" "tk_bytes b < 2 ^ 63" "\<not> limits_reached b"
    "deadline b = None \<longrightarrow> tk_timer b = TimerNil"
  shows "tracker_inv (arm b)"
  using assms by (auto simp: arm_def tracker_simps split: option.splits)

lemma Requested_inv: "tracker_inv b \<Longrightarrow> tracker_inv (fst (Requested now b))"
  by (cases "tracker_open b") (auto simp: Requested_open Requested_shut Let_def, auto simp: tracker_simps)

lemma tracker_close_inv: "tracker_inv b \<Longrightarrow> tracker_inv (Tracker_Close b)"
  by (auto simp: Tracker_Close_def stop_timer_def tracker_simps)

lemma tracker_fail_inv: "tracker_inv b \<Longrightarrow> tracker_inv (tracker_fail e b)"
  by (auto simp: tracker_fail_def Tracker_Close_def stop_timer_def tracker_simps)

lemma tracker_Add_inv:
  assumes "tracker_inv b"
  shows "tracker_inv (fst (Tracker_Add now1 now2 now3 records nbytes b))"
proof (cases "tracker_ready b = None \<and> \<not> (records < 0 \<or> nbytes < 0 \<or> records > 2 ^ 63 - 1 - tk_records b \<or> nbytes > 2 ^ 63 - 1 - tk_bytes b)")
  case True
  define b1 where "b1 = fst (Requested now1 b)"
  define b2 where "b2 = (let b = b1\<lparr>tk_records := tk_records b1 + records, tk_bytes := tk_bytes b1 + nbytes\<rparr>
    in if records > 0 then b\<lparr>tk_last := now2\<rparr> else b)"
  have b1: "tk_records b1 = tk_records b" "tk_bytes b1 = tk_bytes b" "tracker_inv b1" "tracker_open b1"
    using Requested_inv [OF assms] True
    by (auto simp: b1_def tracker_ready_open Requested_open Let_def tracker_open_def)
  have b2: "0 \<le> tk_records b2" "tk_records b2 < 2 ^ 63" "0 \<le> tk_bytes b2" "tk_bytes b2 < 2 ^ 63" "tracker_open b2"
    "deadline b2 = None \<longrightarrow> tk_timer b2 = TimerNil"
    using b1 True by (auto simp: b2_def Let_def tracker_simps deadline_activity)
  have "fst (Tracker_Add now1 now2 now3 records nbytes b) = (case Requested now3 b2 of (b, r) \<Rightarrow> if r then b else arm b)"
    using True by (simp add: Tracker_Add_def b1_def b2_def Let_def split: prod.splits)
  moreover have "tracker_inv (case Requested now3 b2 of (b, r) \<Rightarrow> if r then b else arm b)"
    using b2 by (auto simp: Requested_open Let_def arm_def tracker_simps split: option.splits)
  ultimately show ?thesis by simp
next
  case False
  then show ?thesis
    using assms tracker_fail_inv [OF assms] by (auto simp: Tracker_Add_def Let_def split: option.splits)
qed

lemma tracker_Control_inv:
  assumes "tracker_inv b"
  shows "tracker_inv (fst (Tracker_Control now early late sink c b p))"
proof -
  have t: "tracker_inv (track_control c b)"
    using assms by (auto simp: track_control_def tracker_simps split: control_kind.splits)
  have "fst (Tracker_Control now early late sink c b p) \<in>
      {b, track_control c b, fst (Requested now (track_control c b)), Tracker_Close (fst (Requested now (track_control c b)))} \<union>
      range (\<lambda>e. tracker_fail e b)"
    by (auto simp: Tracker_Control_def Let_def split: option.splits prod.splits)
  then show ?thesis
    using assms t tracker_fail_inv tracker_close_inv Requested_inv by auto
qed

lemma tracker_keeps_limits:
  "tk_limits (fst (Requested now b)) = tk_limits b" "tk_limits (Tracker_Close b) = tk_limits b"
  "tk_limits (fst (Tracker_Add now now2 now3 records nbytes b)) = tk_limits b"
  "tk_limits (fst (Tracker_Control now early late sink c b p)) = tk_limits b"
proof -
  have r: "tk_limits (fst (Requested now b)) = tk_limits b" for now b by (simp add: Requested_def Let_def)
  have c: "tk_limits (Tracker_Close b) = tk_limits b" for b by (simp add: Tracker_Close_def stop_timer_def)
  have e: "tk_limits (tracker_fail e b) = tk_limits b" for e b by (simp add: tracker_fail_def c)
  have arm: "tk_limits (arm b) = tk_limits b" for b by (simp add: arm_def split: option.splits)
  have t: "tk_limits (track_control c b) = tk_limits b" by (simp add: track_control_def split: control_kind.splits)
  show "tk_limits (fst (Requested now b)) = tk_limits b" "tk_limits (Tracker_Close b) = tk_limits b"
    by (fact r c)+
  show "tk_limits (fst (Tracker_Add now now2 now3 records nbytes b)) = tk_limits b"
    by (simp add: Tracker_Add_def Let_def case_prod_beta r e arm split: option.splits)
  show "tk_limits (fst (Tracker_Control now early late sink c b p)) = tk_limits b"
    by (simp add: Tracker_Control_def Let_def case_prod_beta r e c t split: option.splits)
qed

lemma tracker_reach_inv: "tracker_reach limits sink b \<Longrightarrow> tracker_inv b \<and> tk_limits b = limits"
proof (induction rule: tracker_reach.induct)
  case (new now b)
  then have "tk_limits b = limits" by (auto simp: NewBoundaryTracker_def arm_def split: if_splits option.splits)
  moreover have "tracker_inv b"
    using new arm_inv by (auto simp: NewBoundaryTracker_def limits_reached_def split: if_splits)
  ultimately show ?case by simp
next
  case (request b)
  then show ?case by (auto simp: Tracker_Request_def stop_timer_def tracker_simps split: option.splits)
qed (simp_all add: tracker_Add_inv tracker_Control_inv tracker_close_inv Requested_inv tracker_keeps_limits)

text \<open>
  C18: a boundary is requested exactly when it is due, and the wake-up is armed for that moment. For
  every tracker the owner's calls reach and that is still open: asking at any time answers true
  exactly when a request is latched already or the armed deadline has passed, so an owner that sleeps
  until \<^verbatim>\<open>Wake\<close> and then asks is told to finish, and is not told earlier; while no request is latched the
  timer is armed for the sooner of the idle and the age limit, or is nil when neither is set, and the
  record and byte counts are below their limits.
\<close>

theorem boundary_due:
  assumes "tracker_reach limits sink b" "\<not> tk_closed b" "tk_err b = None"
  shows "(snd (Requested now b) \<longleftrightarrow> tk_requested b \<or> (\<exists>d. tk_timer b = TimerArmed d \<and> d \<le> now)) \<and>
    (\<not> tk_requested b \<longrightarrow>
      tk_timer b = (if by_MaxWait limits > 0 \<and> by_MaxAge limits > 0
          then TimerArmed (min (tk_last b + by_MaxWait limits) (tk_started b + by_MaxAge limits))
        else if by_MaxWait limits > 0 then TimerArmed (tk_last b + by_MaxWait limits)
        else if by_MaxAge limits > 0 then TimerArmed (tk_started b + by_MaxAge limits) else TimerNil) \<and>
      (by_MaxRecords limits > 0 \<longrightarrow> tk_records b < by_MaxRecords limits) \<and>
      (by_MaxBytes limits > 0 \<longrightarrow> tk_bytes b < by_MaxBytes limits))"
proof -
  have o: "tracker_open b" using assms by (simp add: tracker_open_def)
  have inv: "tracker_inv b" "tk_limits b = limits" using tracker_reach_inv [OF assms(1)] by auto
  show ?thesis
  proof (cases "tk_requested b")
    case True
    then show ?thesis using o by (simp add: Requested_open)
  next
    case False
    then have "\<not> limits_reached b" "tk_timer b = (case deadline b of None \<Rightarrow> TimerNil | Some d \<Rightarrow> TimerArmed d)"
      using inv o by (auto simp: tracker_inv_def)
    then show ?thesis
      using False o inv(2)
      by (auto simp: Requested_open Let_def limits_reached_def deadline_def not_le split: option.splits if_splits)
  qed
qed

definition demo_limits :: boundary where
  "demo_limits = \<lparr>by_MaxRecords = 100, by_MaxBytes = 0, by_MaxWait = 5, by_MaxAge = 60\<rparr>"

definition demo_tracker :: boundary_tracker where
  "demo_tracker = fst (Tracker_Add 12 13 13 3 40 (projr (NewBoundaryTracker 10 demo_limits)))"

theorem boundary_due_witness:
  "tk_timer demo_tracker = TimerArmed 18 \<and> snd (Requested 18 demo_tracker) \<and> \<not> snd (Requested 17 demo_tracker)"
proof -
  have "NewBoundaryTracker 10 demo_limits = Inr (projr (NewBoundaryTracker 10 demo_limits))"
    by (simp add: NewBoundaryTracker_def demo_limits_def)
  then have r: "tracker_reach demo_limits (\<lambda>c (p :: unit). (p, None)) demo_tracker"
    unfolding demo_tracker_def by (intro tracker_reach.add tracker_reach.new)
  have "\<not> tk_closed demo_tracker" "tk_err demo_tracker = None" "\<not> tk_requested demo_tracker" "tk_timer demo_tracker = TimerArmed 18"
    by (simp_all add: demo_tracker_def demo_limits_def NewBoundaryTracker_def Tracker_Add_def tracker_ready_def Requested_def
      arm_def deadline_def Let_def)
  then show ?thesis
    using boundary_due [OF r, of 18] boundary_due [OF r, of 17] by simp
qed

subsection \<open>A boundary over a stream pipeline\<close>

text \<open>\<^verbatim>\<open>streamInlet.Control\<close>: the barrier without its receipt.\<close>

definition stream_Control :: "'k calls \<Rightarrow> goerr option \<Rightarrow> goerr option \<Rightarrow> control \<Rightarrow> 'k pipeline \<Rightarrow> 'k pipeline \<times> goerr option" where
  "stream_Control c early late ctl p =
     (case Barrier c early late ctl p of
        (p, Inl e) \<Rightarrow> (p, Some e)
      | (p, Inr receipt) \<Rightarrow> (p, None))"

definition same_view :: "'k pipeline \<Rightarrow> 'k pipeline \<Rightarrow> bool" where
  "same_view p p' \<longleftrightarrow> pp_isStream p' = pp_isStream p \<and> producer_view (pp_stream p') = producer_view (pp_stream p)"

lemma follows_view: "follows p p' \<Longrightarrow> same_view p p'"
  by (simp add: follows_def same_view_def)

lemma same_view_trans: "same_view p q \<Longrightarrow> same_view q r \<Longrightarrow> same_view p r"
  by (simp add: same_view_def)

lemma part_Flush_view:
  assumes "part_Flush c key p = (p', e)"
  shows "same_view p p'"
proof (cases "map_of (pp_builders p) key")
  case (Some pt)
  obtain b r x where g: "Builder_Flush (slot_receiver c) (p, pt_slot pt) (pt_builder pt) = (b, r, x)"
    by (cases "Builder_Flush (slot_receiver c) (p, pt_slot pt) (pt_builder pt)") auto
  have "same_view p (fst (fst (rv_Chunk (slot_receiver c) q t)))" if q: "same_view p (fst q)" for q t
  proof -
    obtain p1 s1 where q1: "q = (p1, s1)" by (cases q)
    obtain p2 s2 y where o: "slot_Chunk c (p1, s1) t = ((p2, s2), y)" by (cases "slot_Chunk c (p1, s1) t") auto
    show ?thesis
      using slot_Chunk_step [OF o] follows_view [of p1 p2] same_view_trans q o by (auto simp: q1 slot_receiver_def)
  qed
  moreover have "same_view p (fst (p, pt_slot pt))" by (simp add: same_view_def)
  note Builder_Flush_keeps [where P = "\<lambda>r. same_view p (fst r)", OF _ this g]
  ultimately have "same_view p (fst r)" by blast
  then show ?thesis
    using assms g Some by (cases r) (auto simp: part_Flush_def same_view_def put_part_def)
qed (use assms in \<open>simp add: part_Flush_def same_view_def\<close>)

lemma stream_Flush_view: "stream_Flush c r p = (p', None) \<Longrightarrow> same_view p p'"
  by (auto simp: stream_Flush_def stream_fail_def Let_def split: option.splits if_splits prod.splits intro: part_Flush_view)

lemma flush_each_view: "flush_each c rs p = (p', None) \<Longrightarrow> same_view p p'"
proof (induction rs arbitrary: p)
  case (Cons r rs)
  then obtain p1 where "stream_Flush c r p = (p1, None)" "flush_each c rs p1 = (p', None)"
    by (auto split: prod.splits option.splits)
  then show ?case using Cons.IH stream_Flush_view same_view_trans by blast
qed (simp add: same_view_def)

lemma await_control_success:
  assumes "await_control c late ctl p = (p', Inr receipt)"
  shows "\<exists>q. same_view p q \<and> stream_ready q = None \<and> p' = on_stream (complete_control ctl) q"
proof -
  obtain p1 w where i: "interleave c p = (p1, w)" by (cases "interleave c p")
  let ?q = "writer_rounds c (length (pp_batchCh p1)) p1"
  have "follows p ?q"
    using interleave_follows [OF i] writer_rounds_follows [of p1] follows_trans by blast
  then show ?thesis
    using assms i follows_view by (auto simp: await_control_def Let_def split: option.splits)
qed

lemma Barrier_success:
  assumes "Barrier c early late ctl p = (p', Inr receipt)"
  shows "pp_isStream p \<and> \<not> in_sealed (pp_stream p) \<and>
    (\<exists>q. pp_isStream q \<and> stream_ready q = None \<and> p' = on_stream (complete_control ctl) q \<and> \<not> in_sealed (pp_stream q) \<and>
      in_epoch (pp_stream q) = in_epoch (pp_stream p) \<and> in_transactions (pp_stream q) = in_transactions (pp_stream p))"
proof -
  let ?p1 = "on_stream (\<lambda>i. i\<lparr>in_touched := True\<rparr>) p"
  have s: "pp_isStream p" "\<not> in_sealed (pp_stream p)" using assms by (auto simp: Barrier_def split: if_splits)
  obtain b where b: "stream_ready ?p1 = None" "orelse_err early (validateControl (pp_stream ?p1) ctl) = None" "NewControl ctl = Inr b"
    using assms s by (auto simp: Barrier_def Let_def split: option.splits sum.splits)
  obtain p2 x where f: "stream_flush c ?p1 = (p2, x)" by (cases "stream_flush c ?p1")
  have [simp]: "x = None" using assms s b f by (cases x) (auto simp: Barrier_def Let_def)
  let ?p3 = "(on_stream (\<lambda>i. i\<lparr>in_sequence := in_sequence i + 1\<rparr>) p2)\<lparr>pp_receipt := None\<rparr>"
  let ?u = "\<lparr>qu_batch = b\<lparr>bt_Seq := in_sequence (pp_stream ?p3)\<rparr>, qu_epoch = None\<rparr>"
  obtain p4 y where send: "Pipeline_send c ?u ?p3 = (p4, y)" by (cases "Pipeline_send c ?u ?p3")
  have [simp]: "y = None" using assms s b f send by (cases y) (auto simp: Barrier_def Let_def on_stream_def)
  have "await_control c late ctl p4 = (p', Inr receipt)"
    using assms s b f send by (simp add: Barrier_def Let_def on_stream_def)
  from await_control_success [OF this] obtain q where q: "same_view p4 q" "stream_ready q = None"
    "p' = on_stream (complete_control ctl) q" by blast
  have "same_view ?p1 p2" using f flush_each_view by (simp add: stream_flush_def)
  moreover have "same_view ?p3 q"
    using Pipeline_send_follows [OF send] follows_view same_view_trans q(1) by blast
  ultimately show ?thesis
    using q s by (intro conjI exI [of _ q]) (auto simp: same_view_def producer_view_eq on_stream_def)
qed

text \<open>The tracker and the pipeline record a control's transaction alike.\<close>

lemma tracks_control:
  "tk_transactions b = in_transactions i \<Longrightarrow>
    tk_transactions (track_control ctl b) = in_transactions (complete_control ctl i)"
  by (simp add: track_control_def complete_control_def acceptControl_def Let_def split: control_kind.splits)

lemma seal_after_control:
  assumes "pp_isStream q" "stream_ready q = None" "\<not> in_sealed (pp_stream q)" "in_epoch (pp_stream q) = Some ref"
    "in_transactions (complete_control ctl (pp_stream q)) = []" "ct_Kind ctl = TxnEnd \<or> ct_Kind ctl = ProgressBoundary"
  shows "\<exists>p' completion. SealEpoch (on_stream (complete_control ctl) q) = (p', Inr completion) \<and>
    cm_binding completion = Binding ref \<and> map_of (cm_positions completion) (ct_Domain ctl) = Some (ct_Position ctl)"
proof -
  let ?i = "complete_control ctl (pp_stream q)"
  have i: "in_epoch ?i = Some ref" "\<not> in_sealed ?i" "in_closed ?i = in_closed (pp_stream q)"
    using assms(3,4) by (auto simp: complete_control_def acceptControl_def Let_def split: control_kind.splits)
  have "in_completed ?i = AList.update (ct_Domain ctl) (ct_Position ctl) (in_completed (acceptControl ctl (pp_stream q)))"
    using assms(4-6) by (auto simp: complete_control_def acceptControl_def Let_def split: control_kind.splits if_splits)
  then have "map_of (in_completed ?i) (ct_Domain ctl) = Some (ct_Position ctl)" by (simp add: update_conv)
  moreover from this have "in_completed ?i \<noteq> []" by auto
  moreover have "stream_ready (on_stream (complete_control ctl) q) = None"
    using assms(2) i(3) by (auto simp: stream_ready_def on_stream_def failure_def split: option.splits)
  ultimately show ?thesis
    using i assms(1,5) by (simp add: SealEpoch_def Let_def NewWithMessageSchemas_def Completion_New_def on_stream_def)
qed

text \<open>
  C3: a completed boundary is one at which the epoch can be sealed. Let a tracker and a stream
  pipeline with a bound epoch agree on the open transactions, as they do at the start. After a control
  that the tracker forwards without an error they still agree; and when the tracker reports that the
  requested boundary is complete, it is closed, and \<^verbatim>\<open>SealEpoch\<close> then succeeds and covers the control's
  domain with the control's position.
\<close>

theorem boundary_seals:
  assumes "tk_transactions b = in_transactions (pp_stream p)" "in_epoch (pp_stream p) = Some ref"
    "Tracker_Control now early late (stream_Control c early' late') ctl b p = (b', p', Inr finished)"
  shows "tk_transactions b' = in_transactions (pp_stream p') \<and> in_epoch (pp_stream p') = Some ref \<and>
    (finished \<longrightarrow> tk_closed b' \<and>
      (\<exists>p'' completion. SealEpoch p' = (p'', Inr completion) \<and> cm_binding completion = Binding ref \<and>
        map_of (cm_positions completion) (ct_Domain ctl) = Some (ct_Position ctl)))"
proof -
  obtain p1 err where sink: "stream_Control c early' late' ctl p = (p1, err)" by (cases "stream_Control c early' late' ctl p")
  have r: "tracker_ready b = None" "orelse_err early (tracker_validateControl b ctl) = None" "orelse_err err late = None"
    using assms(3) sink by (auto simp: Tracker_Control_def split: option.splits)
  then have "err = None" by (simp add: orelse_err_None)
  then obtain receipt where "Barrier c early' late' ctl p = (p1, Inr receipt)"
    using sink by (auto simp: stream_Control_def split: prod.splits sum.splits)
  from Barrier_success [OF this] obtain q where q: "pp_isStream q" "stream_ready q = None" "p1 = on_stream (complete_control ctl) q"
    "\<not> in_sealed (pp_stream q)" "in_epoch (pp_stream q) = Some ref" "in_transactions (pp_stream q) = in_transactions (pp_stream p)"
    using assms(2) by auto
  let ?b = "track_control ctl b" and ?i = "complete_control ctl (pp_stream q)"
  have t: "tk_transactions ?b = in_transactions ?i" by (rule tracks_control) (simp add: assms(1) q(6))
  have i: "in_epoch ?i = Some ref"
    using q(5) by (auto simp: complete_control_def acceptControl_def Let_def split: control_kind.splits)
  have p': "p' = p1" using assms(3) sink r by (auto simp: Tracker_Control_def Let_def split: prod.splits if_splits)
  have "tk_transactions b' = tk_transactions ?b"
    using assms(3) sink r
    by (auto simp: Tracker_Control_def Let_def Requested_def Tracker_Close_def stop_timer_def split: prod.splits if_splits)
  then have agree: "tk_transactions b' = in_transactions (pp_stream p')" "in_epoch (pp_stream p') = Some ref"
    using t i by (simp_all add: p' q(3) on_stream_def)
  moreover have "tk_closed b' \<and> (\<exists>p'' completion. SealEpoch p' = (p'', Inr completion) \<and> cm_binding completion = Binding ref \<and>
        map_of (cm_positions completion) (ct_Domain ctl) = Some (ct_Position ctl))" if finished
  proof -
    have c: "ct_Kind ctl = TxnEnd \<or> ct_Kind ctl = ProgressBoundary" "tk_transactions ?b = []" "tk_closed b'"
      using that assms(3) sink r
      by (auto simp: Tracker_Control_def Let_def Tracker_Close_def stop_timer_def split: prod.splits if_splits)
    then show ?thesis
      using seal_after_control [of q ref ctl] q(1-5) t by (auto simp: p')
  qed
  ultimately show ?thesis by blast
qed

definition boundary_start :: "nat pipeline" where
  "boundary_start = fst (fold (producer_step demo_sink)
     ([CallBuilder ''orders'' 0 demo_schema, CallBind demo_ref] @ concat (map write_id [7, 8, 9])) (demo_start, \<lambda>_. ([], [])))"

definition due_tracker :: boundary_tracker where
  "due_tracker = fst (Tracker_Request demo_tracker)"

theorem boundary_seals_witness:
  "\<exists>b' p' p'' completion.
    Tracker_Control 14 None None (stream_Control demo_sink None None) demo_control due_tracker boundary_start = (b', p', Inr True) \<and>
    SealEpoch p' = (p'', Inr completion) \<and> cm_binding completion = Binding demo_ref \<and>
    map_of (cm_positions completion) (DomainKey ''pg'' ''a'') = Some (Position ''opaque'' 1 (Some ''x''))"
proof -
  let ?run = "Tracker_Control 14 None None (stream_Control demo_sink None None) demo_control due_tracker boundary_start"
  have "tk_transactions due_tracker = in_transactions (pp_stream boundary_start)" "in_epoch (pp_stream boundary_start) = Some demo_ref"
    "snd (snd ?run) = Inr True"
    by code_simp+
  moreover from this(3) obtain b' p' where "?run = (b', p', Inr True)"
    by (cases ?run) auto
  ultimately show ?thesis
    using boundary_seals [of due_tracker boundary_start demo_ref 14 None None demo_sink None None demo_control b' p' True]
    by (auto simp: demo_control_def)
qed

section \<open>Event identities\<close>

definition identity_json :: "event_identity \<Rightarrow> json" where
  "identity_json e = JObj [(''Version'', JNum 1), (''Identity'', JObj [
     (''Domain'', JObj [(''Incarnation'', JStr (Incarnation (ei_Domain e))), (''Domain'', JStr (Domain (ei_Domain e)))]),
     (''Position'', JObj [(''Codec'', JStr (Codec (ei_Position e))), (''Version'', JNum (PVersion (ei_Position e))),
        (''Value'', bytes_json (PValue (ei_Position e)))]),
     (''Ordinal'', JNum (int (ei_Ordinal e)))])]"

definition CanonicalIdentity :: "event_identity \<Rightarrow> codec_resolver \<Rightarrow> string res" where
  "CanonicalIdentity e r =
     check_err (DomainKey_Validate (ei_Domain e))
       (bind_res (CanonicalPosition r (ei_Position e)) (\<lambda>p. Inr (JsonText.json_text (identity_json (e\<lparr>ei_Position := p\<rparr>)))))"

text \<open>SHA-256 in hexadecimal is a parameter.\<close>

definition EventID :: "(string \<Rightarrow> string) \<Rightarrow> event_identity \<Rightarrow> codec_resolver \<Rightarrow> string res" where
  "EventID sha256_hex e r = bind_res (CanonicalIdentity e r) (\<lambda>data. Inr (sha256_hex data))"

lemma identity_json_inject: "identity_json a = identity_json b \<longleftrightarrow> (a :: event_identity) = b"
  by (cases a; cases b) (auto simp: identity_json_def intro!: domain_key.expand position.expand)

lemma identity_json_valid:
  assumes "DomainKey_Validate (ei_Domain e) = None" "Position_Validate (ei_Position e) = None"
  shows "json_valid (identity_json e)"
proof -
  have "json_valid (position_json (ei_Domain e, ei_Position e))"
    using assms by (intro position_json_valid) (simp add: entry_err_def)
  then show ?thesis by (simp add: identity_json_def position_json_def literal_utf8 byte_def)
qed

text \<open>
  C21: an event has one canonical identity. Two event identities that can be encoded have the same
  canonical bytes exactly when they name the same domain and ordinal and their positions have the same
  canonical form under their codec, so equal counters spelled differently are one event and nothing
  else is; and as long as the digest does not collide on the two byte strings, the same holds of their
  event ids.
\<close>

theorem event_identity_exact:
  assumes "CanonicalIdentity a r = Inr x" "CanonicalIdentity b r = Inr y"
  shows "let same = ei_Domain a = ei_Domain b \<and> ei_Ordinal a = ei_Ordinal b \<and>
      CanonicalPosition r (ei_Position a) = CanonicalPosition r (ei_Position b)
    in (x = y \<longleftrightarrow> same) \<and> (inj_on sha {x, y} \<longrightarrow> (EventID sha a r = EventID sha b r \<longleftrightarrow> same))"
proof -
  obtain p q where p: "CanonicalPosition r (ei_Position a) = Inr p" "x = JsonText.json_text (identity_json (a\<lparr>ei_Position := p\<rparr>))"
    "DomainKey_Validate (ei_Domain a) = None"
    and q: "CanonicalPosition r (ei_Position b) = Inr q" "y = JsonText.json_text (identity_json (b\<lparr>ei_Position := q\<rparr>))"
    "DomainKey_Validate (ei_Domain b) = None"
    using assms by (auto simp: CanonicalIdentity_def err_simps)
  have "Position_Validate p = None" "Position_Validate q = None"
    using p(1) q(1) Position_Validate_cong [of p "ei_Position a"] Position_Validate_cong [of q "ei_Position b"]
    by (auto simp: CanonicalPosition_Inr)
  then have "x = y \<longleftrightarrow> a\<lparr>ei_Position := p\<rparr> = b\<lparr>ei_Position := q\<rparr>"
    using p(2,3) q(2,3) by (simp add: JsonText.json_text_inject identity_json_valid identity_json_inject)
  then have "x = y \<longleftrightarrow> ei_Domain a = ei_Domain b \<and> ei_Ordinal a = ei_Ordinal b \<and> p = q"
    by (cases a; cases b) auto
  then show ?thesis
    using assms p(1) q(1) by (auto simp: Let_def EventID_def inj_on_def)
qed

definition counter_event :: "string \<Rightarrow> event_identity" where
  "counter_event s = \<lparr>ei_Domain = DomainKey ''pg'' ''a'', ei_Position = Position ''seq'' 1 (Some s), ei_Ordinal = 0\<rparr>"

definition counter_codecs :: codec_resolver where
  "counter_codecs = Some (Registry_Lookup [((''seq'', 1), Uint64Codec)])"

theorem event_identity_exact_witness:
  "\<exists>x. CanonicalIdentity (counter_event ''007'') counter_codecs = Inr x \<and> CanonicalIdentity (counter_event ''7'') counter_codecs = Inr x"
proof -
  have f: "format_uint 7 = ''7''" by code_simp
  have c: "CanonicalPosition counter_codecs (Position ''seq'' 1 (Some s)) = Inr (Position ''seq'' 1 (Some ''7''))"
    if "s = ''007'' \<or> s = ''7''" for s
    using that by (auto simp: CanonicalPosition_Inr counter_codecs_def Registry_Lookup_def Uint64Codec_def Uint64_Canonicalize_def
      Uint64_Validate_None Position_Validate_def value_bytes_def parse_uint_def counter_def is_digit_def in_range_def byte_def
      dec_val_def digit_val_def err_simps f)
  have "DomainKey_Validate (DomainKey ''pg'' ''a'') = None" by code_simp
  then obtain x y where e: "CanonicalIdentity (counter_event ''007'') counter_codecs = Inr x"
    "CanonicalIdentity (counter_event ''7'') counter_codecs = Inr y"
    using c by (auto simp: CanonicalIdentity_def counter_event_def)
  have "x = y"
    using event_identity_exact [OF e, of id] c by (simp add: Let_def counter_event_def)
  then show ?thesis using e by blast
qed

end
