(* ===== verification/TransformKernel.thy ===== *)
theory TransformKernel
  imports ArrowBatch Cron
begin

text \<open>
  The kernels a transform plan runs over whole columns (\<^verbatim>\<open>transform/kernel\<close>): strings, digests, regular
  expressions, comparisons, nulls, selection, dates, and the wrappers of Arrow's compute registry. Each
  kernel is shown to return a column of its type with one value per row, or an error, and never to
  panic on arguments of the types the catalog admits.
\<close>

section \<open>Arrays, datums and the library\<close>

record arr =
  ar_type :: arrow_type
  ar_cells :: "cell list"

datatype datum = DArray arr | DScalar arrow_type cell

text \<open>A compiled regular expression.\<close>

record regex =
  rx_Match :: "string \<Rightarrow> bool"
  rx_Submatch :: "string \<Rightarrow> int list"
  rx_Replace :: "string \<Rightarrow> string \<Rightarrow> string"
  rx_NumSubexp :: int

text \<open>
  What the kernels call outside the repository: Arrow's compute registry with the digits of rounding as
  its only option, concatenation, take, broadcast, columns of nulls and the constructor of record
  batches, which panics on columns that do not match the schema; and of the standard library the Unicode case
  tables, regular expressions, hash functions, time zones and floating-point conversions.
\<close>

record lib =
  lb_CallFunction :: "string \<Rightarrow> int option \<Rightarrow> datum list \<Rightarrow> datum res"
  lb_Concatenate :: "arr \<Rightarrow> arr \<Rightarrow> arr res"
  lb_TakeArray :: "arr \<Rightarrow> int list \<Rightarrow> arr res"
  lb_MakeArrayFromScalar :: "arrow_type \<Rightarrow> cell \<Rightarrow> nat \<Rightarrow> arr res"
  lb_MakeArrayOfNull :: "arrow_type \<Rightarrow> nat \<Rightarrow> arr"
  lb_NewRecordBatch :: "arrow_schema \<Rightarrow> arr list \<Rightarrow> nat \<Rightarrow> record_batch res"
  lb_ToLower :: "string \<Rightarrow> string"
  lb_ToUpper :: "string \<Rightarrow> string"
  lb_Regexp :: "string \<Rightarrow> regex option"
  lb_Sum :: "string \<Rightarrow> string \<Rightarrow> string"
  lb_Zone :: "string \<Rightarrow> (int \<Rightarrow> int) option"
  lb_FormatFloat :: "nat \<Rightarrow> string"
  lb_Float64OfInt :: "int \<Rightarrow> nat"
  lb_Float32OfInt :: "int \<Rightarrow> nat"
  lb_Float32OfFloat64 :: "nat \<Rightarrow> nat"

type_synonym kernel = "lib \<Rightarrow> datum list \<Rightarrow> datum res"

definition arg :: "datum list \<Rightarrow> nat \<Rightarrow> datum res" where
  "arg args i = (if i < length args then Inr (args ! i) else Inl (ErrPanic ''index out of range''))"

definition str :: "cell \<Rightarrow> string" where
  "str c = (case c of CString s \<Rightarrow> s | _ \<Rightarrow> [])"

definition stringArray :: "datum \<Rightarrow> arr res" where
  "stringArray d = (case d of
     DArray a \<Rightarrow> if ar_type a = ArrowString then Inr a else Inl (ErrMsg ''expected utf8 array'')
   | DScalar _ _ \<Rightarrow> Inl (ErrMsg ''expected utf8 array''))"

text \<open>A null scalar of strings has no buffer to read, and one of integers reads as zero.\<close>

definition stringScalar :: "datum \<Rightarrow> string res" where
  "stringScalar d = (case d of
     DScalar ArrowString (CString s) \<Rightarrow> Inr s
   | DScalar ArrowString CNull \<Rightarrow> Inl (ErrPanic ''invalid memory address or nil pointer dereference'')
   | _ \<Rightarrow> Inl (ErrMsg ''expected utf8 literal''))"

definition int64Scalar :: "datum \<Rightarrow> int res" where
  "int64Scalar d = (case d of
     DScalar ArrowInt64 (CInt64 n) \<Rightarrow> Inr n
   | DScalar ArrowInt64 CNull \<Rightarrow> Inr 0
   | _ \<Rightarrow> Inl (ErrMsg ''expected int64 literal''))"

text \<open>A row of a builder: null stays null.\<close>

definition map_valid :: "(cell \<Rightarrow> cell) \<Rightarrow> cell list \<Rightarrow> cell list" where
  "map_valid f cs = map (\<lambda>c. if c = CNull then CNull else f c) cs"

section \<open>Strings\<close>

definition mapBytes :: "datum \<Rightarrow> (string \<Rightarrow> string) \<Rightarrow> datum res" where
  "mapBytes d f =
     bind_res (stringArray d) (\<lambda>src.
       Inr (DArray \<lparr>ar_type = ArrowString, ar_cells = map_valid (\<lambda>c. CString (f (str c))) (ar_cells src)\<rparr>))"

definition ascii_upper :: "char \<Rightarrow> char" where
  "ascii_upper c = (if in_range 97 122 c then char_of (byte c - 32) else c)"

definition lowerBytes :: "lib \<Rightarrow> string \<Rightarrow> string" where
  "lowerBytes L s = (if list_ex (\<lambda>c. byte c \<ge> 128) s then lb_ToLower L s else map ascii_lower s)"

definition upperBytes :: "lib \<Rightarrow> string \<Rightarrow> string" where
  "upperBytes L s = (if list_ex (\<lambda>c. byte c \<ge> 128) s then lb_ToUpper L s else map ascii_upper s)"

definition Lower :: kernel where
  "Lower L args = bind_res (arg args 0) (\<lambda>d. mapBytes d (lowerBytes L))"

definition Upper :: kernel where
  "Upper L args = bind_res (arg args 0) (\<lambda>d. mapBytes d (upperBytes L))"

text \<open>
  \<^verbatim>\<open>bytes.TrimSpace\<close> removes white space runes at both ends; a trailing one takes the last one, two or
  three bytes.
\<close>

function trim_left :: "string \<Rightarrow> string" where
  "trim_left s = (if space_len s = 0 then s else trim_left (drop (space_len s) s))"
  by pat_completeness auto
termination
proof (relation "measure length", simp)
  fix s assume "space_len s \<noteq> 0"
  moreover from this have "s \<noteq> []" by (auto simp: space_len_def)
  ultimately show "(drop (space_len s) s, s) \<in> measure length" by (cases s) auto
qed

definition last_space :: "string \<Rightarrow> nat" where
  "last_space s =
     (case filter (\<lambda>k. k \<le> length s \<and> space_len (drop (length s - k) s) = k) [1, 2, 3] of [] \<Rightarrow> 0 | k # _ \<Rightarrow> k)"

function trim_right :: "string \<Rightarrow> string" where
  "trim_right s = (if last_space s = 0 then s else trim_right (take (length s - last_space s) s))"
  by pat_completeness auto
termination
proof (relation "measure length", simp)
  fix s assume "last_space s \<noteq> 0"
  then have "s \<noteq> []" by (auto simp: last_space_def)
  with \<open>last_space s \<noteq> 0\<close> show "(take (length s - last_space s) s, s) \<in> measure length" by (cases s) auto
qed

declare trim_left.simps [simp del] trim_right.simps [simp del]

definition Trim :: kernel where
  "Trim L args = bind_res (arg args 0) (\<lambda>d. mapBytes d (\<lambda>s. trim_right (trim_left s)))"

text \<open>The bytes of the first character: an invalid byte is a character of its own.\<close>

definition rune_size :: "string \<Rightarrow> nat" where
  "rune_size s = max 1 (rune_len s)"

function rune_count :: "string \<Rightarrow> nat" where
  "rune_count s = (if s = [] then 0 else Suc (rune_count (drop (rune_size s) s)))"
  by pat_completeness auto
termination
  by (relation "measure length") (simp_all add: rune_size_def)

declare rune_count.simps [simp del]

definition Length :: kernel where
  "Length L args =
     bind_res (arg args 0) (\<lambda>d.
     bind_res (stringArray d) (\<lambda>src.
       Inr (DArray \<lparr>ar_type = ArrowInt64, ar_cells = map_valid (\<lambda>c. CInt64 (int (rune_count (str c)))) (ar_cells src)\<rparr>)))"

text \<open>The leftmost occurrence is replaced and the search goes on behind it.\<close>

function replace_all :: "string \<Rightarrow> string \<Rightarrow> string \<Rightarrow> string" where
  "replace_all old subst s =
     (if old = [] then s
      else if take (length old) s = old then subst @ replace_all old subst (drop (length old) s)
      else case s of [] \<Rightarrow> [] | c # r \<Rightarrow> c # replace_all old subst r)"
  by pat_completeness auto
termination
proof (relation "measure (\<lambda>(old, subst, s). length s)", simp)
  fix old subst s :: string assume "old \<noteq> []" "take (length old) s = old"
  moreover from this have "s \<noteq> []" by auto
  ultimately show "((old, subst, drop (length old) s), (old, subst, s)) \<in> measure (\<lambda>(old, subst, s). length s)"
    by (cases s; cases old) auto
qed simp

declare replace_all.simps [simp del]

definition Replace :: kernel where
  "Replace L args =
     bind_res (arg args 1) (\<lambda>d. bind_res (stringScalar d) (\<lambda>old.
     bind_res (arg args 2) (\<lambda>d. bind_res (stringScalar d) (\<lambda>subst.
     bind_res (arg args 0) (\<lambda>d.
       if old = [] then mapBytes d (\<lambda>s. s) else mapBytes d (replace_all old subst))))))"

function runeOffset :: "string \<Rightarrow> int \<Rightarrow> nat" where
  "runeOffset s n = (if n > 0 \<and> s \<noteq> [] then rune_size s + runeOffset (drop (rune_size s) s) (n - 1) else 0)"
  by pat_completeness auto
termination
  by (relation "measure (\<lambda>(s, n). length s)") (simp_all add: rune_size_def)

declare runeOffset.simps [simp del]

definition Substring :: kernel where
  "Substring L args =
     bind_res (arg args 1) (\<lambda>d. bind_res (int64Scalar d) (\<lambda>start.
     bind_res (if length args > 2 then bind_res (arg args 2) int64Scalar else Inr (-1)) (\<lambda>len.
     bind_res (arg args 0) (\<lambda>d.
       mapBytes d (\<lambda>s.
         let rest = drop (runeOffset s (wrap64 (start - 1))) s in
         if len < 0 then rest else take (runeOffset rest len) rest)))))"

text \<open>\<^verbatim>\<open>n\<close> is the length of the last column seen; a row with a null part is null.\<close>

fun concat_parts :: "datum list \<Rightarrow> (cell list + string) list res" where
  "concat_parts [] = Inr []"
| "concat_parts (DArray a # ds) =
     bind_res (stringArray (DArray a)) (\<lambda>src. bind_res (concat_parts ds) (\<lambda>ps. Inr (Inl (ar_cells src) # ps)))"
| "concat_parts (DScalar t c # ds) =
     bind_res (stringScalar (DScalar t c)) (\<lambda>s. bind_res (concat_parts ds) (\<lambda>ps. Inr (Inr s # ps)))"

definition column_length :: "(cell list + 'a) list \<Rightarrow> nat option" where
  "column_length ps = (case filter isl ps of [] \<Rightarrow> None | _ \<Rightarrow> Some (length (projl (last (filter isl ps)))))"

fun concat_row :: "nat \<Rightarrow> (cell list + string) list \<Rightarrow> string option" where
  "concat_row i [] = Some []"
| "concat_row i (Inl cells # ps) =
     (if cells ! i = CNull then None else map_option (\<lambda>rest. str (cells ! i) @ rest) (concat_row i ps))"
| "concat_row i (Inr s # ps) = map_option (\<lambda>rest. s @ rest) (concat_row i ps)"

definition text_cell :: "string option \<Rightarrow> cell" where
  "text_cell v = (case v of None \<Rightarrow> CNull | Some s \<Rightarrow> CString s)"

definition Concat :: kernel where
  "Concat L args =
     bind_res (concat_parts args) (\<lambda>ps.
       case column_length ps of
         None \<Rightarrow> Inl (ErrMsg ''concat: expected at least one column'')
       | Some n \<Rightarrow>
           if list_ex (\<lambda>p. case p of Inl cells \<Rightarrow> length cells < n | Inr _ \<Rightarrow> False) ps then Inl (ErrPanic ''index out of range'')
           else Inr (DArray \<lparr>ar_type = ArrowString, ar_cells = map (\<lambda>i. text_cell (concat_row i ps)) [0..<n]\<rparr>))"

section \<open>Regular expressions\<close>

text \<open>The cache of compiled patterns returns what compiling the pattern returned.\<close>

definition compilePattern :: "lib \<Rightarrow> datum \<Rightarrow> regex res" where
  "compilePattern L d =
     bind_res (stringScalar d) (\<lambda>src.
       case lb_Regexp L src of None \<Rightarrow> Inl (ErrMsg ''regex'') | Some re \<Rightarrow> Inr re)"

definition RegexMatch :: kernel where
  "RegexMatch L args =
     bind_res (arg args 1) (\<lambda>d. bind_res (compilePattern L d) (\<lambda>re.
     bind_res (arg args 0) (\<lambda>d. bind_res (stringArray d) (\<lambda>src.
       Inr (DArray \<lparr>ar_type = ArrowBoolean, ar_cells = map_valid (\<lambda>c. CBool (rx_Match re (str c))) (ar_cells src)\<rparr>)))))"

text \<open>The indices of a match are offsets into the value, a pair for each group.\<close>

definition slice_at :: "string \<Rightarrow> int \<Rightarrow> int \<Rightarrow> string" where
  "slice_at s lo hi = take (nat (hi - lo)) (drop (nat lo) s)"

definition extract_cell :: "regex \<Rightarrow> nat \<Rightarrow> cell \<Rightarrow> cell" where
  "extract_cell re g c =
     (let v = str c; loc = rx_Submatch re v in
      if length loc \<le> 2 * g + 1 \<or> loc ! (2 * g) < 0 then CNull else CString (slice_at v (loc ! (2 * g)) (loc ! (2 * g + 1))))"

definition RegexExtract :: kernel where
  "RegexExtract L args =
     bind_res (arg args 1) (\<lambda>d. bind_res (compilePattern L d) (\<lambda>re.
     bind_res (if length args > 2 then bind_res (arg args 2) int64Scalar else Inr 0) (\<lambda>g.
       if g < 0 \<or> g > rx_NumSubexp re then Inl (ErrMsg ''regex_extract: pattern has no such group'')
       else bind_res (arg args 0) (\<lambda>d. bind_res (stringArray d) (\<lambda>src.
         Inr (DArray \<lparr>ar_type = ArrowString, ar_cells = map_valid (extract_cell re (nat g)) (ar_cells src)\<rparr>))))))"

definition RegexReplace :: kernel where
  "RegexReplace L args =
     bind_res (arg args 1) (\<lambda>d. bind_res (compilePattern L d) (\<lambda>re.
     bind_res (arg args 2) (\<lambda>d. bind_res (stringScalar d) (\<lambda>subst.
     bind_res (arg args 0) (\<lambda>d. mapBytes d (\<lambda>s. rx_Replace re s subst))))))"

section \<open>Digests\<close>

definition textValue :: "arr \<Rightarrow> (cell \<Rightarrow> string) res" where
  "textValue a =
     (if ar_type a = ArrowString then Inr str
      else if ar_type a \<in> {ArrowInt16, ArrowInt32, ArrowInt64}
      then Inr (\<lambda>c. case c of CInt16 n \<Rightarrow> itoa n | CInt32 n \<Rightarrow> itoa n | CInt64 n \<Rightarrow> itoa n | _ \<Rightarrow> [])
      else Inl (ErrMsg ''expected a utf8 or integer array''))"

fun digest_columns :: "datum list \<Rightarrow> (cell list \<times> (cell \<Rightarrow> string)) list res" where
  "digest_columns [] = Inr []"
| "digest_columns (DScalar t c # ds) = Inl (ErrMsg ''expected a column'')"
| "digest_columns (DArray a # ds) =
     bind_res (textValue a) (\<lambda>text. bind_res (digest_columns ds) (\<lambda>cols. Inr ((ar_cells a, text) # cols)))"

text \<open>The texts of a row joined with a dash, a null column giving no text.\<close>

definition joined_row :: "nat \<Rightarrow> (cell list \<times> (cell \<Rightarrow> string)) list \<Rightarrow> string" where
  "joined_row i cols = join_on (CHR ''-'') (map (\<lambda>(cells, text). if cells ! i = CNull then [] else text (cells ! i)) cols)"

definition hex_nibble :: "nat \<Rightarrow> char" where
  "hex_nibble d = (if d < 10 then char_of (48 + d) else char_of (87 + d))"

definition hex_encode :: "string \<Rightarrow> string" where
  "hex_encode s = concat (map (\<lambda>c. [hex_nibble (byte c div 16), hex_nibble (byte c mod 16)]) s)"

definition digest :: "string \<Rightarrow> kernel" where
  "digest alg L args =
     bind_res (digest_columns args) (\<lambda>cols.
       if cols = [] then Inl (ErrMsg ''expected at least one column'')
       else if list_ex (\<lambda>(cells, _). length cells < length (fst (last cols))) cols then Inl (ErrPanic ''index out of range'')
       else Inr (DArray \<lparr>ar_type = ArrowString, ar_cells =
         map (\<lambda>i. if list_all (\<lambda>(cells, _). cells ! i = CNull) cols then CNull
                  else CString (hex_encode (lb_Sum L alg (joined_row i cols)))) [0..<length (fst (last cols))]\<rparr>))"

section \<open>Comparisons\<close>

datatype comparison_op = Eq | Neq | Gt | Gte | Lt | Lte

definition arrowFunction :: "comparison_op \<Rightarrow> string" where
  "arrowFunction op = (case op of Eq \<Rightarrow> ''equal'' | Neq \<Rightarrow> ''not_equal'' | Gt \<Rightarrow> ''greater'' | Gte \<Rightarrow> ''greater_equal''
     | Lt \<Rightarrow> ''less'' | Lte \<Rightarrow> ''less_equal'')"

definition Compare :: "comparison_op \<Rightarrow> kernel" where
  "Compare op L args = lb_CallFunction L (arrowFunction op) None args"

text \<open>
  A decimal read as text: below and above every number are the specials; a number is its mantissa
  times a power of ten.
\<close>

record decimal_text =
  dt_class :: int
  dt_mantissa :: int
  dt_exponent :: int

definition split_digits :: "string \<Rightarrow> string \<times> string" where
  "split_digits s = (takeWhile is_digit s, dropWhile is_digit s)"

definition split_sign :: "string \<Rightarrow> bool \<times> string" where
  "split_sign s = (case s of c # r \<Rightarrow> if c = CHR ''-'' then (True, r) else if c = CHR ''+'' then (False, r) else (False, s) | [] \<Rightarrow> (False, s))"

text \<open>The parts of a decimal: sign, digits before and after the point, and what follows them.\<close>

definition decimal_parts :: "string \<Rightarrow> bool \<times> string \<times> string \<times> string" where
  "decimal_parts s =
     (let (neg, s) = split_sign s; (whole, s) = split_digits s;
          (frac, s) = (case s of c # r \<Rightarrow> if c = CHR ''.'' then split_digits r else ([], s) | [] \<Rightarrow> ([], s))
      in (neg, whole, frac, s))"

definition exponent_digits :: "string \<Rightarrow> bool \<times> string" where
  "exponent_digits e = (case e of [] \<Rightarrow> (False, []) | _ # r \<Rightarrow> split_sign r)"

definition decimalSyntax :: "string \<Rightarrow> bool" where
  "decimalSyntax s =
     (let (_, whole, frac, e) = decimal_parts s in
      whole @ frac \<noteq> [] \<and>
      (e = [] \<or> (hd e \<in> {CHR ''e'', CHR ''E''} \<and> snd (exponent_digits e) \<noteq> [] \<and> list_all is_digit (snd (exponent_digits e)))))"

text \<open>
  \<^verbatim>\<open>big.Rat.SetString\<close> of a string of that syntax: it refuses an exponent outside 64 bits, and for a
  mantissa other than zero one whose power of ten is beyond a million.
\<close>

definition rat_SetString :: "string \<Rightarrow> (int \<times> int) option" where
  "rat_SetString s =
     (let (neg, whole, frac, e) = decimal_parts s;
          m = int (dec_val (whole @ frac));
          x = (let (eneg, ds) = exponent_digits e in if eneg then - int (dec_val ds) else int (dec_val ds));
          p = x - int (length frac)
      in if \<not> int64 x then None
         else if m = 0 then Some (0, 0)
         else if abs p > 1000000 then None
         else Some (if neg then - m else m, p))"

definition decimalText_set :: "string \<Rightarrow> decimal_text res" where
  "decimalText_set s =
     (if s = ''-Infinity'' then Inr \<lparr>dt_class = -1, dt_mantissa = 0, dt_exponent = 0\<rparr>
      else if s = ''Infinity'' then Inr \<lparr>dt_class = 1, dt_mantissa = 0, dt_exponent = 0\<rparr>
      else if s = ''NaN'' then Inr \<lparr>dt_class = 2, dt_mantissa = 0, dt_exponent = 0\<rparr>
      else if \<not> decimalSyntax s then Inl (ErrMsg ''not a decimal'')
      else case rat_SetString s of
        None \<Rightarrow> Inl (ErrMsg ''not a decimal'')
      | Some (m, p) \<Rightarrow> Inr \<lparr>dt_class = 0, dt_mantissa = m, dt_exponent = p\<rparr>)"

definition int_cmp :: "int \<Rightarrow> int \<Rightarrow> int" where
  "int_cmp x y = (if x < y then -1 else if x = y then 0 else 1)"

text \<open>Two numbers are compared over the smaller of their powers of ten.\<close>

definition decimalText_cmp :: "decimal_text \<Rightarrow> decimal_text \<Rightarrow> int" where
  "decimalText_cmp d e =
     (if dt_class d \<noteq> dt_class e \<or> dt_class d \<noteq> 0 then int_cmp (dt_class d) (dt_class e)
      else let p = min (dt_exponent d) (dt_exponent e) in
        int_cmp (dt_mantissa d * 10 ^ nat (dt_exponent d - p)) (dt_mantissa e * 10 ^ nat (dt_exponent e - p)))"

definition op_holds :: "comparison_op \<Rightarrow> int \<Rightarrow> bool" where
  "op_holds op c = (case op of Eq \<Rightarrow> c = 0 | Neq \<Rightarrow> c \<noteq> 0 | Gt \<Rightarrow> c > 0 | Gte \<Rightarrow> c \<ge> 0 | Lt \<Rightarrow> c < 0 | Lte \<Rightarrow> c \<le> 0)"

text \<open>A column of text: a scalar is an error.\<close>

definition textArray :: "datum \<Rightarrow> arr res" where
  "textArray d = (case d of
     DArray a \<Rightarrow> if ar_type a = ArrowString then Inr a else Inl (ErrMsg ''expected a utf8 array'')
   | DScalar _ _ \<Rightarrow> Inl (ErrMsg ''expected a column''))"

fun compare_rows :: "comparison_op \<Rightarrow> cell list \<Rightarrow> cell list \<Rightarrow> cell list res" where
  "compare_rows op [] _ = Inr []"
| "compare_rows op (l # ls) [] = Inl (ErrPanic ''index out of range'')"
| "compare_rows op (l # ls) (r # rs) =
     bind_res
       (if l = CNull \<or> r = CNull then Inr CNull
        else bind_res (decimalText_set (str l)) (\<lambda>x. bind_res (decimalText_set (str r)) (\<lambda>y.
          Inr (CBool (op_holds op (decimalText_cmp x y))))))
       (\<lambda>c. bind_res (compare_rows op ls rs) (\<lambda>cs. Inr (c # cs)))"

definition CompareDecimalText :: "comparison_op \<Rightarrow> kernel" where
  "CompareDecimalText op L args =
     (if length args \<noteq> 2 then Inl (ErrMsg ''expected two columns'')
      else bind_res (textArray (args ! 0)) (\<lambda>left. bind_res (textArray (args ! 1)) (\<lambda>right.
        bind_res (compare_rows op (ar_cells left) (ar_cells right)) (\<lambda>cells.
          Inr (DArray \<lparr>ar_type = ArrowBoolean, ar_cells = cells\<rparr>)))))"

section \<open>Nulls and selection\<close>

definition IsNull :: kernel where
  "IsNull L args =
     bind_res (arg args 0) (\<lambda>d. case d of
       DScalar _ _ \<Rightarrow> Inl (ErrMsg ''is_null: expected a column'')
     | DArray a \<Rightarrow> Inr (DArray \<lparr>ar_type = ArrowBoolean, ar_cells = map (\<lambda>c. CBool (c = CNull)) (ar_cells a)\<rparr>))"

definition asArray :: "lib \<Rightarrow> datum \<Rightarrow> nat \<Rightarrow> arr res" where
  "asArray L d n = (case d of DArray a \<Rightarrow> Inr a | DScalar t c \<Rightarrow> lb_MakeArrayFromScalar L t c n)"

definition validityMask :: "arr \<Rightarrow> cell list" where
  "validityMask a = map (\<lambda>c. CBool (c \<noteq> CNull)) (ar_cells a)"

text \<open>Two columns of text are merged row by row, others through concatenation and take.\<close>

definition IfElse :: "lib \<Rightarrow> cell list \<Rightarrow> arr \<Rightarrow> arr \<Rightarrow> arr res" where
  "IfElse L sel yes els =
     (if ar_type yes \<noteq> ar_type els then Inl (ErrMsg ''if_else branches differ'')
      else let n = length sel in
        if ar_type yes = ArrowString then
          (if length (ar_cells yes) < n \<or> length (ar_cells els) < n then Inl (ErrPanic ''index out of range'')
           else Inr \<lparr>ar_type = ArrowString,
             ar_cells = map (\<lambda>i. if sel ! i = CBool True then ar_cells yes ! i else ar_cells els ! i) [0..<n]\<rparr>)
        else bind_res (lb_Concatenate L yes els) (\<lambda>joined.
          lb_TakeArray L joined (map (\<lambda>i. if sel ! i = CBool True then int i else int (n + i)) [0..<n])))"

fun coalesce_from :: "lib \<Rightarrow> nat \<Rightarrow> arr \<Rightarrow> datum list \<Rightarrow> arr res" where
  "coalesce_from L n cur [] = Inr cur"
| "coalesce_from L n cur (d # ds) =
     (if CNull \<notin> set (ar_cells cur) then Inr cur
      else bind_res (asArray L d n) (\<lambda>nxt.
        bind_res (IfElse L (validityMask cur) cur nxt) (\<lambda>merged. coalesce_from L n merged ds)))"

fun first_column :: "datum list \<Rightarrow> nat option" where
  "first_column [] = None"
| "first_column (DArray a # ds) = Some (length (ar_cells a))"
| "first_column (DScalar t c # ds) = first_column ds"

definition Coalesce :: kernel where
  "Coalesce L args =
     (case first_column args of
        None \<Rightarrow> Inl (ErrMsg ''coalesce: expected at least one column'')
      | Some n \<Rightarrow> bind_res (asArray L (hd args) n) (\<lambda>cur. bind_res (coalesce_from L n cur (tl args)) (\<lambda>a. Inr (DArray a))))"

section \<open>Arrow's functions\<close>

definition And :: kernel where "And L args = lb_CallFunction L ''and_kleene'' None args"
definition Or :: kernel where "Or L args = lb_CallFunction L ''or_kleene'' None args"
definition Not :: kernel where "Not L args = lb_CallFunction L ''not'' None args"
definition Add :: kernel where "Add L args = lb_CallFunction L ''add'' None args"
definition Sub :: kernel where "Sub L args = lb_CallFunction L ''subtract'' None args"
definition Mul :: kernel where "Mul L args = lb_CallFunction L ''multiply'' None args"
definition Div :: kernel where "Div L args = lb_CallFunction L ''divide'' None args"
definition Abs :: kernel where "Abs L args = lb_CallFunction L ''abs'' None args"
definition Floor :: kernel where "Floor L args = lb_CallFunction L ''floor'' None args"
definition Ceil :: kernel where "Ceil L args = lb_CallFunction L ''ceil'' None args"

definition Round :: kernel where
  "Round L args =
     bind_res (if length args > 1 then bind_res (arg args 1) int64Scalar else Inr 0) (\<lambda>places.
     bind_res (arg args 0) (\<lambda>d. lb_CallFunction L ''round'' (Some places) [d]))"

section \<open>Dates\<close>

text \<open>Days are counted from 1 January 1970, day 719162 of the calendar.\<close>

definition days_from_civil :: "int \<Rightarrow> int \<Rightarrow> int \<Rightarrow> int" where
  "days_from_civil y m d =
     365 * (y - 1) + (y - 1) div 4 - (y - 1) div 100 + (y - 1) div 400 +
     sum_list (take (nat (m - 1)) (month_lengths y)) + d - 1 - 719162"

text \<open>\<^verbatim>\<open>time.Parse("2006-01-02", s)\<close>: four, two and two digits, a month of the year and a day of that month.\<close>

definition parse_iso_date :: "string \<Rightarrow> int option" where
  "parse_iso_date s =
     (let ys = take 4 s; ms = take 2 (drop 5 s); ds = take 2 (drop 8 s);
          y = int (dec_val ys); m = int (dec_val ms); d = int (dec_val ds)
      in if length s = 10 \<and> s ! 4 = CHR ''-'' \<and> s ! 7 = CHR ''-'' \<and> list_all is_digit (ys @ ms @ ds) \<and>
            1 \<le> m \<and> m \<le> 12 \<and> 1 \<le> d \<and> d \<le> month_lengths y ! nat (m - 1)
         then Some (days_from_civil y m d) else None)"

fun parse_dates :: "cell list \<Rightarrow> cell list res" where
  "parse_dates [] = Inr []"
| "parse_dates (c # cs) =
     bind_res
       (if c = CNull then Inr CNull
        else case parse_iso_date (str c) of None \<Rightarrow> Inl (ErrMsg ''to_date'') | Some d \<Rightarrow> Inr (CDate d))
       (\<lambda>v. bind_res (parse_dates cs) (\<lambda>vs. Inr (v # vs)))"

definition ToDate :: kernel where
  "ToDate L args =
     bind_res (arg args 0) (\<lambda>d. bind_res (stringArray d) (\<lambda>src.
       bind_res (parse_dates (ar_cells src)) (\<lambda>cells. Inr (DArray \<lparr>ar_type = ArrowDate32, ar_cells = cells\<rparr>))))"

text \<open>Year, month and day of a day count.\<close>

definition civil :: "int \<Rightarrow> int \<times> int \<times> int" where
  "civil d = (let (y, yd) = year_yday (d + 719162) in (y, month_day (month_lengths y) 1 yd))"

definition cell_days :: "(int \<Rightarrow> int) \<Rightarrow> cell \<Rightarrow> int" where
  "cell_days off c = (case c of
     CDate d \<Rightarrow> d
   | CTimestamp us \<Rightarrow> (let sec = us div 1000000 in (sec + off sec) div 86400)
   | _ \<Rightarrow> 0)"

definition datePart :: "(int \<times> int \<times> int \<Rightarrow> int) \<Rightarrow> kernel" where
  "datePart f L args =
     bind_res (arg args 0) (\<lambda>d. case d of
       DScalar _ _ \<Rightarrow> Inl (ErrMsg ''expected array'')
     | DArray a \<Rightarrow>
         (case ar_type a of
            ArrowDate32 \<Rightarrow> Inr (DArray \<lparr>ar_type = ArrowInt64,
              ar_cells = map_valid (\<lambda>c. CInt64 (f (civil (cell_days (\<lambda>_. 0) c)))) (ar_cells a)\<rparr>)
          | ArrowTimestamp zone \<Rightarrow>
              (case lb_Zone L zone of
                 None \<Rightarrow> Inl (ErrMsg ''unknown time zone'')
               | Some off \<Rightarrow> Inr (DArray \<lparr>ar_type = ArrowInt64,
                   ar_cells = map_valid (\<lambda>c. CInt64 (f (civil (cell_days off c)))) (ar_cells a)\<rparr>))
          | _ \<Rightarrow> Inl (ErrMsg ''expected date or timestamp array'')))"

definition Year :: kernel where "Year = datePart fst"
definition Month :: kernel where "Month = datePart (\<lambda>d. fst (snd d))"
definition Day :: kernel where "Day = datePart (\<lambda>d. snd (snd d))"

section \<open>Kernels keep their types\<close>

text \<open>A column of a batch with \<^term>\<open>n\<close> rows, and a value of a type: a column of it or a literal.\<close>

definition arr_ok :: "nat \<Rightarrow> arrow_type \<Rightarrow> arr \<Rightarrow> bool" where
  "arr_ok n t a \<longleftrightarrow> ar_type a = t \<and> length (ar_cells a) = n \<and> (\<forall>c \<in> set (ar_cells a). fits t c)"

definition datum_ok :: "nat \<Rightarrow> arrow_type \<Rightarrow> datum \<Rightarrow> bool" where
  "datum_ok n t d \<longleftrightarrow> (case d of DArray a \<Rightarrow> arr_ok n t a | DScalar t' c \<Rightarrow> t' = t \<and> fits t c \<and> c \<noteq> CNull)"

text \<open>What a call may return: an error that is not a panic, or a result with the property.\<close>

definition returns :: "'a res \<Rightarrow> ('a \<Rightarrow> bool) \<Rightarrow> bool" where
  "returns r P \<longleftrightarrow> (case r of Inl e \<Rightarrow> \<forall>m. e \<noteq> ErrPanic m | Inr a \<Rightarrow> P a)"

lemma returns_simps [simp]:
  "returns (Inr a) P = P a" "returns (Inl (ErrMsg m)) P" "returns (Inl e) P = (\<forall>m. e \<noteq> ErrPanic m)"
  by (simp_all add: returns_def)

lemma returns_bind:
  "returns r P \<Longrightarrow> (\<And>a. P a \<Longrightarrow> returns (f a) Q) \<Longrightarrow> returns (bind_res r f) Q"
  by (cases r) (auto simp: returns_def)

lemma returns_mono: "returns r P \<Longrightarrow> (\<And>a. P a \<Longrightarrow> Q a) \<Longrightarrow> returns r Q"
  by (cases r) (auto simp: returns_def)

lemma returns_self: "returns r P \<Longrightarrow> returns r (\<lambda>a. P a \<and> r = Inr a)"
  by (cases r) (auto simp: returns_def)

definition column :: "nat \<Rightarrow> arrow_type \<Rightarrow> datum \<Rightarrow> bool" where
  "column n t d \<longleftrightarrow> (\<exists>a. d = DArray a \<and> arr_ok n t a)"

definition is_column :: "datum \<Rightarrow> bool" where
  "is_column d \<longleftrightarrow> (case d of DArray _ \<Rightarrow> True | DScalar _ _ \<Rightarrow> False)"

definition predicate_functions :: "string set" where
  "predicate_functions = {''equal'', ''not_equal'', ''greater'', ''greater_equal'', ''less'', ''less_equal''}"

text \<open>
  The registry functions whose result has the type of their arguments, with the types they have it
  for. Arrow's arithmetic does not keep every type: the sum of two decimals has a wider one, the
  difference of two timestamps is a duration, and rounding an integer gives a float.
\<close>

definition keeps_type :: "string \<Rightarrow> arrow_type \<Rightarrow> bool" where
  "keeps_type f t \<longleftrightarrow>
     f \<in> {''and_kleene'', ''or_kleene'', ''not''} \<and> t = ArrowBoolean \<or>
     f \<in> {''add'', ''subtract'', ''multiply'', ''divide'', ''abs''} \<and> t \<in> {ArrowInt16, ArrowInt32, ArrowInt64, ArrowFloat32, ArrowFloat64} \<or>
     f \<in> {''floor'', ''ceil'', ''round''} \<and> t \<in> {ArrowFloat32, ArrowFloat64}"

text \<open>
  What the kernels rely on: a comparison of values of one type, a column among them, returns an error
  or a column of booleans; a function that keeps the type of its arguments returns an error or a
  column of that type; concatenation, take, broadcast and the constructors do what they say.
\<close>

definition lib_ok :: "lib \<Rightarrow> bool" where
  "lib_ok L \<longleftrightarrow>
     (\<forall>f opt args n t. (\<forall>d \<in> set args. datum_ok n t d) \<and> (\<exists>d \<in> set args. is_column d) \<longrightarrow>
        (f \<in> predicate_functions \<longrightarrow> returns (lb_CallFunction L f opt args) (column n ArrowBoolean)) \<and>
        (keeps_type f t \<longrightarrow> returns (lb_CallFunction L f opt args) (column n t))) \<and>
     (\<forall>a b. ar_type a = ar_type b \<longrightarrow>
        returns (lb_Concatenate L a b) (\<lambda>c. c = \<lparr>ar_type = ar_type a, ar_cells = ar_cells a @ ar_cells b\<rparr>)) \<and>
     (\<forall>a idx. (\<forall>i \<in> set idx. 0 \<le> i \<and> i < int (length (ar_cells a))) \<longrightarrow>
        returns (lb_TakeArray L a idx) (\<lambda>c. c = \<lparr>ar_type = ar_type a, ar_cells = map (\<lambda>i. ar_cells a ! nat i) idx\<rparr>)) \<and>
     (\<forall>t c n. fits t c \<longrightarrow> returns (lb_MakeArrayFromScalar L t c n) (\<lambda>a. a = \<lparr>ar_type = t, ar_cells = replicate n c\<rparr>)) \<and>
     (\<forall>t n. lb_MakeArrayOfNull L t n = \<lparr>ar_type = t, ar_cells = replicate n CNull\<rparr>) \<and>
     (\<forall>sch cols n. list_all2 (\<lambda>f a. ar_type a = af_Type f \<and> length (ar_cells a) = n) sch cols \<longrightarrow>
        lb_NewRecordBatch L sch cols n = Inr \<lparr>rb_Schema = sch, rb_Columns = map ar_cells cols, rb_NumRows = n\<rparr>)"

lemma lib_okD:
  assumes "lib_ok L"
  shows "\<forall>d \<in> set args. datum_ok n t d \<Longrightarrow> \<exists>d \<in> set args. is_column d \<Longrightarrow> f \<in> predicate_functions \<Longrightarrow>
      returns (lb_CallFunction L f opt args) (column n ArrowBoolean)"
    "\<forall>d \<in> set args. datum_ok n t d \<Longrightarrow> \<exists>d \<in> set args. is_column d \<Longrightarrow> keeps_type f t \<Longrightarrow>
      returns (lb_CallFunction L f opt args) (column n t)"
    "ar_type x = ar_type y \<Longrightarrow> returns (lb_Concatenate L x y) (\<lambda>c. c = \<lparr>ar_type = ar_type x, ar_cells = ar_cells x @ ar_cells y\<rparr>)"
    "\<forall>i \<in> set idx. 0 \<le> i \<and> i < int (length (ar_cells x)) \<Longrightarrow>
      returns (lb_TakeArray L x idx) (\<lambda>c. c = \<lparr>ar_type = ar_type x, ar_cells = map (\<lambda>i. ar_cells x ! nat i) idx\<rparr>)"
    "fits t c \<Longrightarrow> returns (lb_MakeArrayFromScalar L t c n) (\<lambda>a. a = \<lparr>ar_type = t, ar_cells = replicate n c\<rparr>)"
    "lb_MakeArrayOfNull L t n = \<lparr>ar_type = t, ar_cells = replicate n CNull\<rparr>"
    "list_all2 (\<lambda>f a. ar_type a = af_Type f \<and> length (ar_cells a) = n) sch cols \<Longrightarrow>
      lb_NewRecordBatch L sch cols n = Inr \<lparr>rb_Schema = sch, rb_Columns = map ar_cells cols, rb_NumRows = n\<rparr>"
proof -
  note parts = assms [unfolded lib_ok_def]
  show "\<forall>d \<in> set args. datum_ok n t d \<Longrightarrow> \<exists>d \<in> set args. is_column d \<Longrightarrow> f \<in> predicate_functions \<Longrightarrow>
      returns (lb_CallFunction L f opt args) (column n ArrowBoolean)"
    "\<forall>d \<in> set args. datum_ok n t d \<Longrightarrow> \<exists>d \<in> set args. is_column d \<Longrightarrow> keeps_type f t \<Longrightarrow>
      returns (lb_CallFunction L f opt args) (column n t)"
    using parts [THEN conjunct1] by blast+
  note rest = parts [THEN conjunct2]
  show "ar_type x = ar_type y \<Longrightarrow> returns (lb_Concatenate L x y) (\<lambda>c. c = \<lparr>ar_type = ar_type x, ar_cells = ar_cells x @ ar_cells y\<rparr>)"
    using rest [THEN conjunct1] by blast
  note rest = rest [THEN conjunct2]
  show "\<forall>i \<in> set idx. 0 \<le> i \<and> i < int (length (ar_cells x)) \<Longrightarrow>
      returns (lb_TakeArray L x idx) (\<lambda>c. c = \<lparr>ar_type = ar_type x, ar_cells = map (\<lambda>i. ar_cells x ! nat i) idx\<rparr>)"
    using rest [THEN conjunct1] by blast
  note rest = rest [THEN conjunct2]
  show "fits t c \<Longrightarrow> returns (lb_MakeArrayFromScalar L t c n) (\<lambda>a. a = \<lparr>ar_type = t, ar_cells = replicate n c\<rparr>)"
    using rest [THEN conjunct1] by blast
  note rest = rest [THEN conjunct2]
  show "lb_MakeArrayOfNull L t n = \<lparr>ar_type = t, ar_cells = replicate n CNull\<rparr>"
    using rest [THEN conjunct1] by blast
  show "list_all2 (\<lambda>f a. ar_type a = af_Type f \<and> length (ar_cells a) = n) sch cols \<Longrightarrow>
      lb_NewRecordBatch L sch cols n = Inr \<lparr>rb_Schema = sch, rb_Columns = map ar_cells cols, rb_NumRows = n\<rparr>"
    using rest [THEN conjunct2] by blast
qed

lemma arg_simps [simp]: "arg (d # ds) 0 = Inr d" "arg (d # e # ds) (Suc 0) = Inr e" "arg (d # e # g # ds) 2 = Inr g"
  by (simp_all add: arg_def)

lemma columnE: "column n t d \<Longrightarrow> (\<And>a. d = DArray a \<Longrightarrow> ar_type a = t \<Longrightarrow> length (ar_cells a) = n \<Longrightarrow> \<forall>c \<in> set (ar_cells a). fits t c \<Longrightarrow> P) \<Longrightarrow> P"
  by (auto simp: column_def arr_ok_def)

lemma stringArray_column: "column n ArrowString d \<Longrightarrow> returns (stringArray d) (arr_ok n ArrowString)"
  by (auto simp: column_def arr_ok_def stringArray_def)

lemma map_valid_column:
  "arr_ok n t a \<Longrightarrow> (\<And>c. fits t' (f c)) \<Longrightarrow> column n t' (DArray \<lparr>ar_type = t', ar_cells = map_valid f (ar_cells a)\<rparr>)"
  by (auto simp: column_def arr_ok_def map_valid_def)

lemma mapBytes_column: "column n ArrowString d \<Longrightarrow> returns (mapBytes d f) (column n ArrowString)"
  unfolding mapBytes_def by (rule returns_bind [OF stringArray_column]) (auto intro: map_valid_column)

text \<open>A literal is never null.\<close>

definition not_null :: "datum \<Rightarrow> bool" where
  "not_null d \<longleftrightarrow> (\<forall>t. d \<noteq> DScalar t CNull)"

lemma datum_not_null: "datum_ok n t d \<Longrightarrow> not_null d"
  by (auto simp: datum_ok_def not_null_def split: datum.splits)

lemma scalar_returns:
  shows "not_null d \<Longrightarrow> returns (stringScalar d) (\<lambda>_. True)" "returns (int64Scalar d) (\<lambda>_. True)"
    "not_null d \<Longrightarrow> returns (compilePattern L d) (\<lambda>_. True)"
proof -
  show s: "returns (stringScalar d) (\<lambda>_. True)" if "not_null d"
    using that by (simp add: stringScalar_def not_null_def split: datum.splits arrow_type.splits cell.splits)
  show "returns (int64Scalar d) (\<lambda>_. True)" by (simp add: int64Scalar_def split: datum.splits arrow_type.splits cell.splits)
  show "returns (compilePattern L d) (\<lambda>_. True)" if "not_null d"
    unfolding compilePattern_def by (rule returns_bind [OF s [OF that]]) (simp split: option.splits)
qed

lemma optional_scalar: "returns (if length args > k then bind_res (arg args k) int64Scalar else Inr x) (\<lambda>_. True)"
  by (simp add: arg_def scalar_returns)

lemma parse_dates_returns: "returns (parse_dates cs) (\<lambda>vs. length vs = length cs \<and> (\<forall>v \<in> set vs. fits ArrowDate32 v))"
proof (induction cs)
  case (Cons c cs)
  have "returns (if c = CNull then Inr CNull else case parse_iso_date (str c) of None \<Rightarrow> Inl (ErrMsg ''to_date'') | Some d \<Rightarrow> Inr (CDate d))
      (fits ArrowDate32)"
    by (simp split: option.splits)
  then show ?case
    unfolding parse_dates.simps by (rule returns_bind) (rule returns_bind [OF Cons], simp)
qed simp

lemma string_kernels:
  assumes d: "column n ArrowString d"
  shows "returns (Lower L [d]) (column n ArrowString)" "returns (Upper L [d]) (column n ArrowString)"
    "returns (Trim L [d]) (column n ArrowString)" "returns (Length L [d]) (column n ArrowInt64)"
    "returns (Substring L (d # x # ds)) (column n ArrowString)" "returns (ToDate L [d]) (column n ArrowDate32)"
    "not_null x \<Longrightarrow> not_null y \<Longrightarrow> returns (Replace L [d, x, y]) (column n ArrowString)"
    "not_null x \<Longrightarrow> returns (RegexMatch L [d, x]) (column n ArrowBoolean)"
    "not_null x \<Longrightarrow> returns (RegexExtract L (d # x # ds)) (column n ArrowString)"
    "not_null x \<Longrightarrow> not_null y \<Longrightarrow> returns (RegexReplace L [d, x, y]) (column n ArrowString)"
proof -
  note m = mapBytes_column [OF d] and src = stringArray_column [OF d]
  show "returns (Lower L [d]) (column n ArrowString)" "returns (Upper L [d]) (column n ArrowString)"
    "returns (Trim L [d]) (column n ArrowString)"
    by (simp_all add: Lower_def Upper_def Trim_def m)
  show "returns (Length L [d]) (column n ArrowInt64)"
    unfolding Length_def arg_simps bind_res_simps by (rule returns_bind [OF src]) (auto intro: map_valid_column)
  show "returns (Replace L [d, x, y]) (column n ArrowString)" if x: "not_null x" and y: "not_null y"
    unfolding Replace_def
    by (simp add: numeral_2_eq_2 [symmetric])
      (rule returns_bind [OF scalar_returns(1) [OF x]], rule returns_bind [OF scalar_returns(1) [OF y]], simp add: m)
  show "returns (Substring L (d # x # ds)) (column n ArrowString)"
    unfolding Substring_def
    by (simp only: One_nat_def arg_simps bind_res_simps)
      (rule returns_bind [OF scalar_returns(2)], rule returns_bind [OF optional_scalar], rule m)
  show "returns (RegexMatch L [d, x]) (column n ArrowBoolean)" if x: "not_null x"
    unfolding RegexMatch_def
    by (simp only: One_nat_def arg_simps bind_res_simps)
      (rule returns_bind [OF scalar_returns(3) [OF x]], rule returns_bind [OF src], auto intro: map_valid_column)
  show "returns (RegexReplace L [d, x, y]) (column n ArrowString)" if x: "not_null x" and y: "not_null y"
    unfolding RegexReplace_def
    by (simp only: One_nat_def arg_simps bind_res_simps)
      (rule returns_bind [OF scalar_returns(3) [OF x]], rule returns_bind [OF scalar_returns(1) [OF y]], rule m)
  show "returns (ToDate L [d]) (column n ArrowDate32)"
    unfolding ToDate_def arg_simps bind_res_simps
    by (rule returns_bind [OF src], rule returns_bind [OF parse_dates_returns]) (auto simp: column_def arr_ok_def)
  have e: "fits ArrowString (extract_cell re g c)" for re g c by (simp add: extract_cell_def Let_def)
  show "returns (RegexExtract L (d # x # ds)) (column n ArrowString)" if x: "not_null x"
    unfolding RegexExtract_def
    by (simp only: One_nat_def arg_simps bind_res_simps)
      (rule returns_bind [OF scalar_returns(3) [OF x]], rule returns_bind [OF optional_scalar],
       simp add: returns_bind [OF src] e map_valid_column)
qed

lemma concat_parts_returns:
  assumes "\<forall>d \<in> set args. datum_ok n ArrowString d"
  shows "returns (concat_parts args) (\<lambda>ps. list_all2 (\<lambda>d p. case d of DArray a \<Rightarrow> p = Inl (ar_cells a) | DScalar _ _ \<Rightarrow> \<not> isl p) args ps)"
  using assms
proof (induction args)
  case (Cons d ds)
  then have IH: "returns (concat_parts ds) (\<lambda>ps. list_all2 (\<lambda>d p. case d of DArray a \<Rightarrow> p = Inl (ar_cells a) | DScalar _ _ \<Rightarrow> \<not> isl p) ds ps)"
    by simp
  show ?case
  proof (cases d)
    case (DArray a)
    have "returns (stringArray d) (\<lambda>src. src = a)" using Cons.prems DArray by (simp add: stringArray_def datum_ok_def arr_ok_def)
    then show ?thesis
      unfolding DArray concat_parts.simps by (rule returns_bind) (rule returns_bind [OF IH], simp)
  next
    case (DScalar t c)
    have "not_null (DScalar t c)" using Cons.prems DScalar datum_not_null by (metis list.set_intros(1))
    then show ?thesis
      unfolding DScalar concat_parts.simps by (intro returns_bind [OF scalar_returns(1)]) (assumption, rule returns_bind [OF IH], simp)
  qed
qed simp

lemma Concat_column:
  assumes args: "\<forall>d \<in> set args. datum_ok n ArrowString d" and c: "\<exists>d \<in> set args. is_column d"
  shows "returns (Concat L args) (column n ArrowString)"
  unfolding Concat_def
proof (rule returns_bind [OF concat_parts_returns [OF args]])
  fix ps :: "(cell list + string) list"
  assume ps: "list_all2 (\<lambda>d p. case d of DArray a \<Rightarrow> p = Inl (ar_cells a) | DScalar _ _ \<Rightarrow> \<not> isl p) args ps"
  have len: "length cells = n" if "Inl cells \<in> set ps" for cells
  proof -
    obtain i where "i < length ps" "ps ! i = Inl cells" using \<open>Inl cells \<in> set ps\<close> by (auto simp: in_set_conv_nth)
    moreover from this have "args ! i \<in> set args" using list_all2_lengthD [OF ps] by simp
    ultimately show ?thesis
      using list_all2_nthD2 [OF ps, of i] args [rule_format, of "args ! i"]
      by (cases "args ! i") (auto simp: datum_ok_def arr_ok_def)
  qed
  have "\<exists>p \<in> set ps. isl p"
    using ps c by (induction rule: list_all2_induct) (auto simp: is_column_def split: datum.splits)
  then have ne: "filter isl ps \<noteq> []" by (auto simp: filter_empty_conv)
  then have "last (filter isl ps) \<in> set (filter isl ps)" by (rule last_in_set)
  then have l: "isl (last (filter isl ps))" "last (filter isl ps) \<in> set ps" by (simp_all only: set_filter mem_Collect_eq)
  obtain cells where "last (filter isl ps) = Inl cells" "Inl cells \<in> set ps"
    using l by (cases "last (filter isl ps)") (simp_all only: isl_def, auto)
  then have n: "column_length ps = Some n" using ne len by (cases "filter isl ps") (auto simp: column_length_def)
  have "\<not> list_ex (\<lambda>p. case p of Inl cells \<Rightarrow> length cells < n | Inr _ \<Rightarrow> False) ps"
    using len by (auto simp: list_ex_iff split: sum.splits)
  then show "returns (case column_length ps of None \<Rightarrow> Inl (ErrMsg ''concat: expected at least one column'')
       | Some n \<Rightarrow>
           if list_ex (\<lambda>p. case p of Inl cells \<Rightarrow> length cells < n | Inr _ \<Rightarrow> False) ps then Inl (ErrPanic ''index out of range'')
           else Inr (DArray \<lparr>ar_type = ArrowString, ar_cells = map (\<lambda>i. text_cell (concat_row i ps)) [0..<n]\<rparr>)) (column n ArrowString)"
    using n by (auto simp: column_def arr_ok_def text_cell_def split: option.splits)
qed

text \<open>Digests take columns of text or integers.\<close>

definition hashable :: "arrow_type \<Rightarrow> bool" where
  "hashable t \<longleftrightarrow> t \<in> {ArrowString, ArrowInt16, ArrowInt32, ArrowInt64}"

lemma digest_columns_returns:
  assumes "\<forall>d \<in> set args. \<exists>t. hashable t \<and> column n t d"
  shows "returns (digest_columns args) (\<lambda>cols. length cols = length args \<and> (\<forall>c \<in> set cols. length (fst c) = n))"
  using assms
proof (induction args)
  case (Cons d ds)
  then obtain t a where a: "d = DArray a" "hashable t" "arr_ok n t a" by (auto simp: column_def)
  have "returns (textValue a) (\<lambda>_. True)" using a by (auto simp: textValue_def hashable_def arr_ok_def)
  moreover have "returns (digest_columns ds) (\<lambda>cols. length cols = length ds \<and> (\<forall>c \<in> set cols. length (fst c) = n))"
    using Cons by simp
  ultimately show ?case
    using a(3) unfolding a(1) digest_columns.simps by (intro returns_bind [where P = "\<lambda>_. True"] returns_bind [where Q = "\<lambda>cols. length cols = length (DArray a # ds) \<and> (\<forall>c \<in> set cols. length (fst c) = n)"]) (auto simp: arr_ok_def)
qed simp

lemma digest_column:
  assumes "\<forall>d \<in> set args. \<exists>t. hashable t \<and> column n t d" "args \<noteq> []"
  shows "returns (digest alg L args) (column n ArrowString)"
  unfolding digest_def
proof (rule returns_bind [OF digest_columns_returns [OF assms(1)]])
  fix cols :: "(cell list \<times> (cell \<Rightarrow> string)) list"
  assume c: "length cols = length args \<and> (\<forall>c \<in> set cols. length (fst c) = n)"
  then have "cols \<noteq> []" using assms(2) by auto
  moreover from this have "length (fst (last cols)) = n" using c by simp
  moreover have "\<not> list_ex (\<lambda>(cells, _). length cells < n) cols" using c by (auto simp: list_ex_iff)
  ultimately show "returns (if cols = [] then Inl (ErrMsg ''expected at least one column'')
       else if list_ex (\<lambda>(cells, _). length cells < length (fst (last cols))) cols then Inl (ErrPanic ''index out of range'')
       else Inr (DArray \<lparr>ar_type = ArrowString, ar_cells =
         map (\<lambda>i. if list_all (\<lambda>(cells, _). cells ! i = CNull) cols then CNull
                  else CString (hex_encode (lb_Sum L alg (joined_row i cols)))) [0..<length (fst (last cols))]\<rparr>)) (column n ArrowString)"
    by (auto simp: column_def arr_ok_def)
qed

lemma Compare_column:
  assumes L: "lib_ok L" and args: "\<forall>d \<in> set args. datum_ok n t d" "\<exists>d \<in> set args. is_column d"
  shows "returns (Compare op L args) (column n ArrowBoolean)"
proof -
  have "arrowFunction op \<in> predicate_functions" by (cases op) (simp_all add: arrowFunction_def predicate_functions_def)
  then show ?thesis unfolding Compare_def by (rule lib_okD(1) [OF L args])
qed

lemma registry_kernels:
  assumes L: "lib_ok L" and args: "\<forall>d \<in> set args. datum_ok n t d" "\<exists>d \<in> set args. is_column d"
  shows "t = ArrowBoolean \<Longrightarrow> returns (And L args) (column n t)" "t = ArrowBoolean \<Longrightarrow> returns (Or L args) (column n t)"
    "t = ArrowBoolean \<Longrightarrow> returns (Not L args) (column n t)"
    "t \<in> {ArrowInt16, ArrowInt32, ArrowInt64, ArrowFloat32, ArrowFloat64} \<Longrightarrow> returns (Add L args) (column n t)"
    "t \<in> {ArrowInt16, ArrowInt32, ArrowInt64, ArrowFloat32, ArrowFloat64} \<Longrightarrow> returns (Sub L args) (column n t)"
    "t \<in> {ArrowInt16, ArrowInt32, ArrowInt64, ArrowFloat32, ArrowFloat64} \<Longrightarrow> returns (Mul L args) (column n t)"
    "t \<in> {ArrowInt16, ArrowInt32, ArrowInt64, ArrowFloat32, ArrowFloat64} \<Longrightarrow> returns (Div L args) (column n t)"
    "t \<in> {ArrowInt16, ArrowInt32, ArrowInt64, ArrowFloat32, ArrowFloat64} \<Longrightarrow> returns (Abs L args) (column n t)"
    "t \<in> {ArrowFloat32, ArrowFloat64} \<Longrightarrow> returns (Floor L args) (column n t)"
    "t \<in> {ArrowFloat32, ArrowFloat64} \<Longrightarrow> returns (Ceil L args) (column n t)"
  unfolding And_def Or_def Not_def Add_def Sub_def Mul_def Div_def Abs_def Floor_def Ceil_def
  by (rule lib_okD(2) [OF L args], simp add: keeps_type_def)+

lemma Round_column:
  assumes L: "lib_ok L" and d: "column n t d" and t: "t \<in> {ArrowFloat32, ArrowFloat64}"
  shows "returns (Round L (d # ds)) (column n t)"
proof -
  have "\<forall>x \<in> set [d]. datum_ok n t x" "\<exists>x \<in> set [d]. is_column x"
    using d by (auto simp: column_def datum_ok_def is_column_def)
  note r = lib_okD(2) [OF L this]
  show ?thesis
    unfolding Round_def One_nat_def arg_simps bind_res_simps
    by (rule returns_bind [OF optional_scalar], rule r) (use t in \<open>simp add: keeps_type_def\<close>)
qed

lemma compare_rows_returns:
  "length ls = length rs \<Longrightarrow> returns (compare_rows op ls rs) (\<lambda>cs. length cs = length ls \<and> (\<forall>c \<in> set cs. fits ArrowBoolean c))"
proof (induction op ls rs rule: compare_rows.induct)
  case (3 op l ls r rs)
  have set: "returns (decimalText_set s) (\<lambda>_. True)" for s by (simp add: decimalText_set_def split: option.splits)
  have h1: "returns (if l = CNull \<or> r = CNull then Inr CNull
        else bind_res (decimalText_set (str l)) (\<lambda>x. bind_res (decimalText_set (str r)) (\<lambda>y.
          Inr (CBool (op_holds op (decimalText_cmp x y)))))) (fits ArrowBoolean)"
    by (simp add: returns_bind [OF set] returns_bind [OF set])
  have h2: "returns (compare_rows op ls rs) (\<lambda>cs. length cs = length ls \<and> (\<forall>c \<in> set cs. fits ArrowBoolean c))"
    using 3 by simp
  show ?case
    unfolding compare_rows.simps by (rule returns_bind [OF h1], rule returns_bind [OF h2]) simp
qed simp_all

lemma CompareDecimalText_column:
  assumes "column n ArrowString x" "column n ArrowString y"
  shows "returns (CompareDecimalText op L [x, y]) (column n ArrowBoolean)"
proof -
  obtain a b where ab: "x = DArray a" "y = DArray b" "arr_ok n ArrowString a" "arr_ok n ArrowString b"
    using assms by (auto simp: column_def)
  have "returns (compare_rows op (ar_cells a) (ar_cells b)) (\<lambda>cs. length cs = n \<and> (\<forall>c \<in> set cs. fits ArrowBoolean c))"
    using compare_rows_returns [of "ar_cells a" "ar_cells b"] ab by (simp add: arr_ok_def)
  then show ?thesis
    using ab by (simp add: CompareDecimalText_def textArray_def arr_ok_def)
      (rule returns_bind, assumption, simp add: column_def arr_ok_def)
qed

lemma IsNull_column: "column n t d \<Longrightarrow> returns (IsNull L [d]) (column n ArrowBoolean)"
  by (auto simp: IsNull_def column_def arr_ok_def)

lemma datePart_column:
  "column n t d \<Longrightarrow> returns (datePart f L [d]) (column n ArrowInt64)"
  by (auto simp: datePart_def column_def split: arrow_type.splits option.splits)
    (auto simp: arr_ok_def map_valid_def)

lemma IfElse_arr:
  assumes L: "lib_ok L" and m: "length sel = n" and yes: "arr_ok n t yes" and els: "arr_ok n t els"
  shows "returns (IfElse L sel yes els)
    (\<lambda>a. a = \<lparr>ar_type = t, ar_cells = map (\<lambda>i. if sel ! i = CBool True then ar_cells yes ! i else ar_cells els ! i) [0..<n]\<rparr>)"
proof (cases "t = ArrowString")
  case True
  then show ?thesis using m yes els by (simp add: IfElse_def arr_ok_def)
next
  case False
  let ?idx = "map (\<lambda>i. if sel ! i = CBool True then int i else int (n + i)) [0..<n]"
  let ?joined = "\<lparr>ar_type = t, ar_cells = ar_cells yes @ ar_cells els\<rparr>"
  have len: "length (ar_cells yes) = n" "length (ar_cells els) = n" "ar_type yes = t" "ar_type els = t"
    using yes els by (simp_all add: arr_ok_def)
  have c: "returns (lb_Concatenate L yes els) (\<lambda>c. c = ?joined)"
    using lib_okD(3) [OF L, of yes els] len by simp
  have "\<forall>i \<in> set ?idx. 0 \<le> i \<and> i < int (length (ar_cells ?joined))" using len by auto
  from lib_okD(4) [OF L this] have t: "returns (lb_TakeArray L ?joined ?idx)
      (\<lambda>a. a = \<lparr>ar_type = t, ar_cells = map (\<lambda>i. if sel ! i = CBool True then ar_cells yes ! i else ar_cells els ! i) [0..<n]\<rparr>)"
    using len by (elim returns_mono) (auto simp: nth_append nat_add_distrib)
  show ?thesis
    using False m len by (simp add: IfElse_def) (rule returns_bind [OF c], use t in simp)
qed

lemma IfElse_ok:
  assumes "lib_ok L" "length sel = n" "arr_ok n t yes" "arr_ok n t els"
  shows "returns (IfElse L sel yes els) (arr_ok n t)"
  using assms(3,4) by (intro returns_mono [OF IfElse_arr [OF assms]]) (auto simp: arr_ok_def)

lemma asArray_ok:
  assumes "lib_ok L" "datum_ok n t d"
  shows "returns (asArray L d n) (arr_ok n t)"
proof (cases d)
  case (DScalar t' c)
  then show ?thesis
    using assms(2) by (simp add: asArray_def datum_ok_def)
      (rule returns_mono [OF lib_okD(5) [OF assms(1)]], auto simp: arr_ok_def)
qed (use assms in \<open>simp add: asArray_def datum_ok_def\<close>)

lemma coalesce_ok:
  assumes "lib_ok L" "\<forall>d \<in> set ds. datum_ok n t d" "arr_ok n t cur"
  shows "returns (coalesce_from L n cur ds) (arr_ok n t)"
  using assms(2,3)
proof (induction ds arbitrary: cur)
  case (Cons d ds)
  have h: "returns (IfElse L (validityMask cur) cur nxt) (arr_ok n t)" if "arr_ok n t nxt" for nxt
    using IfElse_ok [OF assms(1) _ Cons.prems(2) that] Cons.prems(2) by (simp add: validityMask_def arr_ok_def)
  have "returns (bind_res (asArray L d n) (\<lambda>nxt. bind_res (IfElse L (validityMask cur) cur nxt) (\<lambda>merged. coalesce_from L n merged ds)))
      (arr_ok n t)"
    using Cons by (intro returns_bind [OF asArray_ok [OF assms(1)]] returns_bind [OF h]) simp_all
  then show ?case using Cons.prems by simp
qed simp

lemma first_column_ok:
  "\<forall>d \<in> set args. datum_ok n t d \<Longrightarrow> \<exists>d \<in> set args. is_column d \<Longrightarrow> first_column args = Some n"
  by (induction args rule: first_column.induct) (auto simp: datum_ok_def arr_ok_def is_column_def)

lemma Coalesce_column:
  assumes L: "lib_ok L" and args: "\<forall>d \<in> set args. datum_ok n t d" "\<exists>d \<in> set args. is_column d"
  shows "returns (Coalesce L args) (column n t)"
proof -
  obtain d ds where ds: "args = d # ds" using args(2) by (cases args) auto
  have d: "returns (asArray L d n) (arr_ok n t)" using asArray_ok [OF L] args(1) ds by simp
  have "returns (coalesce_from L n cur ds) (arr_ok n t)" if "arr_ok n t cur" for cur
    using coalesce_ok [OF L _ that] args(1) ds by simp
  note c = this
  show ?thesis
    using first_column_ok [OF args] unfolding Coalesce_def ds
    by (simp, intro returns_bind [OF d] returns_bind [OF c]) (simp_all add: column_def)
qed

end
