(* ===== verification/TransformCatalog.thy ===== *)
theory TransformCatalog
  imports TransformKernel
begin

text \<open>
  The function catalog of transforms (\<^verbatim>\<open>transform/catalog.go\<close>): signatures, the type check of a call, and
  the kernel each function runs. A call that passes the check is shown to run its kernel on arguments
  the kernel takes, and to yield a column of the type the check announced. The texts a builder shows
  are left out.
\<close>

section \<open>Signatures\<close>

record arg_spec =
  as_Name :: string
  as_Types :: "logical_type list"
  as_Literal :: bool
  as_Column :: bool
  as_Optional :: bool
  as_Variadic :: bool

record function_spec =
  fs_Name :: string
  fs_Args :: "arg_spec list"
  fs_Returns :: logical_type
  fs_SameType :: bool
  fs_ReturnsInput :: bool

record value_type =
  vt_logical :: logical_type
  vt_precision :: int
  vt_scale :: int

definition typeOf :: "field \<Rightarrow> value_type" where
  "typeOf f = \<lparr>vt_logical = fd_Logical f, vt_precision = fd_Precision f, vt_scale = fd_Scale f\<rparr>"

definition of_logical :: "logical_type \<Rightarrow> value_type" where
  "of_logical t = \<lparr>vt_logical = t, vt_precision = 0, vt_scale = 0\<rparr>"

text \<open>The literals a definition admits; a float is its bits.\<close>

datatype literal = LString string | LInt int | LFloat nat | LBool bool

text \<open>A compiled argument: its type, and its value when it is a literal.\<close>

record arg_type =
  at_type :: value_type
  at_value :: "literal option"

text \<open>A failed check, with the argument that is responsible when one is.\<close>

datatype call_error = CallError (ce_index: "nat option") (ce_message: string)

type_synonym validator = "lib \<Rightarrow> arg_type list \<Rightarrow> call_error option"

record catalog_function =
  fn_spec :: function_spec
  fn_validate :: "validator option"
  fn_exec :: "kernel option"
  fn_bind :: "(arg_type list \<Rightarrow> kernel) option"

text \<open>The field a value of a type is stored in, and its Arrow type.\<close>

definition type_field :: "value_type \<Rightarrow> field" where
  "type_field t = \<lparr>fd_Name = [], fd_Nullable = False, fd_Logical = vt_logical t, fd_Native = [],
     fd_Precision = vt_precision t, fd_Scale = vt_scale t\<rparr>"

definition storage :: "value_type \<Rightarrow> arrow_type" where
  "storage t = Type (type_field t)"

definition textDecimal :: "value_type \<Rightarrow> bool" where
  "textDecimal t \<longleftrightarrow> vt_logical t = ''decimal'' \<and> (case storage t of ArrowDecimal128 _ _ \<Rightarrow> False | _ \<Rightarrow> True)"

section \<open>The check of a call\<close>

definition argSpec :: "function_spec \<Rightarrow> nat \<Rightarrow> arg_spec" where
  "argSpec s i = (if i < length (fs_Args s) then fs_Args s ! i else last (fs_Args s))"

definition arg_error :: "nat \<Rightarrow> arg_spec \<Rightarrow> arg_type \<Rightarrow> call_error option" where
  "arg_error i a x =
     (if as_Column a \<and> at_value x \<noteq> None then Some (CallError (Some i) ''expects a column, got a literal'')
      else if as_Literal a \<and> at_value x = None then Some (CallError (Some i) ''expects a literal, got a column'')
      else if as_Types a \<noteq> [] \<and> vt_logical (at_type x) \<notin> set (as_Types a) then Some (CallError (Some i) ''expects another type'')
      else None)"

fun first_error :: "(nat \<Rightarrow> 'a \<Rightarrow> call_error option) \<Rightarrow> nat \<Rightarrow> 'a list \<Rightarrow> call_error option" where
  "first_error f i [] = None"
| "first_error f i (x # xs) = (case f i x of Some e \<Rightarrow> Some e | None \<Rightarrow> first_error f (Suc i) xs)"

text \<open>The type of the first argument that is neither a literal nor a parameter.\<close>

fun value_target :: "function_spec \<Rightarrow> nat \<Rightarrow> arg_type list \<Rightarrow> value_type" where
  "value_target spec i [] = of_logical LogicalUnknown"
| "value_target spec i (x # xs) =
     (if at_value x = None \<and> \<not> as_Literal (argSpec spec i) then at_type x else value_target spec (Suc i) xs)"

definition sharedType :: "function_spec \<Rightarrow> arg_type list \<Rightarrow> call_error + value_type" where
  "sharedType spec args =
     (let shared = value_target spec 0 args in
      if vt_logical shared = LogicalUnknown then Inl (CallError None ''expects at least one column'')
      else case first_error (\<lambda>i x. if as_Literal (argSpec spec i) then None
          else if at_type x \<noteq> shared then Some (CallError (Some i) ''expects matching types'') else None) 0 args of
        Some e \<Rightarrow> Inl e
      | None \<Rightarrow> Inr shared)"

definition required_args :: "function_spec \<Rightarrow> nat" where
  "required_args spec = length (filter (\<lambda>a. \<not> as_Optional a \<and> \<not> as_Variadic a) (fs_Args spec)) +
     (if fs_Args spec \<noteq> [] \<and> as_Variadic (last (fs_Args spec)) then 1 else 0)"

definition check :: "lib \<Rightarrow> catalog_function \<Rightarrow> arg_type list \<Rightarrow> call_error + value_type" where
  "check L f args =
     (let spec = fn_spec f;
          variadic = (fs_Args spec \<noteq> [] \<and> as_Variadic (last (fs_Args spec)))
      in if length args < required_args spec \<or> (\<not> variadic \<and> length args > length (fs_Args spec))
         then Inl (CallError None ''expects another number of arguments'')
         else case first_error (\<lambda>i x. arg_error i (argSpec spec i) x) 0 args of
           Some e \<Rightarrow> Inl e
         | None \<Rightarrow>
             (case (if fs_SameType spec then sharedType spec args else Inr (of_logical LogicalUnknown)) of
                Inl e \<Rightarrow> Inl e
              | Inr shared \<Rightarrow>
                  (case (case fn_validate f of None \<Rightarrow> None | Some v \<Rightarrow> v L args) of
                     Some e \<Rightarrow> Inl e
                   | None \<Rightarrow> Inr (if fs_ReturnsInput spec then shared else of_logical (fs_Returns spec)))))"

section \<open>Rules that span arguments\<close>

text \<open>The number of arguments and their kinds have been checked before these run.\<close>

definition arg_string :: "arg_type list \<Rightarrow> nat \<Rightarrow> string" where
  "arg_string args i = (case at_value (args ! i) of Some (LString s) \<Rightarrow> s | _ \<Rightarrow> [])"

definition arg_int :: "arg_type list \<Rightarrow> nat \<Rightarrow> int" where
  "arg_int args i = (case at_value (args ! i) of Some (LInt n) \<Rightarrow> n | _ \<Rightarrow> 0)"

definition validPattern :: "nat \<Rightarrow> validator" where
  "validPattern i L args = (if lb_Regexp L (arg_string args i) = None then Some (CallError (Some i) ''pattern'') else None)"

definition groupInPattern :: "nat \<Rightarrow> nat \<Rightarrow> validator" where
  "groupInPattern p i L args =
     (if length args \<le> i then None
      else if arg_int args i > rx_NumSubexp (the (lb_Regexp L (arg_string args p)))
      then Some (CallError (Some i) ''pattern has no such group'') else None)"

definition positive :: "nat \<Rightarrow> validator" where
  "positive i L args =
     (if length args \<le> i then None else if arg_int args i < 1 then Some (CallError (Some i) ''must be 1 or more'') else None)"

definition nonnegative :: "nat \<Rightarrow> validator" where
  "nonnegative i L args =
     (if length args \<le> i then None else if arg_int args i < 0 then Some (CallError (Some i) ''must be zero or more'') else None)"

fun validators :: "validator list \<Rightarrow> validator" where
  "validators [] L args = None"
| "validators (v # vs) L args = (case v L args of Some e \<Rightarrow> Some e | None \<Rightarrow> validators vs L args)"

section \<open>The functions\<close>

abbreviation (input) stringTypes :: "logical_type list" where "stringTypes \<equiv> [''string'']"
abbreviation (input) boolTypes :: "logical_type list" where "boolTypes \<equiv> [''bool'']"
abbreviation (input) int64Types :: "logical_type list" where "int64Types \<equiv> [''int64'']"
abbreviation (input) hashTypes :: "logical_type list" where "hashTypes \<equiv> [''string'', ''uuid'', ''int16'', ''int32'', ''int64'']"
abbreviation (input) floatTypes :: "logical_type list" where "floatTypes \<equiv> [''float32'', ''float64'']"
abbreviation (input) numericTypes :: "logical_type list" where "numericTypes \<equiv> [''int16'', ''int32'', ''int64'', ''float32'', ''float64'']"
abbreviation (input) temporalTypes :: "logical_type list" where "temporalTypes \<equiv> [''date'', ''timestamp'', ''timestamptz'']"
abbreviation (input) orderableTypes :: "logical_type list" where
  "orderableTypes \<equiv> [''int16'', ''int32'', ''int64'', ''float32'', ''float64'', ''decimal'', ''date'', ''time'', ''timestamp'', ''timestamptz'']"

definition value_arg :: "string \<Rightarrow> logical_type list \<Rightarrow> arg_spec" where
  "value_arg name ts = \<lparr>as_Name = name, as_Types = ts, as_Literal = False, as_Column = False, as_Optional = False, as_Variadic = False\<rparr>"

definition column_arg :: "string \<Rightarrow> logical_type list \<Rightarrow> arg_spec" where
  "column_arg name ts = (value_arg name ts)\<lparr>as_Column := True\<rparr>"

definition literal_arg :: "string \<Rightarrow> logical_type list \<Rightarrow> arg_spec" where
  "literal_arg name ts = (value_arg name ts)\<lparr>as_Literal := True\<rparr>"

definition spec_of :: "string \<Rightarrow> arg_spec list \<Rightarrow> logical_type \<Rightarrow> bool \<Rightarrow> bool \<Rightarrow> function_spec" where
  "spec_of name args ret same input = \<lparr>fs_Name = name, fs_Args = args, fs_Returns = ret, fs_SameType = same, fs_ReturnsInput = input\<rparr>"

definition plain :: "function_spec \<Rightarrow> kernel \<Rightarrow> catalog_function" where
  "plain spec k = \<lparr>fn_spec = spec, fn_validate = None, fn_exec = Some k, fn_bind = None\<rparr>"

definition validated :: "function_spec \<Rightarrow> validator \<Rightarrow> kernel \<Rightarrow> catalog_function" where
  "validated spec v k = \<lparr>fn_spec = spec, fn_validate = Some v, fn_exec = Some k, fn_bind = None\<rparr>"

definition unary :: "string \<Rightarrow> logical_type list \<Rightarrow> logical_type \<Rightarrow> kernel \<Rightarrow> catalog_function" where
  "unary name ts ret k = plain (spec_of name [column_arg ''value'' ts] ret (ret = []) (ret = [])) k"

definition arithmetic :: "string \<Rightarrow> kernel \<Rightarrow> catalog_function" where
  "arithmetic name k = plain (spec_of name [value_arg ''left'' numericTypes, value_arg ''right'' numericTypes] [] True True) k"

definition comparison :: "string \<Rightarrow> logical_type list \<Rightarrow> comparison_op \<Rightarrow> catalog_function" where
  "comparison name ts op =
     \<lparr>fn_spec = spec_of name [value_arg ''left'' ts, value_arg ''right'' ts] LogicalBool True False, fn_validate = None, fn_exec = None,
      fn_bind = Some (\<lambda>args. if textDecimal (at_type (args ! 0)) then CompareDecimalText op else Compare op)\<rparr>"

definition digest_function :: "string \<Rightarrow> catalog_function" where
  "digest_function name =
     plain (spec_of name [(column_arg ''column'' hashTypes)\<lparr>as_Variadic := True\<rparr>] LogicalString False False) (digest name)"

definition logic :: "string \<Rightarrow> kernel \<Rightarrow> catalog_function" where
  "logic name k = plain (spec_of name [value_arg ''left'' boolTypes, value_arg ''right'' boolTypes] LogicalBool True False) k"

definition catalog :: "catalog_function list" where
  "catalog = [
     unary ''lower'' stringTypes LogicalString Lower,
     unary ''upper'' stringTypes LogicalString Upper,
     unary ''trim'' stringTypes LogicalString Trim,
     unary ''length'' stringTypes LogicalInt64 Length,
     plain (spec_of ''replace'' [column_arg ''value'' stringTypes, literal_arg ''find'' stringTypes, literal_arg ''with'' stringTypes]
       LogicalString False False) Replace,
     validated (spec_of ''substring'' [column_arg ''value'' stringTypes, literal_arg ''start'' int64Types,
       (literal_arg ''length'' int64Types)\<lparr>as_Optional := True\<rparr>] LogicalString False False)
       (validators [positive 1, nonnegative 2]) Substring,
     plain (spec_of ''concat'' [(value_arg ''part'' stringTypes)\<lparr>as_Variadic := True\<rparr>] LogicalString True False) Concat,
     validated (spec_of ''regex_match'' [column_arg ''value'' stringTypes, literal_arg ''pattern'' stringTypes] LogicalBool False False)
       (validPattern 1) RegexMatch,
     validated (spec_of ''regex_extract'' [column_arg ''value'' stringTypes, literal_arg ''pattern'' stringTypes,
       (literal_arg ''group'' int64Types)\<lparr>as_Optional := True\<rparr>] LogicalString False False)
       (validators [validPattern 1, nonnegative 2, groupInPattern 1 2]) RegexExtract,
     validated (spec_of ''regex_replace'' [column_arg ''value'' stringTypes, literal_arg ''pattern'' stringTypes, literal_arg ''with'' stringTypes]
       LogicalString False False) (validPattern 1) RegexReplace,
     digest_function ''md5'', digest_function ''sha1'', digest_function ''sha256'', digest_function ''sha512'',
     arithmetic ''add'' Add, arithmetic ''sub'' Sub, arithmetic ''mul'' Mul, arithmetic ''div'' Div,
     plain (spec_of ''abs'' [column_arg ''value'' numericTypes] [] True True) Abs,
     unary ''floor'' floatTypes [] Floor, unary ''ceil'' floatTypes [] Ceil,
     plain (spec_of ''round'' [column_arg ''value'' floatTypes, (literal_arg ''places'' int64Types)\<lparr>as_Optional := True\<rparr>] [] True True) Round,
     comparison ''eq'' [] Eq, comparison ''neq'' [] Neq, comparison ''gt'' orderableTypes Gt, comparison ''gte'' orderableTypes Gte,
     comparison ''lt'' orderableTypes Lt, comparison ''lte'' orderableTypes Lte,
     logic ''and'' And, logic ''or'' Or, unary ''not'' boolTypes LogicalBool Not,
     plain (spec_of ''is_null'' [column_arg ''value'' []] LogicalBool False False) IsNull,
     plain (spec_of ''coalesce'' [(value_arg ''value'' [])\<lparr>as_Variadic := True\<rparr>] [] True True) Coalesce,
     plain (spec_of ''to_date'' [column_arg ''value'' stringTypes] ''date'' False False) ToDate,
     unary ''year'' temporalTypes LogicalInt64 Year, unary ''month'' temporalTypes LogicalInt64 Month, unary ''day'' temporalTypes LogicalInt64 Day]"

definition catalogByName :: "string \<Rightarrow> catalog_function option" where
  "catalogByName name = find (\<lambda>f. fs_Name (fn_spec f) = name) catalog"

definition Functions :: "function_spec list" where
  "Functions = map fn_spec catalog"

definition FunctionsFor :: "logical_type \<Rightarrow> function_spec list" where
  "FunctionsFor t = filter (\<lambda>spec. list_ex (\<lambda>a. \<not> as_Literal a \<and> (as_Types a = [] \<or> t \<in> set (as_Types a))) (fs_Args spec)) Functions"

text \<open>The kernel of a call whose arguments were checked.\<close>

definition bound_exec :: "catalog_function \<Rightarrow> arg_type list \<Rightarrow> kernel option" where
  "bound_exec f types = (case fn_bind f of None \<Rightarrow> fn_exec f | Some bind \<Rightarrow> Some (bind types))"

section \<open>A checked call runs\<close>

text \<open>An argument value conforms to the type the compiler gave it.\<close>

definition conforms :: "nat \<Rightarrow> arg_type \<Rightarrow> datum \<Rightarrow> bool" where
  "conforms n x d \<longleftrightarrow>
     datum_ok n (storage (at_type x)) d \<and> (is_column d \<longleftrightarrow> at_value x = None) \<and> (at_value x = None \<or> \<not> textDecimal (at_type x))"

lemma first_error_None: "first_error f k xs = None \<longleftrightarrow> (\<forall>i < length xs. f (k + i) (xs ! i) = None)"
proof (induction xs arbitrary: k)
  case (Cons x xs)
  then show ?case by (simp add: All_less_Suc2 split: option.splits)
qed simp

lemma value_target_known:
  "vt_logical (value_target spec k xs) \<noteq> [] \<Longrightarrow>
   \<exists>i < length xs. at_value (xs ! i) = None \<and> \<not> as_Literal (argSpec spec (k + i)) \<and> at_type (xs ! i) = value_target spec k xs"
proof (induction xs arbitrary: k)
  case (Cons x xs)
  show ?case
  proof (cases "at_value x = None \<and> \<not> as_Literal (argSpec spec k)")
    case False
    then have "value_target spec k (x # xs) = value_target spec (Suc k) xs" by auto
    with Cons.IH [of "Suc k"] Cons.prems show ?thesis by (simp add: Ex_less_Suc2)
  qed (simp add: Ex_less_Suc2)
qed (simp add: of_logical_def)

lemma sharedType_Inr:
  assumes "sharedType spec xs = Inr shared"
  shows "\<forall>i < length xs. \<not> as_Literal (argSpec spec i) \<longrightarrow> at_type (xs ! i) = shared"
    "\<exists>i < length xs. \<not> as_Literal (argSpec spec i) \<and> at_value (xs ! i) = None"
proof -
  have s: "shared = value_target spec 0 xs" "vt_logical shared \<noteq> []"
    and e: "first_error (\<lambda>i x. if as_Literal (argSpec spec i) then None
          else if at_type x \<noteq> shared then Some (CallError (Some i) ''expects matching types'') else None) 0 xs = None"
    using assms by (auto simp: sharedType_def Let_def split: if_splits option.splits)
  show "\<forall>i < length xs. \<not> as_Literal (argSpec spec i) \<longrightarrow> at_type (xs ! i) = shared"
    using e by (auto simp: first_error_None split: if_splits)
  show "\<exists>i < length xs. \<not> as_Literal (argSpec spec i) \<and> at_value (xs ! i) = None"
    using value_target_known [of spec 0 xs] s by auto
qed

lemma check_Inr:
  assumes "check L f xs = Inr ret"
  shows "required_args (fn_spec f) \<le> length xs"
    "\<not> as_Variadic (last (fs_Args (fn_spec f))) \<Longrightarrow> length xs \<le> length (fs_Args (fn_spec f))"
    "\<forall>i < length xs. arg_error i (argSpec (fn_spec f) i) (xs ! i) = None"
    "fs_SameType (fn_spec f) \<Longrightarrow> \<exists>shared. sharedType (fn_spec f) xs = Inr shared \<and> (fs_ReturnsInput (fn_spec f) \<longrightarrow> ret = shared)"
    "\<not> fs_ReturnsInput (fn_spec f) \<Longrightarrow> ret = of_logical (fs_Returns (fn_spec f))"
  using assms by (auto simp: check_def Let_def first_error_None split: if_splits option.splits sum.splits)

text \<open>What the kernel of a checked call is given.\<close>

lemma checked_args:
  assumes c: "check L f xs = Inr ret" and ds: "list_all2 (conforms n) xs ds"
  shows "required_args (fn_spec f) \<le> length ds"
    "\<not> as_Variadic (last (fs_Args (fn_spec f))) \<Longrightarrow> length ds \<le> length (fs_Args (fn_spec f))"
    "\<And>i. i < length ds \<Longrightarrow> as_Column (argSpec (fn_spec f) i) \<Longrightarrow> column n (storage (at_type (xs ! i))) (ds ! i)"
    "\<And>i. i < length ds \<Longrightarrow> as_Types (argSpec (fn_spec f) i) \<noteq> [] \<Longrightarrow> vt_logical (at_type (xs ! i)) \<in> set (as_Types (argSpec (fn_spec f) i))"
proof -
  have len: "length xs = length ds" using ds by (rule list_all2_lengthD)
  show "required_args (fn_spec f) \<le> length ds"
    "\<not> as_Variadic (last (fs_Args (fn_spec f))) \<Longrightarrow> length ds \<le> length (fs_Args (fn_spec f))"
    using check_Inr(1,2) [OF c] len by auto
  fix i assume i: "i < length ds"
  then have e: "arg_error i (argSpec (fn_spec f) i) (xs ! i) = None" and d: "conforms n (xs ! i) (ds ! i)"
    using check_Inr(3) [OF c] ds len by (auto simp: list_all2_nthD2)
  show "as_Column (argSpec (fn_spec f) i) \<Longrightarrow> column n (storage (at_type (xs ! i))) (ds ! i)"
    using e d by (cases "ds ! i") (auto simp: arg_error_def conforms_def datum_ok_def column_def is_column_def split: if_splits)
  show "as_Types (argSpec (fn_spec f) i) \<noteq> [] \<Longrightarrow> vt_logical (at_type (xs ! i)) \<in> set (as_Types (argSpec (fn_spec f) i))"
    using e by (auto simp: arg_error_def split: if_splits)
qed

lemma checked_same:
  assumes c: "check L f xs = Inr ret" and ds: "list_all2 (conforms n) xs ds" and s: "fs_SameType (fn_spec f)"
  obtains shared where "fs_ReturnsInput (fn_spec f) \<longrightarrow> ret = shared"
    "\<And>i. i < length ds \<Longrightarrow> \<not> as_Literal (argSpec (fn_spec f) i) \<Longrightarrow> at_type (xs ! i) = shared \<and> datum_ok n (storage shared) (ds ! i)"
    "\<exists>i < length ds. \<not> as_Literal (argSpec (fn_spec f) i) \<and> is_column (ds ! i)"
proof -
  obtain shared where sh: "sharedType (fn_spec f) xs = Inr shared" "fs_ReturnsInput (fn_spec f) \<longrightarrow> ret = shared"
    using check_Inr(4) [OF c s] by blast
  show thesis
    using sharedType_Inr [OF sh(1)] ds by (intro that [OF sh(2)]) (auto simp: list_all2_conv_all_nth conforms_def)
qed

definition sound_function :: "lib \<Rightarrow> catalog_function \<Rightarrow> bool" where
  "sound_function L f \<longleftrightarrow>
     (\<forall>xs ds n ret. check L f xs = Inr ret \<longrightarrow> list_all2 (conforms n) xs ds \<longrightarrow>
        (\<exists>k. bound_exec f xs = Some k \<and> returns (k L ds) (column n (storage ret))))"

lemma storage_of [simp]:
  "vt_logical t = ''string'' \<Longrightarrow> storage t = ArrowString" "vt_logical t = ''bool'' \<Longrightarrow> storage t = ArrowBoolean"
  "storage (of_logical ''string'') = ArrowString" "storage (of_logical ''bool'') = ArrowBoolean"
  "storage (of_logical ''int64'') = ArrowInt64" "storage (of_logical ''date'') = ArrowDate32"
  by (simp_all add: storage_def Type_def type_field_def of_logical_def)

lemma storage_floats: "vt_logical t \<in> set floatTypes \<Longrightarrow> storage t \<in> {ArrowFloat32, ArrowFloat64}"
  by (auto simp: storage_def Type_def type_field_def)

lemma storage_numerics:
  "vt_logical t \<in> set numericTypes \<Longrightarrow> storage t \<in> {ArrowInt16, ArrowInt32, ArrowInt64, ArrowFloat32, ArrowFloat64}"
  by (auto simp: storage_def Type_def type_field_def)

lemma builder_specs [simp]:
  "fn_spec (plain spec k) = spec" "fn_spec (validated spec v k) = spec"
  "bound_exec (plain spec k) xs = Some k" "bound_exec (validated spec v k) xs = Some k"
  "fs_Args (spec_of name as r same inp) = as" "fs_Returns (spec_of name as r same inp) = r"
  "fs_SameType (spec_of name as r same inp) = same" "fs_ReturnsInput (spec_of name as r same inp) = inp"
  "as_Types (value_arg m ts) = ts" "\<not> as_Literal (value_arg m ts)" "\<not> as_Column (value_arg m ts)"
  "\<not> as_Optional (value_arg m ts)" "\<not> as_Variadic (value_arg m ts)"
  "as_Types (column_arg m ts) = ts" "\<not> as_Literal (column_arg m ts)" "as_Column (column_arg m ts)"
  "\<not> as_Optional (column_arg m ts)" "\<not> as_Variadic (column_arg m ts)"
  "as_Literal (literal_arg m ts)" "\<not> as_Optional (literal_arg m ts)" "\<not> as_Variadic (literal_arg m ts)"
  by (simp_all add: plain_def validated_def bound_exec_def spec_of_def value_arg_def column_arg_def literal_arg_def)

text \<open>A call whose first argument must be a column.\<close>

lemma column_first:
  assumes c: "check L f xs = Inr ret" and ds: "list_all2 (conforms n) xs ds"
    and a: "fs_Args (fn_spec f) = a # as" "as_Column a" "\<not> as_Optional a" "\<not> as_Variadic a" "\<not> as_Variadic (last (a # as))"
  obtains d ds' where "ds = d # ds'" "column n (storage (at_type (xs ! 0))) d"
    "as_Types a \<noteq> [] \<longrightarrow> vt_logical (at_type (xs ! 0)) \<in> set (as_Types a)"
    "length (filter (\<lambda>a. \<not> as_Optional a \<and> \<not> as_Variadic a) as) \<le> length ds'" "length ds' \<le> length as"
    "\<forall>x \<in> set ds'. not_null x"
proof -
  have nn: "\<forall>x \<in> set ds. not_null x"
    using ds by (force simp: list_all2_conv_all_nth in_set_conv_nth conforms_def dest: datum_not_null)
  note r = checked_args [OF c ds]
  have len: "Suc (length (filter (\<lambda>a. \<not> as_Optional a \<and> \<not> as_Variadic a) as)) \<le> length ds"
    "length ds \<le> Suc (length as)"
    using r(1,2) a by (simp_all add: required_args_def)
  then obtain d ds' where d: "ds = d # ds'" by (cases ds) auto
  show thesis using that [OF d] r(3,4) [of 0] len a d nn by (simp add: argSpec_def)
qed

lemma column_kernel:
  assumes "f = plain (spec_of name (a # as) r False False) k \<or> f = validated (spec_of name (a # as) r False False) v k"
    "as_Column a" "\<not> as_Optional a" "\<not> as_Variadic a" "\<not> as_Variadic (last (a # as))"
    and k: "\<And>n t d ds. column n (storage t) d \<Longrightarrow> as_Types a \<noteq> [] \<longrightarrow> vt_logical t \<in> set (as_Types a) \<Longrightarrow>
      length (filter (\<lambda>a. \<not> as_Optional a \<and> \<not> as_Variadic a) as) \<le> length ds \<Longrightarrow> length ds \<le> length as \<Longrightarrow>
      \<forall>x \<in> set ds. not_null x \<Longrightarrow> returns (k L (d # ds)) (column n (storage (of_logical r)))"
  shows "sound_function L f"
  unfolding sound_function_def
proof (intro allI impI)
  fix xs ds n ret assume c: "check L f xs = Inr ret" and ds: "list_all2 (conforms n) xs ds"
  have a: "fs_Args (fn_spec f) = a # as" and ret: "ret = of_logical r" and b: "bound_exec f xs = Some k"
    using assms(1) check_Inr(5) [OF c] by auto
  obtain d ds' where "ds = d # ds'" "column n (storage (at_type (xs ! 0))) d"
    "as_Types a \<noteq> [] \<longrightarrow> vt_logical (at_type (xs ! 0)) \<in> set (as_Types a)"
    "length (filter (\<lambda>a. \<not> as_Optional a \<and> \<not> as_Variadic a) as) \<le> length ds'" "length ds' \<le> length as"
    "\<forall>x \<in> set ds'. not_null x"
    using column_first [OF c ds a assms(2-5)] by blast
  then show "\<exists>k. bound_exec f xs = Some k \<and> returns (k L ds) (column n (storage ret))"
    using k b ret by auto
qed

text \<open>A call whose arguments are values of one type, at least one of them a column.\<close>

lemma same_args:
  assumes c: "check L f xs = Inr ret" and ds: "list_all2 (conforms n) xs ds" and s: "fs_SameType (fn_spec f)"
    and as: "fs_Args (fn_spec f) \<noteq> []" "\<forall>a \<in> set (fs_Args (fn_spec f)). \<not> as_Literal a"
  obtains shared where "fs_ReturnsInput (fn_spec f) \<longrightarrow> ret = shared" "\<forall>x \<in> set xs. at_type x = shared"
    "\<forall>d \<in> set ds. datum_ok n (storage shared) d" "\<exists>d \<in> set ds. is_column d"
proof -
  have lit: "\<not> as_Literal (argSpec (fn_spec f) i)" for i
    using as by (cases "i < length (fs_Args (fn_spec f))") (auto simp: argSpec_def)
  have len: "length xs = length ds" using ds by (rule list_all2_lengthD)
  obtain shared where "fs_ReturnsInput (fn_spec f) \<longrightarrow> ret = shared"
    "\<And>i. i < length ds \<Longrightarrow> \<not> as_Literal (argSpec (fn_spec f) i) \<Longrightarrow> at_type (xs ! i) = shared \<and> datum_ok n (storage shared) (ds ! i)"
    "\<exists>i < length ds. \<not> as_Literal (argSpec (fn_spec f) i) \<and> is_column (ds ! i)"
    using checked_same [OF c ds s] by blast
  then show thesis using lit len by (intro that [of shared]) (auto simp: in_set_conv_nth intro: bexI [OF _ nth_mem])
qed

lemma same_kernel:
  assumes f: "f = plain (spec_of name (a # as) r True inp) k" and lit: "\<forall>b \<in> set (a # as). \<not> as_Literal b"
    and req: "as_Variadic (last (a # as)) \<or> \<not> as_Optional a"
    and k: "\<And>n t ds. \<forall>d \<in> set ds. datum_ok n (storage t) d \<Longrightarrow> \<exists>d \<in> set ds. is_column d \<Longrightarrow>
      as_Types a \<noteq> [] \<longrightarrow> vt_logical t \<in> set (as_Types a) \<Longrightarrow>
      returns (k L ds) (column n (if inp then storage t else storage (of_logical r)))"
  shows "sound_function L f"
  unfolding sound_function_def
proof (intro allI impI)
  fix xs ds n ret assume c: "check L f xs = Inr ret" and ds: "list_all2 (conforms n) xs ds"
  have ret: "\<not> inp \<Longrightarrow> ret = of_logical r" using check_Inr(5) [OF c] f by simp
  have h: "fs_SameType (fn_spec f)" "fs_Args (fn_spec f) \<noteq> []" "\<forall>a \<in> set (fs_Args (fn_spec f)). \<not> as_Literal a"
    using f lit by simp_all
  obtain shared where "fs_ReturnsInput (fn_spec f) \<longrightarrow> ret = shared" and sh: "\<forall>x \<in> set xs. at_type x = shared"
    "\<forall>d \<in> set ds. datum_ok n (storage shared) d" "\<exists>d \<in> set ds. is_column d"
    by (rule same_args [OF c ds h])
  then have inp: "inp \<Longrightarrow> ret = shared" using f by simp
  have ne: "0 < length ds" using sh(3) by (cases ds) auto
  then have "at_type (xs ! 0) = shared" using sh(1) list_all2_lengthD [OF ds] by simp
  then have "as_Types a \<noteq> [] \<longrightarrow> vt_logical shared \<in> set (as_Types a)"
    using checked_args(4) [OF c ds ne] f by (simp add: argSpec_def)
  from k [OF sh(2,3) this] show "\<exists>k. bound_exec f xs = Some k \<and> returns (k L ds) (column n (storage ret))"
    using f ret inp by (cases inp) simp_all
qed

lemma comparison_sound: "lib_ok L \<Longrightarrow> sound_function L (comparison name ts op)"
  unfolding sound_function_def
proof (intro allI impI)
  fix xs ds n ret
  assume L: "lib_ok L" and c: "check L (comparison name ts op) xs = Inr ret" and ds: "list_all2 (conforms n) xs ds"
  let ?f = "comparison name ts op"
  have spec: "fn_spec ?f = spec_of name [value_arg ''left'' ts, value_arg ''right'' ts] LogicalBool True False"
    by (simp add: comparison_def)
  have ret: "storage ret = ArrowBoolean" using check_Inr(5) [OF c] spec by simp
  have h: "fs_SameType (fn_spec ?f)" "fs_Args (fn_spec ?f) \<noteq> []" "\<forall>a \<in> set (fs_Args (fn_spec ?f)). \<not> as_Literal a"
    using spec by simp_all
  obtain shared where sh: "\<forall>x \<in> set xs. at_type x = shared" "\<forall>d \<in> set ds. datum_ok n (storage shared) d" "\<exists>d \<in> set ds. is_column d"
    by (rule same_args [OF c ds h])
  have "required_args (fn_spec ?f) = 2" by (simp add: spec required_args_def)
  then have len: "length ds = 2" using checked_args(1,2) [OF c ds] spec by simp
  then obtain d e where de: "ds = [d, e]" by (cases ds; cases "tl ds") auto
  obtain x y where xy: "xs = [x, y]" using len list_all2_lengthD [OF ds] by (cases xs; cases "tl xs") auto
  have k: "bound_exec ?f xs = Some (if textDecimal shared then CompareDecimalText op else Compare op)"
    using sh(1) xy by (simp add: bound_exec_def comparison_def)
  have "returns ((if textDecimal shared then CompareDecimalText op else Compare op) L ds) (column n ArrowBoolean)"
  proof (cases "textDecimal shared")
    case True
    then have s: "storage shared = ArrowString"
      by (simp add: textDecimal_def storage_def Type_def type_field_def split: if_splits)
    have "conforms n x d" "conforms n y e" "at_type x = shared" "at_type y = shared" using ds de xy sh(1) by simp_all
    then have "column n ArrowString d" "column n ArrowString e"
      using True s by (cases d; cases e; simp add: conforms_def column_def datum_ok_def is_column_def)+
    then show ?thesis using True de CompareDecimalText_column by simp
  qed (use Compare_column [OF L sh(2,3)] in simp)
  then show "\<exists>k. bound_exec ?f xs = Some k \<and> returns (k L ds) (column n (storage ret))"
    using k ret by simp
qed

lemma digest_sound: "sound_function L (digest_function name)"
  unfolding sound_function_def
proof (intro allI impI)
  fix xs ds n ret
  assume c: "check L (digest_function name) xs = Inr ret" and ds: "list_all2 (conforms n) xs ds"
  let ?a = "(column_arg ''column'' hashTypes)\<lparr>as_Variadic := True\<rparr>"
  have spec: "fn_spec (digest_function name) = spec_of name [?a] LogicalString False False" by (simp add: digest_function_def)
  have ret: "storage ret = ArrowString" using check_Inr(5) [OF c] spec by simp
  have a: "argSpec (fn_spec (digest_function name)) i = ?a" for i using spec by (simp add: argSpec_def)
  have h: "hashable (storage t)" if "vt_logical t \<in> set hashTypes" for t
    using that by (auto simp: storage_def Type_def type_field_def hashable_def)
  have "ds \<noteq> []" using checked_args(1) [OF c ds] spec by (auto simp: required_args_def)
  moreover have "\<exists>t. hashable t \<and> column n t d" if d: "d \<in> set ds" for d
  proof -
    obtain i where i: "i < length ds" "d = ds ! i" using d by (auto simp: in_set_conv_nth)
    show ?thesis using checked_args(3,4) [OF c ds i(1)] h i by (auto simp: a column_arg_def)
  qed
  ultimately show "\<exists>k. bound_exec (digest_function name) xs = Some k \<and> returns (k L ds) (column n (storage ret))"
    using ret digest_column [of ds n name L] by (simp add: digest_function_def)
qed

lemma round_sound: "lib_ok L \<Longrightarrow> sound_function L (plain (spec_of name
   [column_arg m floatTypes, (literal_arg m' ts')\<lparr>as_Optional := True\<rparr>] [] True True) Round)"
  unfolding sound_function_def
proof (intro allI impI)
  fix xs ds n ret
  let ?a = "(literal_arg m' ts')\<lparr>as_Optional := True\<rparr>"
  let ?f = "plain (spec_of name [column_arg m floatTypes, ?a] [] True True) Round"
  assume L: "lib_ok L" and c: "check L ?f xs = Inr ret" and ds: "list_all2 (conforms n) xs ds"
  have v: "\<not> as_Variadic ?a" by (simp add: literal_arg_def value_arg_def)
  obtain d ds' where d: "ds = d # ds'" "column n (storage (at_type (xs ! 0))) d" "vt_logical (at_type (xs ! 0)) \<in> set floatTypes"
    by (rule column_first [OF c ds, of "column_arg m floatTypes" "[?a]"]) (use v in simp_all)
  obtain shared where sh: "fs_ReturnsInput (fn_spec ?f) \<longrightarrow> ret = shared"
    "\<And>i. i < length ds \<Longrightarrow> \<not> as_Literal (argSpec (fn_spec ?f) i) \<Longrightarrow> at_type (xs ! i) = shared \<and> datum_ok n (storage shared) (ds ! i)"
    by (rule checked_same [OF c ds]) (simp, blast)
  have "at_type (xs ! 0) = ret" using sh(2) [of 0] sh(1) d(1) by (simp add: argSpec_def)
  then show "\<exists>k. bound_exec ?f xs = Some k \<and> returns (k L ds) (column n (storage ret))"
    using Round_column [OF L d(2) storage_floats [OF d(3)]] d(1) by simp
qed

lemma unary_kernel:
  assumes "r \<noteq> []"
    and "\<And>n t d. column n (storage t) d \<Longrightarrow> ts \<noteq> [] \<longrightarrow> vt_logical t \<in> set ts \<Longrightarrow> returns (k L [d]) (column n (storage (of_logical r)))"
  shows "sound_function L (unary name ts r k)"
  using column_kernel [OF disjI1 [OF refl], where k = k and a = "column_arg ''value'' ts" and as = "[]" and name = name and r = r and L = L] assms
  by (simp add: unary_def)

lemma unary_same:
  assumes "\<And>n t d. column n (storage t) d \<Longrightarrow> ts \<noteq> [] \<longrightarrow> vt_logical t \<in> set ts \<Longrightarrow> returns (k L [d]) (column n (storage t))"
  shows "sound_function L (plain (spec_of name [column_arg m ts] [] True True) k)"
  unfolding sound_function_def
proof (intro allI impI)
  fix xs ds n ret
  let ?f = "plain (spec_of name [column_arg m ts] [] True True) k"
  assume c: "check L ?f xs = Inr ret" and ds: "list_all2 (conforms n) xs ds"
  obtain d ds' where d: "ds = d # ds'" "column n (storage (at_type (xs ! 0))) d" "length ds' \<le> length ([] :: arg_spec list)"
    "ts \<noteq> [] \<longrightarrow> vt_logical (at_type (xs ! 0)) \<in> set ts"
    by (rule column_first [OF c ds, of "column_arg m ts" "[]"]) simp_all
  have h: "fs_SameType (fn_spec ?f)" "fs_Args (fn_spec ?f) \<noteq> []" "\<forall>a \<in> set (fs_Args (fn_spec ?f)). \<not> as_Literal a" by simp_all
  obtain shared where sh: "fs_ReturnsInput (fn_spec ?f) \<longrightarrow> ret = shared" "\<forall>x \<in> set xs. at_type x = shared"
    by (rule same_args [OF c ds h])
  have "at_type (xs ! 0) = ret" using sh d(1) list_all2_lengthD [OF ds] by simp
  then show "\<exists>k. bound_exec ?f xs = Some k \<and> returns (k L ds) (column n (storage ret))"
    using assms d by simp
qed

lemma unary_functions:
  "sound_function L (unary ''lower'' stringTypes LogicalString Lower)" "sound_function L (unary ''upper'' stringTypes LogicalString Upper)"
  "sound_function L (unary ''trim'' stringTypes LogicalString Trim)" "sound_function L (unary ''length'' stringTypes LogicalInt64 Length)"
  "sound_function L (unary ''year'' temporalTypes LogicalInt64 Year)" "sound_function L (unary ''month'' temporalTypes LogicalInt64 Month)"
  "sound_function L (unary ''day'' temporalTypes LogicalInt64 Day)"
  by (rule unary_kernel; simp add: string_kernels datePart_column Year_def Month_def Day_def)+

lemma literal_functions:
  "sound_function L (plain (spec_of ''replace'' [column_arg ''value'' stringTypes, literal_arg ''find'' stringTypes, literal_arg ''with'' stringTypes]
       LogicalString False False) Replace)"
  "sound_function L (validated (spec_of ''substring'' [column_arg ''value'' stringTypes, literal_arg ''start'' int64Types,
       (literal_arg ''length'' int64Types)\<lparr>as_Optional := True\<rparr>] LogicalString False False)
       (validators [positive 1, nonnegative 2]) Substring)"
  "sound_function L (validated (spec_of ''regex_match'' [column_arg ''value'' stringTypes, literal_arg ''pattern'' stringTypes] LogicalBool False False)
       (validPattern 1) RegexMatch)"
  "sound_function L (validated (spec_of ''regex_extract'' [column_arg ''value'' stringTypes, literal_arg ''pattern'' stringTypes,
       (literal_arg ''group'' int64Types)\<lparr>as_Optional := True\<rparr>] LogicalString False False)
       (validators [validPattern 1, nonnegative 2, groupInPattern 1 2]) RegexExtract)"
  "sound_function L (validated (spec_of ''regex_replace'' [column_arg ''value'' stringTypes, literal_arg ''pattern'' stringTypes, literal_arg ''with'' stringTypes]
       LogicalString False False) (validPattern 1) RegexReplace)"
  "sound_function L (plain (spec_of ''is_null'' [column_arg ''value'' []] LogicalBool False False) IsNull)"
  "sound_function L (plain (spec_of ''to_date'' [column_arg ''value'' stringTypes] ''date'' False False) ToDate)"
proof -
  have o: "\<not> as_Variadic ((literal_arg m ts)\<lparr>as_Optional := True\<rparr>)" "as_Optional ((literal_arg m ts)\<lparr>as_Optional := True\<rparr>)" for m ts
    by (simp_all add: literal_arg_def value_arg_def)
  have two: "\<exists>x y. ds = [x, y]" if "length ds = Suc (Suc 0)" for ds :: "datum list"
    using that by (cases ds; cases "tl ds") auto
  have one: "\<exists>x. ds = [x]" if "length ds = Suc 0" for ds :: "datum list"
    using that by (cases ds) auto
  have more: "\<exists>x es. ds = x # es" if "Suc 0 \<le> length ds" for ds :: "datum list"
    using that by (cases ds) auto
  note I = column_kernel [OF disjI1 [OF refl]] column_kernel [OF disjI2 [OF refl]]
  show "sound_function L (plain (spec_of ''replace'' [column_arg ''value'' stringTypes, literal_arg ''find'' stringTypes, literal_arg ''with'' stringTypes]
       LogicalString False False) Replace)"
    by (rule I(1); simp) (auto dest!: two simp: string_kernels)
  show "sound_function L (validated (spec_of ''substring'' [column_arg ''value'' stringTypes, literal_arg ''start'' int64Types,
       (literal_arg ''length'' int64Types)\<lparr>as_Optional := True\<rparr>] LogicalString False False)
       (validators [positive 1, nonnegative 2]) Substring)"
    by (rule I(2); simp add: o) (auto dest!: more simp: string_kernels)
  show "sound_function L (validated (spec_of ''regex_match'' [column_arg ''value'' stringTypes, literal_arg ''pattern'' stringTypes] LogicalBool False False)
       (validPattern 1) RegexMatch)"
    by (rule I(2); simp) (auto dest!: one simp: string_kernels)
  show "sound_function L (validated (spec_of ''regex_extract'' [column_arg ''value'' stringTypes, literal_arg ''pattern'' stringTypes,
       (literal_arg ''group'' int64Types)\<lparr>as_Optional := True\<rparr>] LogicalString False False)
       (validators [validPattern 1, nonnegative 2, groupInPattern 1 2]) RegexExtract)"
    by (rule I(2); simp add: o) (auto dest!: more simp: string_kernels)
  show "sound_function L (validated (spec_of ''regex_replace'' [column_arg ''value'' stringTypes, literal_arg ''pattern'' stringTypes, literal_arg ''with'' stringTypes]
       LogicalString False False) (validPattern 1) RegexReplace)"
    by (rule I(2); simp) (auto dest!: two simp: string_kernels)
  show "sound_function L (plain (spec_of ''is_null'' [column_arg ''value'' []] LogicalBool False False) IsNull)"
    "sound_function L (plain (spec_of ''to_date'' [column_arg ''value'' stringTypes] ''date'' False False) ToDate)"
    by (rule I(1); simp add: string_kernels IsNull_column)+
qed

lemma same_functions:
  assumes L: "lib_ok L"
  shows "sound_function L (plain (spec_of ''concat'' [(value_arg ''part'' stringTypes)\<lparr>as_Variadic := True\<rparr>] LogicalString True False) Concat)"
    "sound_function L (plain (spec_of ''coalesce'' [(value_arg ''value'' [])\<lparr>as_Variadic := True\<rparr>] [] True True) Coalesce)"
    "sound_function L (arithmetic ''add'' Add)" "sound_function L (arithmetic ''sub'' Sub)"
    "sound_function L (arithmetic ''mul'' Mul)" "sound_function L (arithmetic ''div'' Div)"
    "sound_function L (logic ''and'' And)" "sound_function L (logic ''or'' Or)"
proof -
  note I = same_kernel [OF refl] and k = registry_kernels [OF L] Coalesce_column [OF L] Concat_column
  have v: "\<not> as_Literal ((value_arg m ts)\<lparr>as_Variadic := True\<rparr>)" "as_Types ((value_arg m ts)\<lparr>as_Variadic := True\<rparr>) = ts" for m ts
    by (simp_all add: value_arg_def)
  show "sound_function L (plain (spec_of ''concat'' [(value_arg ''part'' stringTypes)\<lparr>as_Variadic := True\<rparr>] LogicalString True False) Concat)"
    "sound_function L (plain (spec_of ''coalesce'' [(value_arg ''value'' [])\<lparr>as_Variadic := True\<rparr>] [] True True) Coalesce)"
    by (rule I; simp add: v k)+
  show "sound_function L (arithmetic ''add'' Add)" "sound_function L (arithmetic ''sub'' Sub)"
    "sound_function L (arithmetic ''mul'' Mul)" "sound_function L (arithmetic ''div'' Div)"
    unfolding arithmetic_def
    by (rule I; simp; intro k; simp add: storage_numerics [simplified])+
  show "sound_function L (logic ''and'' And)" "sound_function L (logic ''or'' Or)"
    unfolding logic_def by (rule I; simp add: k)+
qed

lemma column_functions:
  assumes L: "lib_ok L"
  shows "sound_function L (unary ''not'' boolTypes LogicalBool Not)"
    "sound_function L (plain (spec_of ''abs'' [column_arg ''value'' numericTypes] [] True True) Abs)"
    "sound_function L (unary ''floor'' floatTypes [] Floor)" "sound_function L (unary ''ceil'' floatTypes [] Ceil)"
proof -
  have d: "\<forall>x \<in> set [d]. datum_ok n t x" "\<exists>x \<in> set [d]. is_column x" if "column n t d" for n t d
    using that by (auto simp: column_def datum_ok_def is_column_def)
  note k = registry_kernels [OF L d]
  show "sound_function L (unary ''not'' boolTypes LogicalBool Not)"
    by (rule unary_kernel; simp add: k)
  show "sound_function L (plain (spec_of ''abs'' [column_arg ''value'' numericTypes] [] True True) Abs)"
    by (rule unary_same, rule k(8)) (use storage_numerics in simp_all)
  have "unary m ts [] kn = plain (spec_of m [column_arg ''value'' ts] [] True True) kn" for m ts kn by (simp add: unary_def)
  then show "sound_function L (unary ''floor'' floatTypes [] Floor)" "sound_function L (unary ''ceil'' floatTypes [] Ceil)"
    using unary_same [of floatTypes Floor L] unary_same [of floatTypes Ceil L] k(9,10) storage_floats by simp_all
qed

text \<open>Every function of the catalog: a checked call yields a column of the announced type, or an error.\<close>

lemma catalog_sound: "lib_ok L \<Longrightarrow> f \<in> set catalog \<Longrightarrow> sound_function L f"
proof -
  assume L: "lib_ok L" and f: "f \<in> set catalog"
  note facts = unary_functions literal_functions same_functions [OF L] column_functions [OF L] round_sound [OF L]
    digest_sound comparison_sound [OF L]
  have "\<forall>f \<in> set catalog. sound_function L f"
    unfolding catalog_def by (simp only: list.set ball_simps facts)
  with f show ?thesis by blast
qed

lemma catalogByName_in: "catalogByName name = Some f \<Longrightarrow> f \<in> set catalog \<and> fs_Name (fn_spec f) = name"
  by (auto simp: catalogByName_def find_Some_iff)

lemma catalog_names: "distinct (map (\<lambda>f. fs_Name (fn_spec f)) catalog)"
  by (simp add: catalog_def unary_def plain_def validated_def arithmetic_def comparison_def digest_function_def logic_def spec_of_def)

end
