(* ===== verification/Transform.thy ===== *)
theory Transform
  imports TransformCatalog
begin

text \<open>
  Column transforms (\<^verbatim>\<open>transform/compile.go\<close>, \<^verbatim>\<open>exec.go\<close>, \<^verbatim>\<open>plan.go\<close>): the compiler from the steps of a
  definition to operations over columns, and the interpreter that applies them to a record batch. A
  definition that compiles is shown to apply to every batch of the compiled schema without a panic and
  to yield a batch of the announced schema, and to leave the primary key columns alone. Parsing the
  document and its JSON grammar is left out.
\<close>

section \<open>Definitions\<close>

datatype expr = ECol string | ELit literal | EFn string "expr list"

text \<open>A nil map or list is told apart from an empty one; a map is a list of entries.\<close>

record step =
  st_Rename :: "(string \<times> string) list option"
  st_Drop :: "string list option"
  st_Compute :: "(string \<times> expr) list option"
  st_Where :: "expr option"

record def_doc =
  df_Version :: int
  df_Resources :: "(string \<times> step list) list"

text \<open>A path into a definition, by its parts; the text of an issue is the message without its operands.\<close>

datatype part = PField string | PKey string | PIndex nat

type_synonym path = "part list"

record issue =
  is_Path :: path
  is_Message :: string

section \<open>Nodes\<close>

datatype node = ColNode nat | LiteralNode arrow_type cell | CallNode catalog_function "node list"

text \<open>An entry with no index appends a column.\<close>

datatype op = DropOp nat | ComputeOp "node option" "(nat option \<times> node) list"

definition bigint_SetString :: "string \<Rightarrow> int option" where
  "bigint_SetString s =
     (let (neg, ds) = split_sign s in
      if ds \<noteq> [] \<and> list_all is_digit ds
      then let v = foldl (\<lambda>n c. n * 10 + (int (of_char c) - 48)) 0 ds in Some (if neg then - v else v)
      else None)"

definition decimalLiteral :: "lib \<Rightarrow> literal \<Rightarrow> value_type \<Rightarrow> (int \<times> arrow_type) option" where
  "decimalLiteral L v t =
     (case storage t of
        ArrowDecimal128 precision scl \<Rightarrow>
          (case (case v of LInt x \<Rightarrow> Some (itoa x) | LFloat x \<Rightarrow> Some (lb_FormatFloat L x) | _ \<Rightarrow> None) of
             None \<Rightarrow> None
           | Some s \<Rightarrow>
               let whole = takeWhile (\<lambda>c. c \<noteq> CHR ''.'') s; frac = drop (Suc (length whole)) s in
               if int (length frac) > scl then None
               else (case bigint_SetString (whole @ frac @ replicate (nat (scl - int (length frac))) (CHR ''0'')) of
                       None \<Rightarrow> None
                     | Some unscaled \<Rightarrow> if \<bar>unscaled\<bar> \<ge> 10 ^ nat precision then None else Some (unscaled, storage t)))
      | _ \<Rightarrow> None)"

text \<open>Conversion of an integer to \<^term>\<open>w\<close> bits.\<close>

definition int_bits :: "nat \<Rightarrow> int \<Rightarrow> int" where
  "int_bits w x = (x + 2 ^ (w - 1)) mod 2 ^ w - 2 ^ (w - 1)"

text \<open>Only a literal that is a decimal of the type is boxed as one.\<close>

definition newLiteralNode :: "lib \<Rightarrow> literal \<Rightarrow> value_type \<Rightarrow> node" where
  "newLiteralNode L v t =
     (if vt_logical t = ''decimal'' then
        (case decimalLiteral L v t of Some (n, dt) \<Rightarrow> LiteralNode dt (CDecimal n) | None \<Rightarrow> LiteralNode (ArrowDecimal128 0 0) (CDecimal 0))
      else case v of
        LString x \<Rightarrow> LiteralNode ArrowString (CString x)
      | LBool x \<Rightarrow> LiteralNode ArrowBoolean (CBool x)
      | LInt x \<Rightarrow>
          (if vt_logical t = ''int16'' then LiteralNode ArrowInt16 (CInt16 (int_bits 16 x))
           else if vt_logical t = ''int32'' then LiteralNode ArrowInt32 (CInt32 (int_bits 32 x))
           else if vt_logical t = ''float32'' then LiteralNode ArrowFloat32 (CFloat32 (lb_Float32OfInt L x))
           else if vt_logical t = ''float64'' then LiteralNode ArrowFloat64 (CFloat64 (lb_Float64OfInt L x))
           else LiteralNode ArrowInt64 (CInt64 x))
      | LFloat x \<Rightarrow>
          (if vt_logical t = ''float32'' then LiteralNode ArrowFloat32 (CFloat32 (lb_Float32OfFloat64 L x))
           else LiteralNode ArrowFloat64 (CFloat64 x)))"

section \<open>The compiler\<close>

record compiler =
  cp_layout :: schema
  cp_ops :: "op list"
  cp_errs :: "issue list"
  cp_types :: "(path \<times> logical_type) list"

definition addf :: "path \<Rightarrow> string \<Rightarrow> compiler \<Rightarrow> compiler" where
  "addf p msg c = c\<lparr>cp_errs := cp_errs c @ [\<lparr>is_Path = p, is_Message = msg\<rparr>]\<rparr>"

definition recordType :: "path \<Rightarrow> logical_type \<Rightarrow> compiler \<Rightarrow> compiler" where
  "recordType p t c =
     c\<lparr>cp_types := (if p \<in> fst ` set (cp_types c) then map (\<lambda>(q, l). (q, if q = p then t else l)) (cp_types c)
                   else cp_types c @ [(p, t)])\<rparr>"

fun field_index :: "string \<Rightarrow> field list \<Rightarrow> nat option" where
  "field_index name [] = None"
| "field_index name (f # fs) = (if fd_Name f = name then Some 0 else map_option Suc (field_index name fs))"

definition compiler_index :: "compiler \<Rightarrow> string \<Rightarrow> nat option" where
  "compiler_index c name = field_index name (sc_Fields (cp_layout c))"

definition literalType :: "literal \<Rightarrow> logical_type" where
  "literalType v = (case v of LString _ \<Rightarrow> LogicalString | LInt _ \<Rightarrow> LogicalInt64 | LFloat _ \<Rightarrow> ''float64'' | LBool _ \<Rightarrow> LogicalBool)"

definition coercible :: "lib \<Rightarrow> literal \<Rightarrow> value_type \<Rightarrow> bool" where
  "coercible L v t =
     (if vt_logical t = ''decimal'' then decimalLiteral L v t \<noteq> None
      else case v of
        LInt x \<Rightarrow>
          (if vt_logical t = ''int16'' then - (2 ^ 15) \<le> x \<and> x < 2 ^ 15
           else if vt_logical t = ''int32'' then - (2 ^ 31) \<le> x \<and> x < 2 ^ 31
           else vt_logical t \<in> {''int64'', ''float32'', ''float64''})
      | LFloat _ \<Rightarrow> vt_logical t \<in> {''float32'', ''float64''}
      | _ \<Rightarrow> False)"

fun coerce_from :: "lib \<Rightarrow> function_spec \<Rightarrow> value_type \<Rightarrow> nat \<Rightarrow> (node \<times> arg_type) list \<Rightarrow> (node \<times> arg_type) list" where
  "coerce_from L spec target i [] = []"
| "coerce_from L spec target i ((n, x) # rest) =
     (case at_value x of
        Some v \<Rightarrow>
          if as_Literal (argSpec spec i) \<or> at_type x = target \<or> \<not> coercible L v target then (n, x)
          else (newLiteralNode L v target, x\<lparr>at_type := target\<rparr>)
      | None \<Rightarrow> (n, x)) # coerce_from L spec target (Suc i) rest"

definition coerceLiterals :: "lib \<Rightarrow> function_spec \<Rightarrow> (node \<times> arg_type) list \<Rightarrow> (node \<times> arg_type) list" where
  "coerceLiterals L spec args =
     (let target = value_target spec 0 (map snd args) in
      if vt_logical target = LogicalUnknown then args else coerce_from L spec target 0 args)"

fun record_args :: "path \<Rightarrow> string \<Rightarrow> nat \<Rightarrow> arg_type list \<Rightarrow> compiler \<Rightarrow> compiler" where
  "record_args p fname i [] c = c"
| "record_args p fname i (x # xs) c = record_args p fname (Suc i) xs (recordType (p @ [PField fname, PIndex i]) (vt_logical (at_type x)) c)"

text \<open>The call once its arguments compiled.\<close>

definition compile_call :: "lib \<Rightarrow> path \<Rightarrow> string \<Rightarrow> catalog_function \<Rightarrow> (node \<times> arg_type) list \<Rightarrow> compiler \<Rightarrow>
    compiler \<times> (node \<times> arg_type) option" where
  "compile_call L p fname fn args c =
     (let spec = fn_spec fn;
          args' = (if fs_SameType spec then coerceLiterals L spec args else args);
          types = map snd args';
          c' = (if fs_SameType spec then record_args p fname 0 types c else c)
      in case check L fn types of
           Inl e \<Rightarrow> (addf (case ce_index e of None \<Rightarrow> p | Some i \<Rightarrow> p @ [PField fname, PIndex i]) (ce_message e) c', None)
         | Inr ret \<Rightarrow> (recordType p (vt_logical ret) c',
             Some (CallNode (fn\<lparr>fn_exec := bound_exec fn types\<rparr>) (map fst args'), \<lparr>at_type = ret, at_value = None\<rparr>)))"

fun compile_expr :: "lib \<Rightarrow> path \<Rightarrow> expr \<Rightarrow> compiler \<Rightarrow> compiler \<times> (node \<times> arg_type) option"
  and compile_args :: "lib \<Rightarrow> path \<Rightarrow> string \<Rightarrow> nat \<Rightarrow> expr list \<Rightarrow> compiler \<Rightarrow> compiler \<times> (node \<times> arg_type) option list" where
  "compile_expr L p (ELit v) c =
     (let t = of_logical (literalType v) in
      (recordType p (vt_logical t) c, Some (newLiteralNode L v t, \<lparr>at_type = t, at_value = Some v\<rparr>)))"
| "compile_expr L p (ECol col) c =
     (if col = [] then (addf p ''unknown function'' c, None)
      else case compiler_index c col of
        None \<Rightarrow> (addf p ''unknown column'' c, None)
      | Some i \<Rightarrow>
          let t = typeOf (sc_Fields (cp_layout c) ! i) in
          (recordType p (vt_logical t) c, Some (ColNode i, \<lparr>at_type = t, at_value = None\<rparr>)))"
| "compile_expr L p (EFn fname args) c =
     (case catalogByName fname of
        None \<Rightarrow> (addf p ''unknown function'' c, None)
      | Some fn \<Rightarrow>
          let (c', rs) = compile_args L p fname 0 args c in
          if list_ex Option.is_none rs then (c', None) else compile_call L p fname fn (map the rs) c')"
| "compile_args L p fname i [] c = (c, [])"
| "compile_args L p fname i (e # es) c =
     (let (c', r) = compile_expr L (p @ [PField fname, PIndex i]) e c;
          (c'', rs) = compile_args L p fname (Suc i) es c'
      in (c'', r # rs))"

lemma list_ex_is_none [simp]: "list_ex Option.is_none rs \<longleftrightarrow> None \<in> set rs"
  by (auto simp: list_ex_iff Option.is_none_def)

section \<open>Steps\<close>

fun rename_entries :: "lib \<Rightarrow> path \<Rightarrow> (string \<times> string) list \<Rightarrow> compiler \<Rightarrow> (string \<times> nat) list \<Rightarrow> compiler \<times> (string \<times> nat) list" where
  "rename_entries L p [] c renamed = (c, renamed)"
| "rename_entries L p ((old, new) # rest) c renamed =
     (case compiler_index c old of
        None \<Rightarrow> rename_entries L p rest (addf (p @ [PKey old]) ''unknown column'' c) renamed
      | Some i \<Rightarrow>
          if old \<in> set (sc_PrimaryKey (cp_layout c)) then rename_entries L p rest (addf (p @ [PKey old]) ''cannot rename primary key column'' c) renamed
          else if IsReservedColumn (lb_ToLower L) new then rename_entries L p rest (addf (p @ [PKey old]) ''column is reserved'' c) renamed
          else if compiler_index c new \<noteq> None \<or> new \<in> fst ` set renamed then rename_entries L p rest (addf (p @ [PKey old]) ''column already exists'' c) renamed
          else rename_entries L p rest c (renamed @ [(new, i)]))"

definition rename_field :: "string \<times> nat \<Rightarrow> field list \<Rightarrow> field list" where
  "rename_field r fs = fs[snd r := (fs ! snd r)\<lparr>fd_Name := fst r\<rparr>]"

definition set_fields :: "field list \<Rightarrow> compiler \<Rightarrow> compiler" where
  "set_fields fs c = c\<lparr>cp_layout := (cp_layout c)\<lparr>sc_Fields := fs\<rparr>\<rparr>"

definition compile_rename :: "lib \<Rightarrow> path \<Rightarrow> (string \<times> string) list \<Rightarrow> compiler \<Rightarrow> compiler" where
  "compile_rename L p m c =
     (let (c', renamed) = rename_entries L p (sort_key fst m) c [] in
      set_fields (fold rename_field renamed (sc_Fields (cp_layout c'))) c')"

definition delete_at :: "nat \<Rightarrow> 'a list \<Rightarrow> 'a list" where
  "delete_at i xs = take i xs @ drop (Suc i) xs"

fun compile_drop :: "path \<Rightarrow> nat \<Rightarrow> string list \<Rightarrow> compiler \<Rightarrow> compiler" where
  "compile_drop p j [] c = c"
| "compile_drop p j (name # names) c =
     (case compiler_index c name of
        None \<Rightarrow> compile_drop p (Suc j) names (addf (p @ [PIndex j]) ''unknown column'' c)
      | Some i \<Rightarrow>
          if name \<in> set (sc_PrimaryKey (cp_layout c)) then compile_drop p (Suc j) names (addf (p @ [PIndex j]) ''cannot drop primary key column'' c)
          else compile_drop p (Suc j) names
                 ((set_fields (delete_at i (sc_Fields (cp_layout c))) c)\<lparr>cp_ops := cp_ops c @ [DropOp i]\<rparr>))"

text \<open>The entries of a compute step: their nodes and the columns they assign.\<close>

fun compute_entries :: "lib \<Rightarrow> path \<Rightarrow> bool \<Rightarrow> (string \<times> expr) list \<Rightarrow> compiler \<Rightarrow> compiler \<times> (nat option \<times> node \<times> field) list" where
  "compute_entries L p wh [] c = (c, [])"
| "compute_entries L p wh ((name, e) # rest) c =
     (let ep = p @ [PField ''compute'', PKey name] in
      if IsReservedColumn (lb_ToLower L) name then compute_entries L p wh rest (addf ep ''column is reserved'' c)
      else if name \<in> set (sc_PrimaryKey (cp_layout c)) then compute_entries L p wh rest (addf ep ''cannot compute onto primary key column'' c)
      else case compile_expr L ep e c of
        (c', None) \<Rightarrow> compute_entries L p wh rest c'
      | (c', Some (n, x)) \<Rightarrow>
          let idx = compiler_index c' name;
              clash = (case idx of None \<Rightarrow> False | Some i \<Rightarrow> wh \<and> typeOf (sc_Fields (cp_layout c') ! i) \<noteq> at_type x)
          in if clash then compute_entries L p wh rest (addf ep ''where cannot change type'' c')
             else let (c'', es) = compute_entries L p wh rest c' in
               (c'', (idx, n, \<lparr>fd_Name = name, fd_Nullable = True, fd_Logical = vt_logical (at_type x), fd_Native = [],
                  fd_Precision = vt_precision (at_type x), fd_Scale = vt_scale (at_type x)\<rparr>) # es))"

definition assign :: "nat option \<times> 'a \<Rightarrow> 'a list \<Rightarrow> 'a list" where
  "assign a xs = (case fst a of None \<Rightarrow> xs @ [snd a] | Some i \<Rightarrow> xs[i := snd a])"

text \<open>The condition of a compute step: none, a node, or nothing to go on with.\<close>

definition compile_where :: "lib \<Rightarrow> path \<Rightarrow> expr option \<Rightarrow> compiler \<Rightarrow> compiler \<times> node option option" where
  "compile_where L p wh c =
     (case wh of
        None \<Rightarrow> (c, Some None)
      | Some e \<Rightarrow>
          (case compile_expr L (p @ [PField ''where'']) e c of
             (c', None) \<Rightarrow> (c', None)
           | (c', Some (n, x)) \<Rightarrow>
               if vt_logical (at_type x) \<noteq> LogicalBool then (addf (p @ [PField ''where'']) ''expects a bool'' c', None)
               else (c', Some (Some n))))"

definition compile_compute :: "lib \<Rightarrow> path \<Rightarrow> (string \<times> expr) list \<Rightarrow> expr option \<Rightarrow> compiler \<Rightarrow> compiler" where
  "compile_compute L p entries wh c =
     (case compile_where L p wh c of
        (c', None) \<Rightarrow> c'
      | (c', Some w) \<Rightarrow>
          let (c'', es) = compute_entries L p (wh \<noteq> None) (sort_key fst entries) c' in
          if length es = 0 then c''
          else (set_fields (fold assign (map (\<lambda>(i, n, f). (i, f)) es) (sc_Fields (cp_layout c''))) c'')
                 \<lparr>cp_ops := cp_ops c'' @ [ComputeOp w (map (\<lambda>(i, n, f). (i, n)) es)]\<rparr>)"

definition compile_step :: "lib \<Rightarrow> path \<Rightarrow> step \<Rightarrow> compiler \<Rightarrow> compiler" where
  "compile_step L p st c =
     (case st_Rename st of
        Some m \<Rightarrow> compile_rename L (p @ [PField ''rename'']) m c
      | None \<Rightarrow> (case st_Drop st of
          Some names \<Rightarrow> compile_drop (p @ [PField ''drop'']) 0 names c
        | None \<Rightarrow> (case st_Compute st of
            Some entries \<Rightarrow> compile_compute L p entries (st_Where st) c
          | None \<Rightarrow> c)))"

fun compile_steps :: "lib \<Rightarrow> string \<Rightarrow> nat \<Rightarrow> step list \<Rightarrow> compiler \<Rightarrow> compiler" where
  "compile_steps L res i [] c = c"
| "compile_steps L res i (st # sts) c =
     compile_steps L res (Suc i) sts (compile_step L [PField ''resources'', PKey res, PField ''steps'', PIndex i] st c)"

section \<open>Plans\<close>

record plan =
  pl_in :: schema
  pl_out :: schema
  pl_arrowOut :: arrow_schema
  pl_ops :: "op list"

definition newPlan :: "schema \<Rightarrow> schema \<Rightarrow> op list \<Rightarrow> plan" where
  "newPlan inp out ops = \<lparr>pl_in = inp, pl_out = out, pl_arrowOut = ArrowBatch.Schema out, pl_ops = ops\<rparr>"

record analysis =
  an_Types :: "(path \<times> logical_type) list"
  an_Layout :: schema

definition run_compiler :: "lib \<Rightarrow> def_doc \<Rightarrow> schema \<Rightarrow> compiler" where
  "run_compiler L def inp =
     (let c = \<lparr>cp_layout = inp, cp_ops = [], cp_errs = [], cp_types = []\<rparr> in
      case map_of (df_Resources def) (sc_Resource inp) of
        Some steps \<Rightarrow> compile_steps L (sc_Resource inp) 0 steps c
      | None \<Rightarrow> c)"

definition Analyze :: "lib \<Rightarrow> def_doc \<Rightarrow> schema \<Rightarrow> analysis \<times> (issue list + plan)" where
  "Analyze L def inp =
     (let c = run_compiler L def inp in
      (\<lparr>an_Types = cp_types c, an_Layout = cp_layout c\<rparr>,
       if cp_errs c \<noteq> [] then Inl (cp_errs c) else Inr (newPlan inp (cp_layout c) (cp_ops c))))"

definition Compile :: "lib \<Rightarrow> def_doc \<Rightarrow> schema \<Rightarrow> issue list + plan" where
  "Compile L def inp = snd (Analyze L def inp)"

section \<open>The interpreter\<close>

record frame =
  fr_rows :: nat
  fr_cols :: "arr list"

fun eval :: "lib \<Rightarrow> node \<Rightarrow> frame \<Rightarrow> datum res"
  and eval_args :: "lib \<Rightarrow> node list \<Rightarrow> frame \<Rightarrow> datum list res" where
  "eval L (ColNode i) f = (if i < length (fr_cols f) then Inr (DArray (fr_cols f ! i)) else Inl (ErrPanic ''index out of range''))"
| "eval L (LiteralNode t c) f = Inr (DScalar t c)"
| "eval L (CallNode fn args) f =
     bind_res (eval_args L args f) (\<lambda>ds. case fn_exec fn of Some k \<Rightarrow> k L ds | None \<Rightarrow> Inl (ErrPanic ''nil function''))"
| "eval_args L [] f = Inr []"
| "eval_args L (n # ns) f = bind_res (eval L n f) (\<lambda>d. bind_res (eval_args L ns f) (\<lambda>ds. Inr (d # ds)))"

definition evalArray :: "lib \<Rightarrow> node \<Rightarrow> frame \<Rightarrow> arr res" where
  "evalArray L n f = bind_res (eval L n f) (\<lambda>d. asArray L d (fr_rows f))"

definition eval_mask :: "lib \<Rightarrow> node option \<Rightarrow> frame \<Rightarrow> cell list option res" where
  "eval_mask L w f =
     (case w of
        None \<Rightarrow> Inr None
      | Some n \<Rightarrow> bind_res (evalArray L n f) (\<lambda>m.
          if ar_type m = ArrowBoolean then Inr (Some (ar_cells m)) else Inl (ErrPanic ''interface conversion'')))"

definition entry_value :: "lib \<Rightarrow> cell list option \<Rightarrow> frame \<Rightarrow> nat option \<times> node \<Rightarrow> arr res" where
  "entry_value L m f e =
     bind_res (evalArray L (snd e) f) (\<lambda>a.
       case m of
         None \<Rightarrow> Inr a
       | Some sel \<Rightarrow>
           (case fst e of
              None \<Rightarrow> IfElse L sel a (lb_MakeArrayOfNull L (ar_type a) (fr_rows f))
            | Some i \<Rightarrow> if i < length (fr_cols f) then IfElse L sel a (fr_cols f ! i) else Inl (ErrPanic ''index out of range'')))"

fun entry_values :: "lib \<Rightarrow> cell list option \<Rightarrow> frame \<Rightarrow> (nat option \<times> node) list \<Rightarrow> arr list res" where
  "entry_values L m f [] = Inr []"
| "entry_values L m f (e # es) = bind_res (entry_value L m f e) (\<lambda>a. bind_res (entry_values L m f es) (\<lambda>as. Inr (a # as)))"

definition op_apply :: "lib \<Rightarrow> op \<Rightarrow> frame \<Rightarrow> frame res" where
  "op_apply L x f =
     (case x of
        DropOp i \<Rightarrow> if i < length (fr_cols f) then Inr (f\<lparr>fr_cols := delete_at i (fr_cols f)\<rparr>) else Inl (ErrPanic ''index out of range'')
      | ComputeOp w es \<Rightarrow>
          bind_res (eval_mask L w f) (\<lambda>m. bind_res (entry_values L m f es) (\<lambda>outs.
            Inr (f\<lparr>fr_cols := fold assign (zip (map fst es) outs) (fr_cols f)\<rparr>))))"

fun run_ops :: "lib \<Rightarrow> op list \<Rightarrow> frame \<Rightarrow> frame res" where
  "run_ops L [] f = Inr f"
| "run_ops L (x # xs) f = bind_res (op_apply L x f) (run_ops L xs)"

definition checkInput :: "plan \<Rightarrow> arrow_schema \<Rightarrow> goerr option" where
  "checkInput p s =
     (if length s < length (sc_Fields (pl_in p)) then Some (ErrMsg ''transform: record has too few columns'')
      else if list_all2 (\<lambda>f a. af_Name a = fd_Name f) (sc_Fields (pl_in p)) (take (length (sc_Fields (pl_in p))) s) then None
      else Some (ErrMsg ''transform: column name differs''))"

definition outputSchema :: "plan \<Rightarrow> arrow_schema \<Rightarrow> arrow_schema" where
  "outputSchema p s =
     (if length s = length (sc_Fields (pl_in p)) then pl_arrowOut p
      else pl_arrowOut p @ drop (length (sc_Fields (pl_in p))) s)"

text \<open>The arrays of a record batch; a panic passes through the wrapping of errors.\<close>

definition batch_columns :: "record_batch \<Rightarrow> arr list" where
  "batch_columns r = map2 (\<lambda>f cs. \<lparr>ar_type = af_Type f, ar_cells = cs\<rparr>) (rb_Schema r) (rb_Columns r)"

definition wrap_transform :: "'a res \<Rightarrow> 'a res" where
  "wrap_transform r = (case r of Inl (ErrPanic m) \<Rightarrow> Inl (ErrPanic m) | Inl e \<Rightarrow> Inl (ErrWrap ''transform'' e) | Inr a \<Rightarrow> Inr a)"

definition Apply :: "lib \<Rightarrow> plan \<Rightarrow> record_batch \<Rightarrow> record_batch res" where
  "Apply L p r =
     (case checkInput p (rb_Schema r) of
        Some e \<Rightarrow> Inl e
      | None \<Rightarrow>
          let n = length (sc_Fields (pl_in p)); cols = batch_columns r in
          bind_res (wrap_transform (run_ops L (pl_ops p) \<lparr>fr_rows = rb_NumRows r, fr_cols = take n cols\<rparr>)) (\<lambda>f.
            lb_NewRecordBatch L (outputSchema p (rb_Schema r)) (fr_cols f @ drop n cols) (rb_NumRows r)))"

section \<open>A compiled expression evaluates\<close>

text \<open>A frame holds the columns of a layout.\<close>

definition frame_ok :: "field list \<Rightarrow> frame \<Rightarrow> bool" where
  "frame_ok fs f \<longleftrightarrow> list_all2 (\<lambda>fd a. arr_ok (fr_rows f) (Type fd) a) fs (fr_cols f)"

definition node_ok :: "lib \<Rightarrow> field list \<Rightarrow> node \<times> arg_type \<Rightarrow> bool" where
  "node_ok L fs nx \<longleftrightarrow> (\<forall>f. frame_ok fs f \<longrightarrow> returns (eval L (fst nx) f) (conforms (fr_rows f) (snd nx)))"

lemma storage_typeOf [simp]: "storage (typeOf fd) = Type fd"
  by (simp add: storage_def typeOf_def type_field_def Type_def)

lemma Type_typeOf: "typeOf fd = t \<Longrightarrow> Type fd = storage t"
  by auto

lemma Type_of_value:
  "Type \<lparr>fd_Name = m, fd_Nullable = b, fd_Logical = vt_logical t, fd_Native = nv, fd_Precision = vt_precision t, fd_Scale = vt_scale t\<rparr> = storage t"
  by (simp add: storage_def type_field_def Type_def)

lemma newLiteralNode_ok:
  assumes "t = of_logical (literalType v) \<or> coercible L v t"
  shows "\<exists>c. newLiteralNode L v t = LiteralNode (storage t) c \<and> fits (storage t) c \<and> c \<noteq> CNull \<and> \<not> textDecimal t"
proof (cases "vt_logical t = ''decimal''")
  case True
  then have "coercible L v t" using assms by (auto simp: of_logical_def literalType_def split: literal.splits)
  then obtain n dt where d: "decimalLiteral L v t = Some (n, dt)" using True by (auto simp: coercible_def)
  then have "dt = storage t" "\<exists>a b. storage t = ArrowDecimal128 a b"
    by (auto simp: decimalLiteral_def Let_def split: arrow_type.splits option.splits if_splits)
  then show ?thesis using True d by (auto simp: newLiteralNode_def textDecimal_def)
next
  case False
  then have "\<not> textDecimal t" by (simp add: textDecimal_def)
  moreover have "\<exists>c. newLiteralNode L v t = LiteralNode (storage t) c \<and> fits (storage t) c \<and> c \<noteq> CNull"
    using assms False by (cases v) (auto simp: newLiteralNode_def coercible_def literalType_def of_logical_def storage_def Type_def type_field_def split: if_splits)
  ultimately show ?thesis by blast
qed

lemma literal_node_ok:
  assumes "t = of_logical (literalType v) \<or> coercible L v t"
  shows "node_ok L fs (newLiteralNode L v t, \<lparr>at_type = t, at_value = Some v\<rparr>)"
  using newLiteralNode_ok [OF assms] by (auto simp: node_ok_def conforms_def datum_ok_def is_column_def)

lemma coerce_from_ok: "list_all (node_ok L fs) args \<Longrightarrow> list_all (node_ok L fs) (coerce_from L spec t i args)"
proof (induction L spec t i args rule: coerce_from.induct)
  case (2 L spec target i n x rest)
  have "node_ok L fs (newLiteralNode L v target, x\<lparr>at_type := target\<rparr>)" if "at_value x = Some v" "coercible L v target" for v
    using literal_node_ok [of target v L fs] that by (cases x) simp
  then show ?case using 2 by (auto split: option.splits)
qed simp

lemma coerceLiterals_ok: "list_all (node_ok L fs) args \<Longrightarrow> list_all (node_ok L fs) (coerceLiterals L spec args)"
  by (simp add: coerceLiterals_def Let_def coerce_from_ok)

lemma eval_args_ok:
  "list_all (node_ok L fs) args \<Longrightarrow> frame_ok fs f \<Longrightarrow>
   returns (eval_args L (map fst args) f) (list_all2 (conforms (fr_rows f)) (map snd args))"
proof (induction args)
  case (Cons a args)
  have h: "returns (eval L (fst a) f) (conforms (fr_rows f) (snd a))" using Cons.prems by (simp add: node_ok_def)
  have hs: "returns (eval_args L (map fst args) f) (list_all2 (conforms (fr_rows f)) (map snd args))" using Cons by simp
  show ?case unfolding list.map eval_args.simps by (rule returns_bind [OF h], rule returns_bind [OF hs]) simp
qed simp

lemma call_ok:
  assumes L: "lib_ok L" and fn: "fn \<in> set catalog" and c: "check L fn (map snd args) = Inr ret" and args: "list_all (node_ok L fs) args"
  shows "node_ok L fs (CallNode (fn\<lparr>fn_exec := bound_exec fn (map snd args)\<rparr>) (map fst args), \<lparr>at_type = ret, at_value = None\<rparr>)"
  unfolding node_ok_def
proof (intro allI impI)
  fix f assume f: "frame_ok fs f"
  have "\<exists>k. bound_exec fn (map snd args) = Some k \<and> returns (k L ds) (column (fr_rows f) (storage ret))"
    if "list_all2 (conforms (fr_rows f)) (map snd args) ds" for ds
    using catalog_sound [OF L fn] c that unfolding sound_function_def by blast
  note k = this
  have "returns (case bound_exec fn (map snd args) of Some k \<Rightarrow> k L ds | None \<Rightarrow> Inl (ErrPanic ''nil function''))
      (conforms (fr_rows f) \<lparr>at_type = ret, at_value = None\<rparr>)"
    if "list_all2 (conforms (fr_rows f)) (map snd args) ds" for ds
    using k [OF that] by (auto elim!: returns_mono simp: column_def conforms_def datum_ok_def is_column_def)
  then show "returns (eval L (fst (CallNode (fn\<lparr>fn_exec := bound_exec fn (map snd args)\<rparr>) (map fst args), \<lparr>at_type = ret, at_value = None\<rparr>)) f)
      (conforms (fr_rows f) (snd (CallNode (fn\<lparr>fn_exec := bound_exec fn (map snd args)\<rparr>) (map fst args), \<lparr>at_type = ret, at_value = None\<rparr>)))"
    by (simp add: returns_bind [OF eval_args_ok [OF args f]])
qed

text \<open>What compiling an expression leaves alone: the layout and the operations.\<close>

definition same_plan :: "compiler \<Rightarrow> compiler \<Rightarrow> bool" where
  "same_plan c c' \<longleftrightarrow> cp_layout c' = cp_layout c \<and> cp_ops c' = cp_ops c"

lemma same_plan_simps [simp]:
  "same_plan c c" "same_plan c (addf p m d) = same_plan c d" "same_plan c (recordType p t d) = same_plan c d"
  "same_plan (addf p m c) d = same_plan c d" "cp_layout (addf p m c) = cp_layout c" "cp_ops (addf p m c) = cp_ops c"
  by (simp_all add: same_plan_def addf_def recordType_def)

lemma same_plan_record_args [simp]: "same_plan c (record_args p m i xs d) = same_plan c d"
  by (induction p m i xs d rule: record_args.induct) simp_all

lemma compile_call_ok:
  assumes "lib_ok L" "fn \<in> set catalog" "list_all (node_ok L fs) args" "compile_call L p m fn args c = (c', r)"
  shows "same_plan c c' \<and> pred_option (node_ok L fs) r"
  using assms(4) call_ok [OF assms(1,2) _ coerceLiterals_ok [OF assms(3)], of "fn_spec fn"] call_ok [OF assms(1,2) _ assms(3)]
  by (auto simp: compile_call_def Let_def split: sum.splits if_splits)

lemma field_index_Some: "field_index name fs = Some i \<Longrightarrow> i < length fs \<and> fd_Name (fs ! i) = name \<and> name \<notin> (\<lambda>f. fd_Name f) ` set (take i fs)"
  by (induction fs arbitrary: i) (auto split: if_splits)

lemma field_index_None: "field_index name fs = None \<longleftrightarrow> name \<notin> (\<lambda>f. fd_Name f) ` set fs"
  by (induction fs) auto

lemma compile_expr_ok:
  shows "lib_ok L \<Longrightarrow> compile_expr L p e c = (c', r) \<Longrightarrow> same_plan c c' \<and> pred_option (node_ok L (sc_Fields (cp_layout c))) r"
    and "lib_ok L \<Longrightarrow> compile_args L p m i es c = (c'', rs) \<Longrightarrow> same_plan c c'' \<and> list_all (pred_option (node_ok L (sc_Fields (cp_layout c)))) rs"
proof (induction L p e c and L p m i es c arbitrary: c' r and c'' rs rule: compile_expr_compile_args.induct)
  case (1 L p v c)
  then show ?case using literal_node_ok [of "of_logical (literalType v)" v L] by (auto simp: Let_def)
next
  case (2 L p col c)
  have "node_ok L fs (ColNode j, \<lparr>at_type = typeOf (fs ! j), at_value = None\<rparr>)" if "j < length fs" for j fs
    using that by (auto simp: node_ok_def frame_ok_def conforms_def datum_ok_def is_column_def list_all2_conv_all_nth)
  with 2 show ?case
    by (auto simp: Let_def compiler_index_def split: if_splits option.splits dest!: field_index_Some)
next
  case (3 L p fname args c)
  show ?case
  proof (cases "catalogByName fname")
    case (Some fn)
    obtain d ds where d: "compile_args L p fname 0 args c = (d, ds)" by fastforce
    have IH: "same_plan c d \<and> list_all (pred_option (node_ok L (sc_Fields (cp_layout c)))) ds" using "3.IH" [OF Some "3.prems"(1) d] .
    have args: "list_all (node_ok L (sc_Fields (cp_layout c))) (map the ds)" if "None \<notin> set ds"
      using IH that by (auto simp: list_all_iff option.pred_set) (metis option.sel option.set_intros not_None_eq)
    show ?thesis
    proof (cases "None \<in> set ds")
      case False
      then have "compile_call L p fname fn (map the ds) d = (c', r)" using "3.prems" Some d by simp
      from compile_call_ok [OF "3.prems"(1) _ args [OF False] this] show ?thesis
        using catalogByName_in [OF Some] IH by (auto simp: same_plan_def)
    qed (use "3.prems" Some d IH in auto)
  qed (use 3 in auto)
next
  case (5 L p fname i e es c)
  obtain d r where d: "compile_expr L (p @ [PField fname, PIndex i]) e c = (d, r)" by fastforce
  obtain d' rs' where d': "compile_args L p fname (Suc i) es d = (d', rs')" by fastforce
  note h = "5.IH"(1) [OF "5.prems"(1) d] "5.IH"(2) [OF d [symmetric] refl "5.prems"(1) d']
  have "c'' = d'" "rs = r # rs'" using "5.prems"(2) d d' by simp_all
  with h show ?case by (simp add: same_plan_def)
qed simp

section \<open>A compiled step applies\<close>

text \<open>
  Operations that take frames of one layout to frames of another, row for row, and carry the columns
  named by the keys across.
\<close>

definition carries :: "lib \<Rightarrow> string set \<Rightarrow> field list \<Rightarrow> op list \<Rightarrow> field list \<Rightarrow> bool" where
  "carries L keys fs ops fs' \<longleftrightarrow>
     (\<forall>f. frame_ok fs f \<longrightarrow> returns (run_ops L ops f) (\<lambda>f'. frame_ok fs' f' \<and> fr_rows f' = fr_rows f \<and>
        (\<forall>k \<in> keys. \<forall>i. field_index k fs = Some i \<longrightarrow>
           (\<exists>j. field_index k fs' = Some j \<and> fs' ! j = fs ! i \<and> fr_cols f' ! j = fr_cols f ! i))))"

lemma run_ops_append: "run_ops L (xs @ ys) f = bind_res (run_ops L xs f) (run_ops L ys)"
proof (induction xs arbitrary: f)
  case (Cons x xs)
  then show ?case by (cases "op_apply L x f") simp_all
qed simp

lemma carries_refl: "carries L keys fs [] fs"
  by (simp add: carries_def)

lemma carries_append:
  assumes a: "carries L keys fs xs fs'" and b: "carries L keys fs' ys fs''"
  shows "carries L keys fs (xs @ ys) fs''"
  unfolding carries_def run_ops_append
proof (intro allI impI)
  fix f assume f: "frame_ok fs f"
  show "returns (bind_res (run_ops L xs f) (run_ops L ys)) (\<lambda>f'. frame_ok fs'' f' \<and> fr_rows f' = fr_rows f \<and>
        (\<forall>k \<in> keys. \<forall>i. field_index k fs = Some i \<longrightarrow>
           (\<exists>j. field_index k fs'' = Some j \<and> fs'' ! j = fs ! i \<and> fr_cols f' ! j = fr_cols f ! i)))"
  proof (rule returns_bind [OF a [unfolded carries_def, rule_format, OF f]], elim conjE)
    fix g assume g: "frame_ok fs' g" "fr_rows g = fr_rows f" and k: "\<forall>k \<in> keys. \<forall>i. field_index k fs = Some i \<longrightarrow>
           (\<exists>j. field_index k fs' = Some j \<and> fs' ! j = fs ! i \<and> fr_cols g ! j = fr_cols f ! i)"
    show "returns (run_ops L ys g) (\<lambda>f'. frame_ok fs'' f' \<and> fr_rows f' = fr_rows f \<and>
        (\<forall>k \<in> keys. \<forall>i. field_index k fs = Some i \<longrightarrow>
           (\<exists>j. field_index k fs'' = Some j \<and> fs'' ! j = fs ! i \<and> fr_cols f' ! j = fr_cols f ! i)))"
      by (rule returns_mono [OF b [unfolded carries_def, rule_format, OF g(1)]]) (use g(2) k in metis)
  qed
qed

lemma field_index_update:
  "fd_Name (fs ! i) \<noteq> k \<Longrightarrow> fd_Name g \<noteq> k \<Longrightarrow> field_index k (fs[i := g]) = field_index k fs"
  by (induction fs arbitrary: i) (auto split: nat.splits)

lemma field_index_append: "field_index k fs = Some i \<Longrightarrow> field_index k (fs @ gs) = Some i"
  by (induction fs arbitrary: i) auto

lemma field_index_delete:
  "i < length fs \<Longrightarrow> fd_Name (fs ! i) \<noteq> k \<Longrightarrow>
   field_index k (delete_at i fs) = map_option (\<lambda>j. if j < i then j else j - 1) (field_index k fs)"
proof (induction fs arbitrary: i)
  case (Cons f fs)
  show ?case
  proof (cases i)
    case 0
    then show ?thesis using Cons.prems by (cases "field_index k fs") (simp_all add: delete_at_def)
  next
    case (Suc i')
    then have "field_index k (delete_at i' fs) = map_option (\<lambda>j. if j < i' then j else j - 1) (field_index k fs)"
      using Cons by simp
    moreover have "j \<noteq> i'" if "field_index k fs = Some j" for j using field_index_Some [OF that] Cons.prems Suc by auto
    ultimately show ?thesis using Suc by (cases "field_index k fs") (auto simp: delete_at_def)
  qed
qed simp

lemma nth_delete_at: "i < length xs \<Longrightarrow> j < length xs \<Longrightarrow> j \<noteq> i \<Longrightarrow> delete_at i xs ! (if j < i then j else j - 1) = xs ! j"
  by (auto simp: delete_at_def nth_append min_def)

lemma delete_at_all2: "list_all2 P xs ys \<Longrightarrow> list_all2 P (delete_at i xs) (delete_at i ys)"
  by (auto simp: delete_at_def intro!: list_all2_appendI list_all2_takeI list_all2_dropI)

lemma drop_carries:
  assumes i: "i < length fs" "fd_Name (fs ! i) \<notin> keys"
  shows "carries L keys fs [DropOp i] (delete_at i fs)"
  unfolding carries_def
proof (intro allI impI)
  fix f assume f: "frame_ok fs f"
  then have len: "length (fr_cols f) = length fs" by (simp add: frame_ok_def list_all2_lengthD)
  have k: "\<exists>j'. field_index k (delete_at i fs) = Some j' \<and> delete_at i fs ! j' = fs ! j \<and> delete_at i (fr_cols f) ! j' = fr_cols f ! j"
    if "k \<in> keys" "field_index k fs = Some j" for k j
  proof -
    have j: "j < length fs" "fd_Name (fs ! j) = k" using field_index_Some [OF that(2)] by auto
    then have ji: "j \<noteq> i" and n: "fd_Name (fs ! i) \<noteq> k" using i that(1) by auto
    have "field_index k (delete_at i fs) = Some (if j < i then j else j - 1)" using field_index_delete [OF i(1) n] that(2) by simp
    moreover have "delete_at i fs ! (if j < i then j else j - 1) = fs ! j" "delete_at i (fr_cols f) ! (if j < i then j else j - 1) = fr_cols f ! j"
      using nth_delete_at [of i fs j] nth_delete_at [of i "fr_cols f" j] ji j(1) i(1) len by simp_all
    ultimately show ?thesis by blast
  qed
  show "returns (run_ops L [DropOp i] f) (\<lambda>f'. frame_ok (delete_at i fs) f' \<and> fr_rows f' = fr_rows f \<and>
        (\<forall>k \<in> keys. \<forall>j. field_index k fs = Some j \<longrightarrow>
           (\<exists>j'. field_index k (delete_at i fs) = Some j' \<and> delete_at i fs ! j' = fs ! j \<and> fr_cols f' ! j' = fr_cols f ! j)))"
    using f k i len by (simp add: op_apply_def frame_ok_def delete_at_all2)
qed

lemma rename_carries:
  assumes "\<And>new i. (new, i) \<in> set renamed \<Longrightarrow> i < length fs \<and> new \<notin> keys \<and> fd_Name (fs ! i) \<notin> keys"
  shows "carries L keys fs [] (fold rename_field renamed fs)"
  using assms
proof (induction renamed arbitrary: fs)
  case (Cons r renamed)
  obtain new i where r: "r = (new, i)" by fastforce
  let ?fs = "rename_field r fs"
  have i: "i < length fs" "new \<notin> keys" "fd_Name (fs ! i) \<notin> keys" using Cons.prems [of new i] r by auto
  have T: "Type (?fs ! j) = Type (fs ! j)" and len: "length ?fs = length fs" for j
    using i r by (auto simp: rename_field_def Type_def nth_list_update)
  have idx: "field_index k ?fs = field_index k fs" if "k \<in> keys" for k
  proof -
    have "fd_Name (fs ! i) \<noteq> k" "new \<noteq> k" using i that by auto
    then show ?thesis using r by (simp add: rename_field_def field_index_update)
  qed
  have same: "?fs ! j = fs ! j" if "k \<in> keys" "field_index k fs = Some j" for k j
  proof -
    have "i \<noteq> j" using field_index_Some [OF that(2)] i that(1) by auto
    then show ?thesis using r by (simp add: rename_field_def)
  qed
  have one: "carries L keys fs [] ?fs"
    using T len idx same by (auto simp: carries_def frame_ok_def list_all2_conv_all_nth)
  have "carries L keys ?fs [] (fold rename_field renamed ?fs)"
  proof (rule Cons.IH)
    fix new' i' assume r': "(new', i') \<in> set renamed"
    then have "i' < length fs \<and> new' \<notin> keys \<and> fd_Name (fs ! i') \<notin> keys" using Cons.prems by auto
    then show "i' < length ?fs \<and> new' \<notin> keys \<and> fd_Name (?fs ! i') \<notin> keys"
      using i r by (auto simp: rename_field_def nth_list_update)
  qed
  from carries_append [OF one this] show ?case by simp
qed (simp add: carries_refl)

lemma carries_present:
  assumes "carries L {k \<in> keys. field_index k fs \<noteq> None} fs ops fs'"
  shows "carries L keys fs ops fs'"
  unfolding carries_def
proof (intro allI impI)
  fix f assume "frame_ok fs f"
  from assms [unfolded carries_def, rule_format, OF this]
  show "returns (run_ops L ops f) (\<lambda>f'. frame_ok fs' f' \<and> fr_rows f' = fr_rows f \<and>
        (\<forall>k \<in> keys. \<forall>i. field_index k fs = Some i \<longrightarrow>
           (\<exists>j. field_index k fs' = Some j \<and> fs' ! j = fs ! i \<and> fr_cols f' ! j = fr_cols f ! i)))"
    by (rule returns_mono) simp
qed

text \<open>A rename the compiler accepted: not of a key, and to a name that is free.\<close>

definition rename_ok :: "schema \<Rightarrow> string \<times> nat \<Rightarrow> bool" where
  "rename_ok s r \<longleftrightarrow> snd r < length (sc_Fields s) \<and> fd_Name (sc_Fields s ! snd r) \<notin> set (sc_PrimaryKey s) \<and> field_index (fst r) (sc_Fields s) = None"

lemma rename_entries_ok:
  "rename_entries L p m c renamed = (c', renamed') \<Longrightarrow> list_all (rename_ok (cp_layout c)) renamed \<Longrightarrow>
   same_plan c c' \<and> list_all (rename_ok (cp_layout c)) renamed'"
proof (induction L p m c renamed arbitrary: c' renamed' rule: rename_entries.induct)
  case (2 L p old new rest c renamed)
  show ?case
  proof (cases "compiler_index c old")
    case None
    then show ?thesis using 2 by simp
  next
    case (Some i)
    then have i: "i < length (sc_Fields (cp_layout c))" "fd_Name (sc_Fields (cp_layout c) ! i) = old"
      using field_index_Some unfolding compiler_index_def by auto
    show ?thesis
      using 2 Some i by (auto simp: rename_ok_def compiler_index_def split: if_splits)
  qed
qed simp

definition step_ok :: "lib \<Rightarrow> compiler \<Rightarrow> compiler \<Rightarrow> bool" where
  "step_ok L c c' \<longleftrightarrow>
     sc_PrimaryKey (cp_layout c') = sc_PrimaryKey (cp_layout c) \<and>
     (\<exists>ops. cp_ops c' = cp_ops c @ ops \<and>
       carries L (set (sc_PrimaryKey (cp_layout c))) (sc_Fields (cp_layout c)) ops (sc_Fields (cp_layout c')))"

lemma step_ok_trans:
  assumes "step_ok L c c'" "step_ok L c' c''"
  shows "step_ok L c c''"
  using assms carries_append unfolding step_ok_def by fastforce

lemma step_ok_same: "same_plan c c' \<Longrightarrow> step_ok L c c'"
  by (simp add: step_ok_def same_plan_def carries_refl)

lemma compile_rename_ok: "step_ok L c (compile_rename L p m c)"
proof -
  obtain d renamed where r: "rename_entries L p (sort_key fst m) c [] = (d, renamed)" by fastforce
  let ?s = "cp_layout c"
  have d: "same_plan c d" "list_all (rename_ok ?s) renamed" using rename_entries_ok [OF r] by simp_all
  have "carries L {k \<in> set (sc_PrimaryKey ?s). field_index k (sc_Fields ?s) \<noteq> None} (sc_Fields ?s) [] (fold rename_field renamed (sc_Fields ?s))"
    by (rule rename_carries) (use d(2) in \<open>fastforce simp: list_all_iff rename_ok_def\<close>)
  from carries_present [OF this] show ?thesis
    using d(1) r by (simp add: compile_rename_def set_fields_def same_plan_def step_ok_def)
qed

lemma compile_drop_ok: "step_ok L c (compile_drop p j names c)"
proof (induction p j names c rule: compile_drop.induct)
  case (2 p j name names c)
  have add: "step_ok L c d" if "step_ok L (addf q msg c) d" for q msg d
    using that by (simp add: step_ok_def)
  show ?case
  proof (cases "compiler_index c name = None \<or> name \<in> set (sc_PrimaryKey (cp_layout c))")
    case True
    then show ?thesis using 2 add by (auto split: option.splits)
  next
    case False
    then obtain i where i: "compiler_index c name = Some i" and n: "name \<notin> set (sc_PrimaryKey (cp_layout c))" by auto
    let ?fs = "sc_Fields (cp_layout c)"
    let ?c = "(set_fields (delete_at i ?fs) c)\<lparr>cp_ops := cp_ops c @ [DropOp i]\<rparr>"
    have "i < length ?fs" "fd_Name (?fs ! i) = name" using field_index_Some i unfolding compiler_index_def by auto
    then have "carries L (set (sc_PrimaryKey (cp_layout c))) ?fs [DropOp i] (delete_at i ?fs)" using n by (intro drop_carries) auto
    then have "step_ok L c ?c" by (simp add: step_ok_def set_fields_def)
    from step_ok_trans [OF this 2(3) [OF i n]] show ?thesis using i n by simp
  qed
qed (simp add: step_ok_same)

text \<open>A compiled entry of a compute step.\<close>

definition entry_ok :: "lib \<Rightarrow> schema \<Rightarrow> bool \<Rightarrow> nat option \<times> node \<times> field \<Rightarrow> bool" where
  "entry_ok L s wh e \<longleftrightarrow> (case e of (idx, n, fld) \<Rightarrow>
     fd_Name fld \<notin> set (sc_PrimaryKey s) \<and> \<not> IsReservedColumn (lb_ToLower L) (fd_Name fld) \<and> idx = field_index (fd_Name fld) (sc_Fields s) \<and>
     (\<exists>x. node_ok L (sc_Fields s) (n, x) \<and> storage (at_type x) = Type fld) \<and>
     (wh \<longrightarrow> (\<forall>i. idx = Some i \<longrightarrow> Type (sc_Fields s ! i) = Type fld)))"

lemma compute_entries_ok:
  assumes L: "lib_ok L"
  shows "compute_entries L p wh m c = (c', es) \<Longrightarrow>
   same_plan c c' \<and> list_all (entry_ok L (cp_layout c) wh) es \<and> subseq (map (\<lambda>(i, n, f). fd_Name f) es) (map fst m)"
proof (induction m arbitrary: c c' es)
  case (Cons ne m)
  obtain name e where ne: "ne = (name, e)" by fastforce
  define ep where "ep = p @ [PField ''compute'', PKey name]"
  have skip: "same_plan c c' \<and> list_all (entry_ok L (cp_layout c) wh) es \<and> subseq (map (\<lambda>(i, n, f). fd_Name f) es) (map fst (ne # m))"
    if "same_plan c d" "compute_entries L p wh m d = (c', es)" for d
    using Cons.IH [OF that(2)] that(1) by (auto simp: same_plan_def)
  show ?case
  proof (cases "IsReservedColumn (lb_ToLower L) name \<or> name \<in> set (sc_PrimaryKey (cp_layout c))")
    case True
    then obtain msg where "compute_entries L p wh m (addf ep msg c) = (c', es)"
      using Cons.prems ne by (auto simp: Let_def ep_def split: if_splits)
    then show ?thesis by (intro skip [of "addf ep msg c"]) simp_all
  next
    case free: False
    obtain d r where d: "compile_expr L ep e c = (d, r)" by fastforce
    have dn: "same_plan c d" "pred_option (node_ok L (sc_Fields (cp_layout c))) r" using compile_expr_ok(1) [OF L d] by auto
    show ?thesis
    proof (cases r)
      case None
      then show ?thesis using Cons.prems ne free d dn(1) by (intro skip [of d]) (simp_all add: Let_def ep_def)
    next
      case (Some nx)
      obtain n x where nx: "nx = (n, x)" by fastforce
      let ?clash = "case compiler_index d name of None \<Rightarrow> False | Some i \<Rightarrow> wh \<and> typeOf (sc_Fields (cp_layout d) ! i) \<noteq> at_type x"
      let ?fld = "\<lparr>fd_Name = name, fd_Nullable = True, fd_Logical = vt_logical (at_type x), fd_Native = [],
                  fd_Precision = vt_precision (at_type x), fd_Scale = vt_scale (at_type x)\<rparr>"
      obtain d' es' where r: "compute_entries L p wh m d = (d', es')" by fastforce
      show ?thesis
      proof (cases ?clash)
        case True
        then show ?thesis using Cons.prems ne free d Some nx dn(1)
          by (intro skip [of "addf ep ''where cannot change type'' d"]) (simp_all add: Let_def ep_def)
      next
        case False
        then have eq: "c' = d'" "es = (compiler_index d name, n, ?fld) # es'"
          using Cons.prems ne free d Some nx r by (simp_all add: Let_def ep_def)
        have "entry_ok L (cp_layout c) wh (compiler_index d name, n, ?fld)"
          using False free dn Some nx
          by (auto intro!: Type_typeOf simp: entry_ok_def compiler_index_def same_plan_def Type_of_value split: option.splits)
        then show ?thesis using Cons.IH [OF r] dn(1) eq ne by (simp add: same_plan_def)
      qed
    qed
  qed
qed simp

lemma evalArray_ok:
  assumes "lib_ok L" "node_ok L fs (n, x)" "frame_ok fs f"
  shows "returns (evalArray L n f) (arr_ok (fr_rows f) (storage (at_type x)))"
proof -
  have h: "returns (eval L n f) (conforms (fr_rows f) x)" using assms(2,3) by (auto simp: node_ok_def)
  show ?thesis unfolding evalArray_def by (rule returns_bind [OF h]) (simp add: asArray_ok [OF assms(1)] conforms_def)
qed

lemma entry_value_ok:
  assumes L: "lib_ok L" and e: "entry_ok L s wh (idx, n, fld)" and f: "frame_ok (sc_Fields s) f"
    and m: "\<And>sel. m = Some sel \<Longrightarrow> wh \<and> length sel = fr_rows f"
  shows "returns (entry_value L m f (idx, n)) (arr_ok (fr_rows f) (Type fld))"
proof -
  obtain x where x: "node_ok L (sc_Fields s) (n, x)" "storage (at_type x) = Type fld" using e by (auto simp: entry_ok_def)
  have v: "returns (evalArray L n f) (arr_ok (fr_rows f) (Type fld))" using evalArray_ok [OF L x(1) f] x(2) by simp
  have i: "i < length (fr_cols f) \<and> (wh \<longrightarrow> arr_ok (fr_rows f) (Type fld) (fr_cols f ! i))" if "idx = Some i" for i
  proof -
    have "field_index (fd_Name fld) (sc_Fields s) = Some i" using e that by (simp add: entry_ok_def)
    then have "i < length (sc_Fields s)" by (simp add: field_index_Some)
    then show ?thesis using f e that by (auto simp: frame_ok_def list_all2_conv_all_nth entry_ok_def)
  qed
  show ?thesis
    unfolding entry_value_def fst_conv snd_conv
  proof (rule returns_bind [OF v])
    fix a assume a: "arr_ok (fr_rows f) (Type fld) a"
    have null: "arr_ok (fr_rows f) (Type fld) (lb_MakeArrayOfNull L (ar_type a) (fr_rows f))"
      using a by (simp add: lib_okD(6) [OF L] arr_ok_def)
    show "returns (case m of None \<Rightarrow> Inr a | Some sel \<Rightarrow>
           (case idx of None \<Rightarrow> IfElse L sel a (lb_MakeArrayOfNull L (ar_type a) (fr_rows f))
            | Some i \<Rightarrow> if i < length (fr_cols f) then IfElse L sel a (fr_cols f ! i) else Inl (ErrPanic ''index out of range'')))
       (arr_ok (fr_rows f) (Type fld))"
      using IfElse_ok [OF L _ a null] IfElse_ok [OF L _ a] i m a by (auto split: option.splits)
  qed
qed

lemma entry_values_ok:
  assumes L: "lib_ok L" and f: "frame_ok (sc_Fields s) f" and m: "\<And>sel. m = Some sel \<Longrightarrow> wh \<and> length sel = fr_rows f"
  shows "list_all (entry_ok L s wh) es \<Longrightarrow> returns (entry_values L m f (map (\<lambda>(i, n, f). (i, n)) es))
     (list_all2 (\<lambda>e a. arr_ok (fr_rows f) (Type (snd (snd e))) a) es)"
proof (induction es)
  case (Cons e es)
  obtain idx n fld where e: "e = (idx, n, fld)" by (cases e)
  have h: "returns (entry_value L m f (idx, n)) (arr_ok (fr_rows f) (Type fld))"
    using entry_value_ok [OF L _ f m] Cons.prems e by simp
  have hs: "returns (entry_values L m f (map (\<lambda>(i, n, f). (i, n)) es)) (list_all2 (\<lambda>e a. arr_ok (fr_rows f) (Type (snd (snd e))) a) es)"
    using Cons by simp
  show ?case by (simp add: e) (rule returns_bind [OF h], rule returns_bind [OF hs], simp)
qed simp

lemma assign_all2:
  "list_all2 P xs ys \<Longrightarrow> list_all2 (\<lambda>a b. fst a = fst b \<and> P (snd a) (snd b)) as bs \<Longrightarrow> list_all2 P (fold assign as xs) (fold assign bs ys)"
proof (induction as arbitrary: bs xs ys)
  case (Cons a as)
  then obtain b bs' where b: "bs = b # bs'" "fst a = fst b" "P (snd a) (snd b)" "list_all2 (\<lambda>a b. fst a = fst b \<and> P (snd a) (snd b)) as bs'"
    by (auto simp: list_all2_Cons1)
  have "list_all2 P (assign a xs) (assign b ys)"
    using Cons.prems(1) b by (auto simp: assign_def list_all2_appendI list_all2_update_cong split: option.splits)
  then show ?case using Cons.IH b by simp
qed simp

lemma assign_keeps: "j < length xs \<Longrightarrow> Some j \<notin> fst ` set as \<Longrightarrow> j < length (fold assign as xs) \<and> fold assign as xs ! j = xs ! j"
proof (induction as arbitrary: xs)
  case (Cons a as)
  have "j < length (assign a xs) \<and> assign a xs ! j = xs ! j"
    using Cons.prems by (auto simp: assign_def nth_append split: option.splits)
  then show ?case using Cons by simp
qed simp

lemma field_index_other: "field_index k fs = Some j \<Longrightarrow> i \<noteq> j \<Longrightarrow> fd_Name g \<noteq> k \<Longrightarrow> field_index k (fs[i := g]) = Some j"
  by (induction fs arbitrary: i j) (auto split: nat.splits if_splits)

lemma assign_index:
  "field_index k fs = Some j \<Longrightarrow> Some j \<notin> fst ` set as \<Longrightarrow> \<forall>a \<in> set as. fd_Name (snd a) \<noteq> k \<Longrightarrow> field_index k (fold assign as fs) = Some j"
proof (induction as arbitrary: fs)
  case (Cons a as)
  have "field_index k (assign a fs) = Some j"
    using Cons.prems by (auto simp: assign_def field_index_append field_index_other split: option.splits)
  then show ?case using Cons by simp
qed simp

lemma eval_mask_ok:
  assumes "lib_ok L" "frame_ok fs f" "\<And>n. w = Some n \<Longrightarrow> \<exists>x. node_ok L fs (n, x) \<and> storage (at_type x) = ArrowBoolean"
  shows "returns (eval_mask L w f) (\<lambda>m. \<forall>sel. m = Some sel \<longrightarrow> w \<noteq> None \<and> length sel = fr_rows f)"
proof (cases w)
  case (Some n)
  obtain x where x: "node_ok L fs (n, x)" "storage (at_type x) = ArrowBoolean" using assms(3) [OF Some] by blast
  have h: "returns (evalArray L n f) (arr_ok (fr_rows f) ArrowBoolean)" using evalArray_ok [OF assms(1) x(1) assms(2)] x(2) by simp
  show ?thesis unfolding eval_mask_def Some option.case by (rule returns_bind [OF h]) (simp add: arr_ok_def)
qed (simp add: eval_mask_def)

text \<open>The layout and the columns are assigned alike, and no entry assigns a key.\<close>

lemma assign_entries_ok:
  assumes es: "list_all (entry_ok L s wh) es" and f: "list_all2 (\<lambda>fd a. arr_ok n (Type fd) a) (sc_Fields s) cols"
    and outs: "list_all2 (\<lambda>e a. arr_ok n (Type (snd (snd e))) a) es outs"
  defines "fas \<equiv> map (\<lambda>(i, n, f). (i, f)) es" and "ias \<equiv> map (\<lambda>(i, n, f). (i, n)) es"
  shows "list_all2 (\<lambda>fd a. arr_ok n (Type fd) a) (fold assign fas (sc_Fields s)) (fold assign (zip (map fst ias) outs) cols)"
    and "k \<in> set (sc_PrimaryKey s) \<Longrightarrow> field_index k (sc_Fields s) = Some i \<Longrightarrow>
      field_index k (fold assign fas (sc_Fields s)) = Some i \<and> fold assign fas (sc_Fields s) ! i = sc_Fields s ! i \<and>
      fold assign (zip (map fst ias) outs) cols ! i = cols ! i"
proof -
  have len: "length outs = length es" using list_all2_lengthD [OF outs] by simp
  have "list_all2 (\<lambda>a b. fst a = fst b \<and> arr_ok n (Type (snd a)) (snd b)) fas (zip (map fst ias) outs)"
    using outs by (auto simp: fas_def ias_def list_all2_conv_all_nth case_prod_unfold)
  then show "list_all2 (\<lambda>fd a. arr_ok n (Type fd) a) (fold assign fas (sc_Fields s)) (fold assign (zip (map fst ias) outs) cols)"
    by (rule assign_all2 [OF f])
  assume k: "k \<in> set (sc_PrimaryKey s)" and i: "field_index k (sc_Fields s) = Some i"
  have i': "i < length (sc_Fields s)" "fd_Name (sc_Fields s ! i) = k" using field_index_Some [OF i] by auto
  then have ic: "i < length cols" using list_all2_lengthD [OF f] by simp
  have e: "a \<noteq> Some i \<and> fd_Name b \<noteq> k" if "(a, m, b) \<in> set es" for a m b
  proof -
    have eb: "entry_ok L s wh (a, m, b)" using es that by (simp add: list_all_iff)
    then have "fd_Name b \<noteq> k" "a = field_index (fd_Name b) (sc_Fields s)" using k by (auto simp: entry_ok_def)
    then show ?thesis using field_index_Some [of "fd_Name b" "sc_Fields s" i] i'(2) by auto
  qed
  have n: "Some i \<notin> fst ` set fas" "\<forall>a \<in> set fas. fd_Name (snd a) \<noteq> k" using e by (fastforce simp: fas_def)+
  have "set (zip (map fst ias) outs) \<subseteq> {(a, o'). a \<in> fst ` set ias}" by (auto dest!: set_zip_leftD)
  then have "Some i \<notin> fst ` set (zip (map fst ias) outs)" using e by (fastforce simp: ias_def)
  then show "field_index k (fold assign fas (sc_Fields s)) = Some i \<and> fold assign fas (sc_Fields s) ! i = sc_Fields s ! i \<and>
      fold assign (zip (map fst ias) outs) cols ! i = cols ! i"
    using assign_index [OF i n] assign_keeps [OF i'(1) n(1)] assign_keeps [OF ic] by blast
qed

lemma compute_carries:
  assumes L: "lib_ok L" and es: "list_all (entry_ok L s wh) es"
    and w: "\<And>n. w = Some n \<Longrightarrow> wh \<and> (\<exists>x. node_ok L (sc_Fields s) (n, x) \<and> storage (at_type x) = ArrowBoolean)"
  shows "carries L (set (sc_PrimaryKey s)) (sc_Fields s) [ComputeOp w (map (\<lambda>(i, n, f). (i, n)) es)]
     (fold assign (map (\<lambda>(i, n, f). (i, f)) es) (sc_Fields s))"
  unfolding carries_def
proof (intro allI impI)
  fix f assume f: "frame_ok (sc_Fields s) f"
  let ?fas = "map (\<lambda>(i, n, f). (i, f)) es" and ?es = "map (\<lambda>(i, n, f). (i, n)) es"
  let ?post = "\<lambda>f'. frame_ok (fold assign ?fas (sc_Fields s)) f' \<and> fr_rows f' = fr_rows f \<and>
        (\<forall>k \<in> set (sc_PrimaryKey s). \<forall>i. field_index k (sc_Fields s) = Some i \<longrightarrow>
           (\<exists>j. field_index k (fold assign ?fas (sc_Fields s)) = Some j \<and> fold assign ?fas (sc_Fields s) ! j = sc_Fields s ! i \<and>
             fr_cols f' ! j = fr_cols f ! i))"
  have hm: "returns (eval_mask L w f) (\<lambda>m. \<forall>sel. m = Some sel \<longrightarrow> wh \<and> length sel = fr_rows f)"
    using w by (intro returns_mono [OF eval_mask_ok [OF L f]]) auto
  have "returns (op_apply L (ComputeOp w ?es) f) ?post"
    unfolding op_apply_def op.case
  proof (rule returns_bind [OF hm])
    fix m :: "cell list option"
    assume m: "\<forall>sel. m = Some sel \<longrightarrow> wh \<and> length sel = fr_rows f"
    have hv: "returns (entry_values L m f ?es) (list_all2 (\<lambda>e a. arr_ok (fr_rows f) (Type (snd (snd e))) a) es)"
      using m by (intro entry_values_ok [OF L f _ es]) auto
    show "returns (bind_res (entry_values L m f ?es) (\<lambda>outs. Inr (f\<lparr>fr_cols := fold assign (zip (map fst ?es) outs) (fr_cols f)\<rparr>))) ?post"
      by (rule returns_bind [OF hv])
        (use assign_entries_ok [OF es f [unfolded frame_ok_def]] in \<open>simp add: frame_ok_def\<close>)
  qed
  then show "returns (run_ops L [ComputeOp w ?es] f) ?post"
    by (cases "op_apply L (ComputeOp w ?es) f") simp_all
qed

lemma compile_where_ok:
  assumes L: "lib_ok L" and c: "compile_where L p wh c = (c', r)"
  shows "same_plan c c' \<and> (\<forall>w n. r = Some w \<longrightarrow> w = Some n \<longrightarrow> wh \<noteq> None \<and>
     (\<exists>x. node_ok L (sc_Fields (cp_layout c)) (n, x) \<and> storage (at_type x) = ArrowBoolean))"
proof (cases wh)
  case (Some e)
  obtain d q where d: "compile_expr L (p @ [PField ''where'']) e c = (d, q)" by fastforce
  have h: "same_plan c d" "pred_option (node_ok L (sc_Fields (cp_layout c))) q" using compile_expr_ok(1) [OF L d] by auto
  show ?thesis using c h Some d storage_of(2) by (auto simp: compile_where_def split: option.splits if_splits)
qed (use c in \<open>auto simp: compile_where_def\<close>)

lemma compile_compute_ok:
  assumes L: "lib_ok L"
  shows "step_ok L c (compile_compute L p entries wh c)"
proof -
  obtain d r where d: "compile_where L p wh c = (d, r)" by fastforce
  note w = compile_where_ok [OF L d]
  show ?thesis
  proof (cases r)
    case None
    then show ?thesis using w d by (simp add: compile_compute_def step_ok_same)
  next
    case (Some n)
    obtain d' es where es: "compute_entries L p (wh \<noteq> None) (sort_key fst entries) d = (d', es)" by fastforce
    have e: "same_plan c d'" "list_all (entry_ok L (cp_layout c) (wh \<noteq> None)) es"
      using compute_entries_ok [OF L es] w by (simp_all add: same_plan_def)
    have "carries L (set (sc_PrimaryKey (cp_layout c))) (sc_Fields (cp_layout c)) [ComputeOp n (map (\<lambda>(i, n, f). (i, n)) es)]
      (fold assign (map (\<lambda>(i, n, f). (i, f)) es) (sc_Fields (cp_layout c)))"
      using w Some by (intro compute_carries [OF L e(2)]) simp
    then show ?thesis using d Some es e(1)
      by (simp add: compile_compute_def step_ok_same) (simp add: step_ok_def set_fields_def same_plan_def)
  qed
qed

lemma compile_step_ok: "lib_ok L \<Longrightarrow> step_ok L c (compile_step L p st c)"
  by (simp add: compile_step_def compile_rename_ok compile_drop_ok compile_compute_ok step_ok_same split: option.splits)

lemma compile_steps_ok:
  assumes L: "lib_ok L"
  shows "step_ok L c (compile_steps L res i sts c)"
proof (induction sts arbitrary: c i)
  case (Cons st sts)
  show ?case unfolding compile_steps.simps by (rule step_ok_trans [OF compile_step_ok [OF L] Cons.IH])
qed (simp add: step_ok_same)

lemma run_compiler_ok:
  "lib_ok L \<Longrightarrow> sc_PrimaryKey (cp_layout (run_compiler L def inp)) = sc_PrimaryKey inp \<and>
    carries L (set (sc_PrimaryKey inp)) (sc_Fields inp) (cp_ops (run_compiler L def inp)) (sc_Fields (cp_layout (run_compiler L def inp)))"
  using compile_steps_ok [of L "\<lparr>cp_layout = inp, cp_ops = [], cp_errs = [], cp_types = []\<rparr>" "sc_Resource inp" 0]
  by (auto simp: run_compiler_def Let_def step_ok_def carries_refl split: option.splits)

section \<open>Plans over record batches\<close>

definition record_ok :: "record_batch \<Rightarrow> bool" where
  "record_ok r \<longleftrightarrow> list_all2 (\<lambda>f cs. length cs = rb_NumRows r \<and> (\<forall>c \<in> set cs. fits (af_Type f) c)) (rb_Schema r) (rb_Columns r)"

text \<open>The leading columns of a record match a schema, by name and type; others come after them.\<close>

definition leads :: "schema \<Rightarrow> arrow_schema \<Rightarrow> record_batch \<Rightarrow> bool" where
  "leads s extra r \<longleftrightarrow>
     (\<exists>front. rb_Schema r = front @ extra \<and> list_all2 (\<lambda>f a. af_Name a = fd_Name f \<and> af_Type a = Type f) (sc_Fields s) front)"

definition input_frame :: "schema \<Rightarrow> record_batch \<Rightarrow> frame" where
  "input_frame s r = \<lparr>fr_rows = rb_NumRows r, fr_cols = take (length (sc_Fields s)) (batch_columns r)\<rparr>"

lemma input_frame_rows [simp]: "fr_rows (input_frame s r) = rb_NumRows r"
  by (simp add: input_frame_def)

lemma batch_columns_ok:
  assumes "record_ok r"
  shows "list_all2 (\<lambda>f a. arr_ok (rb_NumRows r) (af_Type f) a) (rb_Schema r) (batch_columns r)" "map ar_cells (batch_columns r) = rb_Columns r"
  using assms by (auto simp: record_ok_def batch_columns_def list_all2_conv_all_nth arr_ok_def intro: nth_equalityI)

lemma leadsE:
  assumes "leads s extra r"
  obtains front where "rb_Schema r = front @ extra" "length front = length (sc_Fields s)"
    "list_all2 (\<lambda>f a. af_Name a = fd_Name f \<and> af_Type a = Type f) (sc_Fields s) front"
proof -
  obtain front where f: "rb_Schema r = front @ extra" "list_all2 (\<lambda>f a. af_Name a = fd_Name f \<and> af_Type a = Type f) (sc_Fields s) front"
    using assms unfolding leads_def by blast
  show thesis by (rule that [OF f(1) _ f(2)]) (simp add: list_all2_lengthD [OF f(2)])
qed

lemma input_frame_ok:
  assumes "record_ok r" "leads s extra r"
  shows "frame_ok (sc_Fields s) (input_frame s r)" "\<And>i. i < length (sc_Fields s) \<Longrightarrow> ar_cells (fr_cols (input_frame s r) ! i) = rb_Columns r ! i"
proof -
  obtain front where front: "rb_Schema r = front @ extra" "length front = length (sc_Fields s)"
    "list_all2 (\<lambda>f a. af_Name a = fd_Name f \<and> af_Type a = Type f) (sc_Fields s) front"
    using leadsE [OF assms(2)] by blast
  have len: "length (batch_columns r) = length (sc_Fields s) + length extra"
    using list_all2_lengthD [OF batch_columns_ok(1) [OF assms(1)]] front by simp
  have "list_all2 (\<lambda>f a. arr_ok (rb_NumRows r) (af_Type f) a) front (fr_cols (input_frame s r))"
    using list_all2_takeI [OF batch_columns_ok(1) [OF assms(1)], of "length (sc_Fields s)"] front by (simp add: input_frame_def)
  then show "frame_ok (sc_Fields s) (input_frame s r)"
    using front(3) by (auto simp: frame_ok_def list_all2_conv_all_nth)
  show "ar_cells (fr_cols (input_frame s r) ! i) = rb_Columns r ! i" if "i < length (sc_Fields s)" for i
    using batch_columns_ok(2) [OF assms(1)] that len by (simp add: input_frame_def flip: nth_map)
qed

text \<open>A record that the operations of a plan took to a frame of the plan's output.\<close>

definition output_record :: "schema \<Rightarrow> schema \<Rightarrow> arrow_schema \<Rightarrow> record_batch \<Rightarrow> frame \<Rightarrow> record_batch" where
  "output_record inp out extra r f = \<lparr>rb_Schema = ArrowBatch.Schema out @ extra,
     rb_Columns = map ar_cells (fr_cols f) @ drop (length (sc_Fields inp)) (rb_Columns r), rb_NumRows = rb_NumRows r\<rparr>"

lemma output_record_ok:
  assumes "record_ok r" "leads inp extra r" "frame_ok (sc_Fields out) f" "fr_rows f = rb_NumRows r"
  shows "record_ok (output_record inp out extra r f)"
proof -
  have "list_all2 (\<lambda>f cs. length cs = rb_NumRows r \<and> (\<forall>c \<in> set cs. fits (af_Type f) c)) (ArrowBatch.Schema out) (map ar_cells (fr_cols f))"
    using assms(3,4) by (simp add: frame_ok_def arr_ok_def ArrowBatch.Schema_def ArrowBatch.Field_def list_all2_conv_all_nth)
  moreover have "list_all2 (\<lambda>f cs. length cs = rb_NumRows r \<and> (\<forall>c \<in> set cs. fits (af_Type f) c)) extra (drop (length (sc_Fields inp)) (rb_Columns r))"
  proof -
    obtain front where "rb_Schema r = front @ extra" "length front = length (sc_Fields inp)" using leadsE [OF assms(2)] by blast
    then show ?thesis using assms(1) list_all2_dropI [of _ "rb_Schema r" "rb_Columns r" "length (sc_Fields inp)"] by (simp add: record_ok_def)
  qed
  ultimately show ?thesis by (simp add: record_ok_def output_record_def list_all2_appendI)
qed

lemma Apply_record:
  assumes L: "lib_ok L" and r: "record_ok r" "leads inp extra r"
    and run: "returns (run_ops L ops (input_frame inp r)) (\<lambda>f. frame_ok (sc_Fields out) f \<and> fr_rows f = rb_NumRows r \<and> P f)"
  shows "returns (Apply L (newPlan inp out ops) r)
    (\<lambda>q. \<exists>f. run_ops L ops (input_frame inp r) = Inr f \<and> q = output_record inp out extra r f \<and> record_ok q \<and> P f)"
proof -
  let ?n = "length (sc_Fields inp)"
  obtain front where front: "rb_Schema r = front @ extra" "length front = ?n"
    "list_all2 (\<lambda>f a. af_Name a = fd_Name f \<and> af_Type a = Type f) (sc_Fields inp) front"
    using leadsE [OF r(2)] by blast
  then have sch: "take ?n (rb_Schema r) = front" "drop ?n (rb_Schema r) = extra" "?n \<le> length (rb_Schema r)" by simp_all
  have "checkInput (newPlan inp out ops) (rb_Schema r) = None"
    using sch front(3) by (simp add: checkInput_def newPlan_def list_all2_conv_all_nth)
  moreover have "outputSchema (newPlan inp out ops) (rb_Schema r) = ArrowBatch.Schema out @ extra"
    using sch by (simp add: outputSchema_def newPlan_def flip: sch(2))
  moreover have "lb_NewRecordBatch L (ArrowBatch.Schema out @ extra) (fr_cols f @ drop ?n (batch_columns r)) (rb_NumRows r)
      = Inr (output_record inp out extra r f)" if f: "frame_ok (sc_Fields out) f" "fr_rows f = rb_NumRows r" for f
  proof -
    have "list_all2 (\<lambda>f a. ar_type a = af_Type f \<and> length (ar_cells a) = rb_NumRows r) (ArrowBatch.Schema out) (fr_cols f)"
      using f by (simp add: frame_ok_def arr_ok_def ArrowBatch.Schema_def ArrowBatch.Field_def list_all2_conv_all_nth)
    moreover have "list_all2 (\<lambda>f a. ar_type a = af_Type f \<and> length (ar_cells a) = rb_NumRows r) extra (drop ?n (batch_columns r))"
      using list_all2_dropI [OF batch_columns_ok(1) [OF r(1)], of ?n] sch(2) by (auto elim!: list_all2_mono simp: arr_ok_def)
    ultimately show ?thesis
      using lib_okD(7) [OF L list_all2_appendI] batch_columns_ok(2) [OF r(1)] by (simp add: output_record_def flip: drop_map)
  qed
  ultimately show ?thesis
    using run output_record_ok [OF r]
    by (cases "run_ops L ops (input_frame inp r)")
      (auto simp: Apply_def Let_def newPlan_def input_frame_def wrap_transform_def returns_def split: goerr.splits)
qed

lemma Compile_Inr:
  assumes "Compile L def inp = Inr pl"
  shows "pl = newPlan inp (cp_layout (run_compiler L def inp)) (cp_ops (run_compiler L def inp))" "cp_errs (run_compiler L def inp) = []"
  using assms by (auto simp: Compile_def Analyze_def Let_def split: if_splits)

section \<open>The layout a definition leaves\<close>

abbreviation (input) names :: "field list \<Rightarrow> string list" where "names fs \<equiv> map (\<lambda>f. fd_Name f) fs"

text \<open>Steps add no duplicate name and no reserved one, and change nothing but the fields.\<close>

definition layout_ok :: "lib \<Rightarrow> schema \<Rightarrow> schema \<Rightarrow> bool" where
  "layout_ok L s s' \<longleftrightarrow> (\<exists>fs. s' = s\<lparr>sc_Fields := fs\<rparr>) \<and> (distinct (names (sc_Fields s)) \<longrightarrow> distinct (names (sc_Fields s'))) \<and>
     (\<forall>m \<in> set (names (sc_Fields s')). IsReservedColumn (lb_ToLower L) m \<longrightarrow> m \<in> set (names (sc_Fields s)))"

lemma layout_ok_refl: "layout_ok L s s"
  by (simp add: layout_ok_def) (rule exI [of _ "sc_Fields s"], simp)

lemma layout_okI:
  "(distinct (names (sc_Fields s)) \<longrightarrow> distinct (names fs)) \<Longrightarrow>
   \<forall>m \<in> set (names fs). IsReservedColumn (lb_ToLower L) m \<longrightarrow> m \<in> set (names (sc_Fields s)) \<Longrightarrow> layout_ok L s (s\<lparr>sc_Fields := fs\<rparr>)"
  by (auto simp: layout_ok_def)

lemma layout_ok_trans: "layout_ok L s s' \<Longrightarrow> layout_ok L s' s'' \<Longrightarrow> layout_ok L s s''"
  by (auto simp: layout_ok_def)

lemma names_update: "i < length fs \<Longrightarrow> names (fs[i := g]) = (names fs)[i := fd_Name g]"
  by (simp add: map_update)

lemma rename_names:
  "\<forall>(new, i) \<in> set renamed. i < length fs \<and> new \<notin> set (names fs) \<and> \<not> R new \<Longrightarrow> distinct (map fst renamed) \<Longrightarrow>
   (distinct (names fs) \<longrightarrow> distinct (names (fold rename_field renamed fs))) \<and>
   (\<forall>m \<in> set (names (fold rename_field renamed fs)). R m \<longrightarrow> m \<in> set (names fs))"
proof (induction renamed arbitrary: fs)
  case (Cons r renamed)
  obtain new i where r: "r = (new, i)" by fastforce
  let ?fs = "rename_field r fs"
  have new: "i < length fs" "new \<notin> set (names fs)" "\<not> R new" using Cons.prems r by auto
  have ns: "names ?fs = (names fs)[i := new]" using new(1) r by (simp add: rename_field_def names_update)
  have sub: "set (names ?fs) \<subseteq> insert new (set (names fs))" unfolding ns by (rule set_update_subset_insert)
  have d: "distinct (names fs) \<longrightarrow> distinct (names ?fs)" unfolding ns using new by (auto intro: distinct_list_update)
  have "length ?fs = length fs" by (simp add: rename_field_def)
  then have "j < length ?fs \<and> m \<notin> set (names ?fs) \<and> \<not> R m" if "(m, j) \<in> set renamed" for m j
  proof -
    have "j < length fs \<and> m \<notin> set (names fs) \<and> \<not> R m" "m \<noteq> new" using Cons.prems r that by (force, force)
    then show ?thesis using sub \<open>length ?fs = length fs\<close> by auto
  qed
  then have "\<forall>(m, j) \<in> set renamed. j < length ?fs \<and> m \<notin> set (names ?fs) \<and> \<not> R m" by blast
  note IH = Cons.IH [OF this]
  let ?out = "fold rename_field renamed ?fs"
  have "distinct (map fst renamed)" using Cons.prems(2) by simp
  note IH = IH [OF this]
  have "distinct (names fs) \<longrightarrow> distinct (names ?out)" using IH d by blast
  moreover have "\<forall>m \<in> set (names ?out). R m \<longrightarrow> m \<in> set (names fs)" using IH sub new(3) by blast
  ultimately show ?case by simp
qed simp

lemma rename_entries_fresh:
  "rename_entries L p m c renamed = (c', renamed') \<Longrightarrow> distinct (map fst renamed) \<Longrightarrow> list_all (\<lambda>r. \<not> IsReservedColumn (lb_ToLower L) (fst r)) renamed \<Longrightarrow>
   distinct (map fst renamed') \<and> list_all (\<lambda>r. \<not> IsReservedColumn (lb_ToLower L) (fst r)) renamed'"
  by (induction L p m c renamed arbitrary: c' renamed' rule: rename_entries.induct) (auto split: option.splits if_splits)

lemma compile_rename_layout: "layout_ok L (cp_layout c) (cp_layout (compile_rename L p m c))"
proof -
  obtain d renamed where r: "rename_entries L p (sort_key fst m) c [] = (d, renamed)" by fastforce
  have d: "same_plan c d" "list_all (rename_ok (cp_layout c)) renamed" "distinct (map fst renamed)"
    "list_all (\<lambda>r. \<not> IsReservedColumn (lb_ToLower L) (fst r)) renamed"
    using rename_entries_ok [OF r] rename_entries_fresh [OF r] by simp_all
  have "\<forall>(new, i) \<in> set renamed. i < length (sc_Fields (cp_layout c)) \<and> new \<notin> set (names (sc_Fields (cp_layout c))) \<and> \<not> IsReservedColumn (lb_ToLower L) new"
    using d(2,4) by (auto simp: list_all_iff rename_ok_def field_index_None)
  from rename_names [OF this d(3)] have "layout_ok L (cp_layout c) ((cp_layout c)\<lparr>sc_Fields := fold rename_field renamed (sc_Fields (cp_layout c))\<rparr>)"
    by (intro layout_okI) blast+
  then show ?thesis using d(1) r by (simp add: compile_rename_def set_fields_def same_plan_def)
qed

lemma subseq_keeps: "subseq xs ys \<Longrightarrow> set xs \<subseteq> set ys \<and> (distinct ys \<longrightarrow> distinct xs)"
  by (auto simp: subseq_conv_nths distinct_nthsI dest: in_set_nthsD)

lemma compile_drop_layout: "layout_ok L (cp_layout c) (cp_layout (compile_drop p j ms c))"
proof (induction ms arbitrary: j c)
  case (Cons m ms)
  have del: "layout_ok L s (s\<lparr>sc_Fields := delete_at i (sc_Fields s)\<rparr>)" for s :: schema and i
  proof -
    have "subseq (delete_at i (sc_Fields s)) (sc_Fields s)"
      using list_emb_append_mono [OF subseq_order.order_refl suffix_imp_subseq [OF suffix_drop [of 1 "drop i (sc_Fields s)"]], of "take i (sc_Fields s)"]
      by (simp add: delete_at_def)
    then have "subseq (names (delete_at i (sc_Fields s))) (names (sc_Fields s))" by (rule subseq_map)
    from subseq_keeps [OF this] show ?thesis by (intro layout_okI) blast+
  qed
  have "layout_ok L (cp_layout c) (cp_layout (compile_drop p (Suc j) ms (addf q msg c)))" for q msg
    using Cons.IH [of "addf q msg c"] by simp
  moreover have "layout_ok L (cp_layout c) (cp_layout (compile_drop p (Suc j) ms d))"
    if d: "d = (set_fields (delete_at i (sc_Fields (cp_layout c))) c)\<lparr>cp_ops := ops\<rparr>" for d i ops
  proof (rule layout_ok_trans [OF _ Cons.IH])
    show "layout_ok L (cp_layout c) (cp_layout d)" using del by (simp add: d set_fields_def)
  qed
  ultimately show ?case by (simp split: option.splits)
qed (simp add: layout_ok_refl)

lemma assign_names:
  assumes "\<forall>a \<in> set as. fst a = field_index (fd_Name (snd a)) fs0" "distinct (map (\<lambda>a. fd_Name (snd a)) as)"
    "names fs = names fs0 @ ms" "\<forall>a \<in> set as. fd_Name (snd a) \<notin> set ms"
  shows "\<exists>ms'. names (fold assign as fs) = names fs0 @ ms @ ms' \<and> subseq ms' (map (\<lambda>a. fd_Name (snd a)) as) \<and> set ms' \<inter> set (names fs0) = {}"
  using assms
proof (induction as arbitrary: fs ms)
  case (Cons a as)
  let ?m = "fd_Name (snd a)"
  show ?case
  proof (cases "fst a")
    case None
    then have free: "?m \<notin> set (names fs0)" using Cons.prems(1) by (auto simp: field_index_None eq_commute [of None])
    have "\<exists>ms'. names (fold assign as (assign a fs)) = names fs0 @ (ms @ [?m]) @ ms' \<and> subseq ms' (map (\<lambda>a. fd_Name (snd a)) as) \<and> set ms' \<inter> set (names fs0) = {}"
    proof (rule Cons.IH)
      show "names (assign a fs) = names fs0 @ ms @ [?m]" using Cons.prems(3) None by (simp add: assign_def)
      show "\<forall>b \<in> set as. fd_Name (snd b) \<notin> set (ms @ [?m])"
      proof
        fix b assume b: "b \<in> set as"
        then have "fd_Name (snd b) \<in> (\<lambda>a. fd_Name (snd a)) ` set as" by blast
        moreover have "?m \<notin> (\<lambda>a. fd_Name (snd a)) ` set as" using Cons.prems(2) by simp
        ultimately have "fd_Name (snd b) \<noteq> ?m" by metis
        then show "fd_Name (snd b) \<notin> set (ms @ [?m])" using Cons.prems(4) b by simp
      qed
    qed (use Cons.prems in simp_all)
    then obtain ms' where "names (fold assign as (assign a fs)) = names fs0 @ (ms @ [?m]) @ ms'" "subseq ms' (map (\<lambda>a. fd_Name (snd a)) as)"
      "set ms' \<inter> set (names fs0) = {}" by blast
    then show ?thesis using free by (intro exI [of _ "?m # ms'"]) auto
  next
    case (Some i)
    then have i: "i < length fs0" "fd_Name (fs0 ! i) = ?m" using Cons.prems(1) field_index_Some [of ?m fs0 i] by auto
    have len: "length fs = length fs0 + length ms" using Cons.prems(3) by (metis length_append length_map)
    have "names (assign a fs) = (names fs0 @ ms)[i := ?m]" using Some i len Cons.prems(3) by (simp add: assign_def map_update)
    also have "\<dots> = names fs0 @ ms" using i by (simp add: list_update_append) (metis list_update_id nth_map)
    finally have n: "names (assign a fs) = names fs0 @ ms" .
    have "\<exists>ms'. names (fold assign as (assign a fs)) = names fs0 @ ms @ ms' \<and> subseq ms' (map (\<lambda>a. fd_Name (snd a)) as) \<and> set ms' \<inter> set (names fs0) = {}"
      by (rule Cons.IH) (use Cons.prems n in auto)
    then show ?thesis by auto
  qed
qed (auto intro: exI [of _ "[]"])

lemma compile_compute_layout:
  assumes L: "lib_ok L" and e: "distinct (map fst entries)"
  shows "layout_ok L (cp_layout c) (cp_layout (compile_compute L p entries wh c))"
proof -
  obtain d r where d: "compile_where L p wh c = (d, r)" by fastforce
  have sd: "same_plan c d" using compile_where_ok [OF L d] by blast
  show ?thesis
  proof (cases r)
    case None
    then show ?thesis using sd d by (simp add: compile_compute_def same_plan_def layout_ok_refl)
  next
    case (Some n)
    obtain d' es where es: "compute_entries L p (wh \<noteq> None) (sort_key fst entries) d = (d', es)" by fastforce
    let ?fs = "sc_Fields (cp_layout c)" and ?as = "map (\<lambda>(i, n, f). (i, f)) es"
    have e': "same_plan c d'" "list_all (entry_ok L (cp_layout c) (wh \<noteq> None)) es"
      "subseq (map (\<lambda>(i, n, f). fd_Name f) es) (map fst (sort_key fst entries))"
      using compute_entries_ok [OF L es] sd by (simp_all add: same_plan_def)
    have ms: "map (\<lambda>a. fd_Name (snd a)) ?as = map (\<lambda>(i, n, f). fd_Name f) es" by (auto simp: case_prod_unfold)
    have "distinct (map fst (sort_key fst entries))"
      using e by (simp add: distinct_map)
    then have dist: "distinct (map (\<lambda>a. fd_Name (snd a)) ?as)" unfolding ms using subseq_keeps [OF e'(3)] by blast
    have fields: "\<forall>a \<in> set ?as. fst a = field_index (fd_Name (snd a)) ?fs" "\<forall>a \<in> set ?as. \<not> IsReservedColumn (lb_ToLower L) (fd_Name (snd a))"
      using e'(2) by (auto simp: list_all_iff entry_ok_def)
    obtain ms' where ms': "names (fold assign ?as ?fs) = names ?fs @ ms'" "subseq ms' (map (\<lambda>a. fd_Name (snd a)) ?as)" "set ms' \<inter> set (names ?fs) = {}"
      using assign_names [OF fields(1) dist, of ?fs "[]"] by auto
    have "set ms' \<subseteq> (\<lambda>a. fd_Name (snd a)) ` set ?as" "distinct ms'" using subseq_keeps [OF ms'(2)] dist unfolding set_map by blast+
    then have "layout_ok L (cp_layout c) ((cp_layout c)\<lparr>sc_Fields := fold assign ?as ?fs\<rparr>)"
      using ms' fields(2) by (intro layout_okI) (auto simp del: set_map)
    then show ?thesis using d Some es e'(1) by (simp add: compile_compute_def set_fields_def same_plan_def layout_ok_refl)
  qed
qed

text \<open>The entries of a compute step are those of a map: no name appears twice.\<close>

definition step_map_ok :: "step \<Rightarrow> bool" where
  "step_map_ok st = (case st_Compute st of None \<Rightarrow> True | Some entries \<Rightarrow> distinct (map fst entries))"

lemma compile_steps_layout:
  assumes L: "lib_ok L"
  shows "list_all step_map_ok sts \<Longrightarrow> layout_ok L (cp_layout c) (cp_layout (compile_steps L res i sts c))"
proof (induction sts arbitrary: c i)
  case (Cons st sts)
  let ?c = "compile_step L [PField ''resources'', PKey res, PField ''steps'', PIndex i] st c"
  have one: "layout_ok L (cp_layout c) (cp_layout ?c)"
    using Cons.prems by (auto simp: compile_step_def step_map_ok_def compile_rename_layout compile_drop_layout compile_compute_layout [OF L] layout_ok_refl split: option.splits)
  have "layout_ok L (cp_layout ?c) (cp_layout (compile_steps L res (Suc i) sts ?c))" using Cons by simp
  from layout_ok_trans [OF one this] show ?case by simp
qed (simp add: layout_ok_refl)

section \<open>A failed expression is reported\<close>

lemma errs_simps [simp]: "length (cp_errs (addf p m c)) = Suc (length (cp_errs c))" "cp_errs (recordType p t c) = cp_errs c"
  by (simp_all add: addf_def recordType_def)

lemma errs_record_args [simp]: "cp_errs (record_args p m i xs c) = cp_errs c"
  by (induction p m i xs c rule: record_args.induct) simp_all

lemma compile_call_errs:
  assumes "compile_call L p m fn args c = (c', r)"
  shows "length (cp_errs c) + (if r = None then 1 else 0) = length (cp_errs c')"
  using assms by (auto simp: compile_call_def Let_def split: sum.splits if_splits)

lemma compile_expr_errs:
  shows "compile_expr L p e c = (c', r) \<Longrightarrow> length (cp_errs c) + (if r = None then 1 else 0) \<le> length (cp_errs c')"
    and "compile_args L p m i es c = (c'', rs) \<Longrightarrow> length (cp_errs c) + (if None \<in> set rs then 1 else 0) \<le> length (cp_errs c'')"
proof (induction L p e c and L p m i es c arbitrary: c' r and c'' rs rule: compile_expr_compile_args.induct)
  case (3 L p fname args c)
  show ?case
  proof (cases "catalogByName fname")
    case (Some fn)
    obtain d ds where d: "compile_args L p fname 0 args c = (d, ds)" by fastforce
    note IH = "3.IH" [OF Some d]
    show ?thesis
    proof (cases "None \<in> set ds")
      case False
      then have "compile_call L p fname fn (map the ds) d = (c', r)" using "3.prems" Some d by simp
      from compile_call_errs [OF this] IH show ?thesis by (simp split: if_splits)
    qed (use "3.prems" Some d IH in auto)
  qed (use 3 in auto)
next
  case (5 L p fname i e es c)
  obtain d r where d: "compile_expr L (p @ [PField fname, PIndex i]) e c = (d, r)" by fastforce
  obtain d' rs' where d': "compile_args L p fname (Suc i) es d = (d', rs')" by fastforce
  note h = "5.IH"(1) [OF d] "5.IH"(2) [OF d [symmetric] refl d']
  have "c'' = d'" "rs = r # rs'" using "5.prems" d d' by simp_all
  with h show ?case by (auto split: if_splits)
qed (auto simp: Let_def split: if_splits option.splits)

lemma rename_entries_errs: "length (cp_errs c) \<le> length (cp_errs (fst (rename_entries L p m c renamed)))"
proof (induction m arbitrary: c renamed)
  case (Cons r m)
  obtain old new where r: "r = (old, new)" by fastforce
  have "length (cp_errs c) \<le> length (cp_errs (fst (rename_entries L p m c' renamed')))" if "length (cp_errs c) \<le> length (cp_errs c')" for c' renamed'
    using Cons.IH [of c' renamed'] that by simp
  then show ?case by (simp add: r split: option.splits)
qed simp

lemma compile_drop_errs: "length (cp_errs c) \<le> length (cp_errs (compile_drop p j ms c))"
  by (induction p j ms c rule: compile_drop.induct) (auto simp: set_fields_def split: option.splits dest: Suc_leD)

lemma compute_entries_errs: "length (cp_errs c) \<le> length (cp_errs (fst (compute_entries L p wh m c)))"
proof (induction m arbitrary: c)
  case (Cons ne m)
  obtain name e where ne: "ne = (name, e)" by fastforce
  obtain d r where d: "compile_expr L (p @ [PField ''compute'', PKey name]) e c = (d, r)" by fastforce
  have le: "length (cp_errs c) \<le> length (cp_errs d)" using compile_expr_errs(1) [OF d] by (simp split: if_splits)
  have IH: "length (cp_errs c) \<le> length (cp_errs (fst (compute_entries L p wh m c')))" if "length (cp_errs c) \<le> length (cp_errs c')" for c'
    using Cons.IH [of c'] that by simp
  show ?case using le by (auto simp: ne d Let_def case_prod_unfold IH split: option.splits)
qed simp

lemma compile_where_errs:
  assumes "compile_where L p wh c = (c', r)"
  shows "length (cp_errs c) + (if r = None then 1 else 0) \<le> length (cp_errs c')"
  using assms compile_expr_errs(1) [of L "p @ [PField ''where'']" "the wh" c]
  by (cases "compile_expr L (p @ [PField ''where'']) (the wh) c") (force simp: compile_where_def split: option.splits if_splits)

lemma compile_step_errs: "length (cp_errs c) \<le> length (cp_errs (compile_step L p st c))"
proof -
  have "length (cp_errs c) \<le> length (cp_errs (compile_rename L q m c))" for q m
    using rename_entries_errs [of c L q "sort_key fst m" "[]"] by (simp add: compile_rename_def set_fields_def case_prod_unfold Let_def)
  moreover have "length (cp_errs c) \<le> length (cp_errs (compile_compute L p m wh c))" for m wh
  proof (cases "compile_where L p wh c")
    case (Pair d r)
    have "length (cp_errs c) \<le> length (cp_errs (fst (compute_entries L p (wh \<noteq> None) (sort_key fst m) d)))"
      using compile_where_errs [OF Pair] compute_entries_errs [of d L p "wh \<noteq> None" "sort_key fst m"] by (simp split: if_splits)
    then show ?thesis
      using compile_where_errs [OF Pair] by (simp add: compile_compute_def Pair set_fields_def case_prod_unfold Let_def split: option.splits if_splits)
  qed
  ultimately show ?thesis by (simp add: compile_step_def compile_drop_errs split: option.splits)
qed

lemma compile_steps_errs: "length (cp_errs c) \<le> length (cp_errs (compile_steps L res i sts c))"
proof (induction sts arbitrary: c i)
  case (Cons st sts)
  show ?case unfolding compile_steps.simps by (rule le_trans [OF compile_step_errs Cons.IH])
qed simp

lemma compile_steps_append:
  "compile_steps L res i (xs @ ys) c = compile_steps L res (i + length xs) ys (compile_steps L res i xs c)"
  by (induction xs arbitrary: i c) simp_all

section \<open>The rows a compute step rewrites\<close>

text \<open>The node an expression compiles to depends on the layout alone; its value is one on a frame of the layout.\<close>

definition compiler_at :: "schema \<Rightarrow> compiler" where
  "compiler_at s = \<lparr>cp_layout = s, cp_ops = [], cp_errs = [], cp_types = []\<rparr>"

definition expr_node :: "lib \<Rightarrow> schema \<Rightarrow> expr \<Rightarrow> node option" where
  "expr_node L s e = map_option fst (snd (compile_expr L [] e (compiler_at s)))"

definition expr_array :: "lib \<Rightarrow> schema \<Rightarrow> expr \<Rightarrow> frame \<Rightarrow> arr res" where
  "expr_array L s e f = (case expr_node L s e of None \<Rightarrow> Inl (ErrMsg ''does not compile'') | Some n \<Rightarrow> evalArray L n f)"

text \<open>The condition of a step on the rows of a frame; no condition holds everywhere.\<close>

definition row_mask :: "lib \<Rightarrow> schema \<Rightarrow> expr option \<Rightarrow> frame \<Rightarrow> cell list res" where
  "row_mask L s wh f =
     (case wh of None \<Rightarrow> Inr (replicate (fr_rows f) (CBool True)) | Some e \<Rightarrow> bind_res (expr_array L s e f) (\<lambda>a. Inr (ar_cells a)))"

definition old_cell :: "schema \<Rightarrow> frame \<Rightarrow> string \<Rightarrow> nat \<Rightarrow> cell" where
  "old_cell s f m row = (case field_index m (sc_Fields s) of None \<Rightarrow> CNull | Some i \<Rightarrow> ar_cells (fr_cols f ! i) ! row)"

text \<open>
  The second frame is the first one after the step: each assigned column has the value of its
  expression on the rows the condition selects and what it held, or null, on the others; every other
  column is as it was.
\<close>

definition rows_rewritten :: "lib \<Rightarrow> schema \<Rightarrow> schema \<Rightarrow> (string \<times> expr) list \<Rightarrow> expr option \<Rightarrow> frame \<Rightarrow> frame \<Rightarrow> bool" where
  "rows_rewritten L s s' entries wh f f' \<longleftrightarrow> fr_rows f' = fr_rows f \<and>
     (\<exists>sel. row_mask L s wh f = Inr sel \<and>
       (\<forall>(m, e) \<in> set entries. \<exists>a j. expr_array L s e f = Inr a \<and> field_index m (sc_Fields s') = Some j \<and>
          ar_cells (fr_cols f' ! j) =
            map (\<lambda>row. if sel ! row = CBool True then ar_cells a ! row else old_cell s f m row) [0..<fr_rows f]) \<and>
       (\<forall>m i. m \<notin> fst ` set entries \<and> field_index m (sc_Fields s) = Some i \<longrightarrow>
          (\<exists>j. field_index m (sc_Fields s') = Some j \<and> fr_cols f' ! j = fr_cols f ! i)))"

lemma compile_call_layout: "snd (compile_call L p m fn args c) = snd (compile_call L q m fn args d)"
  by (simp add: compile_call_def Let_def split: sum.split)

lemma compile_expr_layout:
  shows "lib_ok L \<Longrightarrow> cp_layout c = cp_layout d \<Longrightarrow> snd (compile_expr L p e c) = snd (compile_expr L q e d)"
    and "lib_ok L \<Longrightarrow> cp_layout c = cp_layout d' \<Longrightarrow> snd (compile_args L p m i es c) = snd (compile_args L q' m i es d')"
proof (induction L p e c and L p m i es c arbitrary: q d and q' d' rule: compile_expr_compile_args.induct)
  case (2 L p col c)
  then show ?case by (simp add: compiler_index_def Let_def split: option.splits)
next
  case (3 L p fname args c)
  show ?case
  proof (cases "catalogByName fname")
    case (Some fn)
    obtain c' rs where c': "compile_args L p fname 0 args c = (c', rs)" by fastforce
    obtain d'' rs' where d'': "compile_args L q fname 0 args d = (d'', rs')" by fastforce
    have "rs' = rs" using "3.IH" [OF Some "3.prems", of q] c' d'' by simp
    then show ?thesis using c' d'' Some compile_call_layout by simp
  qed simp
next
  case (5 L p fname i e es c)
  obtain c1 r where c1: "compile_expr L (p @ [PField fname, PIndex i]) e c = (c1, r)" by fastforce
  obtain d1 r' where d1: "compile_expr L (q' @ [PField fname, PIndex i]) e d' = (d1, r')" by fastforce
  have r: "r' = r" using "5.IH"(1) [OF "5.prems", of "q' @ [PField fname, PIndex i]"] c1 d1 by simp
  have "cp_layout c1 = cp_layout d1"
    using compile_expr_ok(1) [OF "5.prems"(1) c1] compile_expr_ok(1) [OF "5.prems"(1) d1] "5.prems"(2) by (simp add: same_plan_def)
  then have "snd (compile_args L p fname (Suc i) es c1) = snd (compile_args L q' fname (Suc i) es d1)"
    by (rule "5.IH"(2) [OF c1 [symmetric] refl "5.prems"(1)])
  then show ?case using r by (simp add: c1 d1 case_prod_unfold Let_def)
qed (simp_all add: Let_def)

lemma expr_node_compiled:
  assumes "lib_ok L" "compile_expr L p e c = (c', Some (n, x))" "cp_layout c = s"
  shows "expr_node L s e = Some n"
proof -
  have "snd (compile_expr L [] e (compiler_at s)) = Some (n, x)"
    using compile_expr_layout(1) [OF assms(1), of "compiler_at s" c "[]" e p] assms by (simp add: compiler_at_def)
  then show ?thesis by (simp add: expr_node_def)
qed

lemma compute_entries_all:
  assumes L: "lib_ok L"
  shows "compute_entries L p wh m c = (c', es) \<Longrightarrow> length (cp_errs c') \<le> length (cp_errs c) \<Longrightarrow>
    list_all2 (\<lambda>(name, e) (idx, n, fld). fd_Name fld = name \<and> expr_node L (cp_layout c) e = Some n) m es"
proof (induction m arbitrary: c c' es)
  case (Cons ne m)
  obtain name e where ne: "ne = (name, e)" by fastforce
  define ep where "ep = p @ [PField ''compute'', PKey name]"
  obtain d r where d: "compile_expr L ep e c = (d, r)" by fastforce
  have dl: "cp_layout d = cp_layout c" "length (cp_errs c) + (if r = None then 1 else 0) \<le> length (cp_errs d)"
    using compile_expr_ok(1) [OF L d] compile_expr_errs(1) [OF d] by (simp_all add: same_plan_def)
  have no: "\<not> length (cp_errs c) < length (cp_errs c1)" if "compute_entries L p wh m c1 = (c', es)" for c1
    using compute_entries_errs [of c1 L p wh m] that Cons.prems(2) by simp
  have free: "\<not> IsReservedColumn (lb_ToLower L) name" "name \<notin> set (sc_PrimaryKey (cp_layout c))"
    using no [of "addf ep ''column is reserved'' c"] no [of "addf ep ''cannot compute onto primary key column'' c"] Cons.prems(1) ne
    by (auto simp: ep_def Let_def split: if_splits)
  have "r \<noteq> None"
  proof
    assume "r = None"
    then show False using no [of d] dl Cons.prems(1) ne free d by (simp add: ep_def Let_def)
  qed
  then obtain n x where r: "r = Some (n, x)" by auto
  obtain d' es' where d': "compute_entries L p wh m d = (d', es')" by fastforce
  let ?clash = "case compiler_index d name of None \<Rightarrow> False | Some i \<Rightarrow> wh \<and> typeOf (sc_Fields (cp_layout d) ! i) \<noteq> at_type x"
  have "\<not> ?clash"
  proof
    assume ?clash
    then have "compute_entries L p wh m (addf ep ''where cannot change type'' d) = (c', es)"
      using Cons.prems(1) ne free d r by (simp add: ep_def Let_def)
    from no [OF this] dl(2) show False by simp
  qed
  then have eq: "c' = d'" "\<exists>idx fld. es = (idx, n, fld) # es' \<and> fd_Name fld = name"
    using Cons.prems(1) ne free d r d' by (auto simp: ep_def Let_def)
  have "length (cp_errs d') \<le> length (cp_errs d)" using Cons.prems(2) dl(2) eq(1) by (simp split: if_splits)
  from Cons.IH [OF d' this] show ?case
    using eq(2) ne dl(1) expr_node_compiled [OF L d [unfolded r] refl] by auto
qed simp

lemma compute_compiled:
  assumes L: "lib_ok L" and ok: "cp_errs (compile_compute L p entries wh c) = []" and ne: "entries \<noteq> []"
  obtains w es where "cp_ops (compile_compute L p entries wh c) = cp_ops c @ [ComputeOp w (map (\<lambda>(i, n, f). (i, n)) es)]"
    "sc_Fields (cp_layout (compile_compute L p entries wh c)) = fold assign (map (\<lambda>(i, n, f). (i, f)) es) (sc_Fields (cp_layout c))"
    "list_all2 (\<lambda>(name, e) (idx, n, fld). fd_Name fld = name \<and> expr_node L (cp_layout c) e = Some n) (sort_key fst entries) es"
    "list_all (entry_ok L (cp_layout c) (wh \<noteq> None)) es"
    "w = None \<longleftrightarrow> wh = None" "\<And>n. w = Some n \<Longrightarrow> expr_node L (cp_layout c) (the wh) = Some n \<and>
      (\<exists>x. node_ok L (sc_Fields (cp_layout c)) (n, x) \<and> storage (at_type x) = ArrowBoolean)"
proof -
  obtain d r where d: "compile_where L p wh c = (d, r)" by fastforce
  note w = compile_where_ok [OF L d] and we = compile_where_errs [OF d]
  obtain d' es where es: "compute_entries L p (wh \<noteq> None) (sort_key fst entries) d = (d', es)" by fastforce
  have e: "same_plan c d'" "list_all (entry_ok L (cp_layout c) (wh \<noteq> None)) es"
    using compute_entries_ok [OF L es] w by (simp_all add: same_plan_def)
  have "r \<noteq> None"
  proof
    assume "r = None"
    then show False using ok we d by (simp add: compile_compute_def)
  qed
  then obtain w where r: "r = Some w" by auto
  have "cp_errs d' = []" using ok d r es by (simp add: compile_compute_def set_fields_def split: if_splits)
  then have all: "list_all2 (\<lambda>(name, e) (idx, n, fld). fd_Name fld = name \<and> expr_node L (cp_layout c) e = Some n) (sort_key fst entries) es"
    using compute_entries_all [OF L es] w by (simp add: same_plan_def)
  then have "length es \<noteq> 0" using ne list_all2_lengthD [OF all] by (metis length_0_conv length_sort)
  then have eq: "compile_compute L p entries wh c = (set_fields (fold assign (map (\<lambda>(i, n, f). (i, f)) es) (sc_Fields (cp_layout d'))) d')
      \<lparr>cp_ops := cp_ops d' @ [ComputeOp w (map (\<lambda>(i, n, f). (i, n)) es)]\<rparr>"
    using d r es by (simp add: compile_compute_def)
  have wn: "w = None \<longleftrightarrow> wh = None" using d r by (auto simp: compile_where_def split: option.splits if_splits prod.splits)
  have "expr_node L (cp_layout c) (the wh) = Some n" if "w = Some n" for n
    using d r that expr_node_compiled [OF L _ refl] by (auto simp: compile_where_def split: option.splits if_splits prod.splits)
  then show thesis using eq e all wn w r by (intro that [of w es]) (simp_all add: set_fields_def same_plan_def)
qed

text \<open>Where an assigned value ends up, when no name is assigned twice.\<close>

lemma assign_length: "map fst as = map fst bs \<Longrightarrow> length xs = length ys \<Longrightarrow> length (fold assign as xs) = length (fold assign bs ys)"
proof (induction as arbitrary: bs xs ys)
  case (Cons a as)
  then obtain b bs' where b: "bs = b # bs'" "fst b = fst a" "map fst as = map fst bs'" by (cases bs) auto
  have "length (assign a xs) = length (assign b ys)" using Cons.prems(2) b(2) by (simp add: assign_def split: option.splits)
  then show ?case using Cons.IH [OF b(3)] b(1) by simp
qed simp

lemma assign_grows: "length xs \<le> length (fold assign as xs)"
proof (induction as arbitrary: xs)
  case (Cons a as)
  have "length xs \<le> length (assign a xs)" by (simp add: assign_def split: option.splits)
  also note Cons.IH [of "assign a xs"]
  finally show ?case by simp
qed simp

lemma field_index_assign_self:
  assumes "field_index (fd_Name g) fs = idx" "length cols = length fs"
  shows "\<exists>j. field_index (fd_Name g) (assign (idx, g) fs) = Some j \<and> j < length (assign (idx, g) fs) \<and>
    assign (idx, v) cols ! j = v \<and> (idx = None \<and> j = length fs \<or> idx = Some j)"
proof (cases idx)
  case None
  have "field_index k fs = None \<Longrightarrow> field_index k (fs @ [g]) = (if fd_Name g = k then Some (length fs) else None)" for k
    by (induction fs) auto
  then show ?thesis using None assms by (auto simp: assign_def nth_append)
next
  case (Some i)
  have "field_index (fd_Name g) fs = Some i \<Longrightarrow> field_index (fd_Name g) (fs[i := g]) = Some i"
    by (induction fs arbitrary: i) (auto split: if_splits)
  then show ?thesis using Some assms field_index_Some [of "fd_Name g" fs i] by (auto simp: assign_def)
qed

lemma assign_other:
  assumes as: "\<forall>x \<in> set as. fst x = field_index (fd_Name (snd x)) fs" and m: "m \<notin> (\<lambda>x. fd_Name (snd x)) ` set as"
    and i: "field_index m fs = Some i"
  shows "Some i \<notin> fst ` set as" "field_index m (fold assign as fs) = Some i"
proof -
  show n: "Some i \<notin> fst ` set as"
  proof
    assume "Some i \<in> fst ` set as"
    then obtain x where x: "x \<in> set as" "fst x = Some i" by force
    then have "fd_Name (snd x) = m" using as i field_index_Some [of _ fs i] by metis
    then show False using m x(1) by blast
  qed
  have "\<forall>x \<in> set as. fd_Name (snd x) \<noteq> m" using m by blast
  then show "field_index m (fold assign as fs) = Some i" by (rule assign_index [OF i n])
qed

lemma assign_new:
  assumes as: "\<forall>x \<in> set as. fst x = field_index (fd_Name (snd x)) fs" "distinct (map (\<lambda>x. fd_Name (snd x)) as)"
    and m: "m \<notin> (\<lambda>x. fd_Name (snd x)) ` set as" "field_index m fs = None"
  shows "field_index m (fold assign as fs) = None"
proof -
  obtain ms where "names (fold assign as fs) = names fs @ ms" "subseq ms (map (\<lambda>x. fd_Name (snd x)) as)"
    using assign_names [of as fs fs "[]"] as by auto
  then have "set (names (fold assign as fs)) \<subseteq> set (names fs) \<union> (\<lambda>x. fd_Name (snd x)) ` set as"
    using subseq_keeps [of ms "map (\<lambda>x. fd_Name (snd x)) as"] by auto
  then show ?thesis using m by (auto simp: field_index_None)
qed

lemma assigned_value:
  assumes as: "\<forall>x \<in> set (as @ a # as'). fst x = field_index (fd_Name (snd x)) fs" "distinct (map (\<lambda>x. fd_Name (snd x)) (as @ a # as'))"
    and bs: "map fst as = map fst bs" "map fst as' = map fst bs'" "length fs = length cols"
  shows "\<exists>j. field_index (fd_Name (snd a)) (fold assign (as @ a # as') fs) = Some j \<and> fold assign (bs @ (fst a, v) # bs') cols ! j = v"
proof -
  let ?m = "fd_Name (snd a)" and ?fs = "fold assign as fs" and ?cols = "fold assign bs cols"
  have m: "?m \<notin> (\<lambda>x. fd_Name (snd x)) ` set as" "?m \<notin> (\<lambda>x. fd_Name (snd x)) ` set as'" using as(2) by simp_all
  have len: "length ?cols = length ?fs" using assign_length [OF bs(1,3)] by simp
  have a: "fst a = field_index ?m fs" using as(1) by simp
  have "field_index ?m ?fs = fst a"
    using assign_new [OF _ _ m(1), of fs] assign_other(2) [OF _ m(1), of fs] as unfolding a
    by (cases "field_index ?m fs") simp_all
  then obtain j where j: "field_index ?m (assign a ?fs) = Some j" "j < length (assign a ?fs)" "assign (fst a, v) ?cols ! j = v"
    "fst a = None \<and> j = length ?fs \<or> fst a = Some j"
    using field_index_assign_self [OF _ len, of "snd a" "fst a" v] by auto
  have "Some j \<notin> fst ` set as'"
  proof
    assume "Some j \<in> fst ` set as'"
    then obtain x where x: "x \<in> set as'" "fst x = Some j" by force
    then have "j < length fs" using as(1) field_index_Some [of "fd_Name (snd x)" fs j] by auto
    then have "field_index ?m fs = Some j" using j(4) a assign_grows [of fs as] by auto
    then show False using assign_other(1) [OF _ m(2)] as(1) \<open>Some j \<in> fst ` set as'\<close> by simp
  qed
  moreover from this have "Some j \<notin> fst ` set bs'" using bs(2) by (metis list.set_map)
  moreover have "j < length (assign (fst a, v) ?cols)" using j(2) len by (auto simp: assign_def split: option.splits)
  moreover have "\<forall>x \<in> set as'. fd_Name (snd x) \<noteq> ?m" using m(2) by (force simp: image_iff)
  ultimately show ?thesis
    using assign_index [OF j(1), of as'] assign_keeps [of j "assign (fst a, v) ?cols" bs'] j(3)
    by (intro exI [of _ j]) simp
qed

lemma assigned_at:
  assumes as: "\<forall>x \<in> set as. fst x = field_index (fd_Name (snd x)) fs" "distinct (map (\<lambda>x. fd_Name (snd x)) as)"
    and bs: "map fst as = map fst bs" "length fs = length cols" and k: "k < length as"
  shows "\<exists>j. field_index (fd_Name (snd (as ! k))) (fold assign as fs) = Some j \<and> fold assign bs cols ! j = snd (bs ! k)"
proof -
  have kb: "k < length bs" using k bs(1) by (metis length_map)
  have b: "(fst (as ! k), snd (bs ! k)) = bs ! k" using k kb bs(1) by (metis nth_map prod.collapse)
  have A: "take k as @ as ! k # drop (Suc k) as = as" and B: "take k bs @ bs ! k # drop (Suc k) bs = bs"
    by (rule id_take_nth_drop [symmetric], rule k, rule id_take_nth_drop [symmetric], rule kb)
  have "map fst (take k as) = map fst (take k bs)" "map fst (drop (Suc k) as) = map fst (drop (Suc k) bs)"
    using bs(1) by (simp_all flip: take_map drop_map)
  from assigned_value [of "take k as" "as ! k" "drop (Suc k) as" fs, unfolded A, OF as this bs(2), of "snd (bs ! k)"]
  show ?thesis unfolding b B .
qed

lemma eval_mask_rows:
  assumes "lib_ok L" "frame_ok (sc_Fields s) f" "w = None \<longleftrightarrow> wh = None"
    and "\<And>n. w = Some n \<Longrightarrow> expr_node L s (the wh) = Some n \<and> (\<exists>x. node_ok L (sc_Fields s) (n, x) \<and> storage (at_type x) = ArrowBoolean)"
  shows "returns (eval_mask L w f) (\<lambda>m. case m of None \<Rightarrow> wh = None
    | Some sel \<Rightarrow> wh \<noteq> None \<and> length sel = fr_rows f \<and> row_mask L s wh f = Inr sel)"
proof (cases w)
  case (Some n)
  obtain x where x: "node_ok L (sc_Fields s) (n, x)" "storage (at_type x) = ArrowBoolean" using assms(4) [OF Some] by blast
  obtain e where e: "wh = Some e" "expr_node L s e = Some n" using assms(3,4) Some by auto
  have h: "returns (evalArray L n f) (\<lambda>m. arr_ok (fr_rows f) ArrowBoolean m \<and> evalArray L n f = Inr m)"
    using evalArray_ok [OF assms(1) x(1) assms(2)] x(2) by (auto simp: returns_def split: sum.splits)
  show ?thesis unfolding eval_mask_def Some option.case
    by (rule returns_bind [OF h]) (auto simp: arr_ok_def e row_mask_def expr_array_def)
qed (use assms(3) in \<open>simp add: eval_mask_def\<close>)

text \<open>The value of one entry, and where the values of all entries go.\<close>

definition entry_rows :: "lib \<Rightarrow> schema \<Rightarrow> cell list \<Rightarrow> frame \<Rightarrow> string \<times> expr \<Rightarrow> arr \<Rightarrow> bool" where
  "entry_rows L s sel f ne v \<longleftrightarrow> (\<exists>a. expr_array L s (snd ne) f = Inr a \<and>
     ar_cells v = map (\<lambda>row. if sel ! row = CBool True then ar_cells a ! row else old_cell s f (fst ne) row) [0..<fr_rows f])"

lemma entry_value_rows:
  assumes L: "lib_ok L" and e: "entry_ok L s wh (idx, n, fld)" "expr_node L s e = Some n" and f: "frame_ok (sc_Fields s) f"
    and m: "case m of None \<Rightarrow> sel = replicate (fr_rows f) (CBool True) | Some sel' \<Rightarrow> sel' = sel \<and> wh \<and> length sel = fr_rows f"
  shows "returns (entry_value L m f (idx, n)) (entry_rows L s sel f (fd_Name fld, e))"
proof -
  obtain x where x: "node_ok L (sc_Fields s) (n, x)" "storage (at_type x) = Type fld" using e by (auto simp: entry_ok_def)
  have v: "returns (evalArray L n f) (\<lambda>a. arr_ok (fr_rows f) (Type fld) a \<and> expr_array L s e f = Inr a)"
    using evalArray_ok [OF L x(1) f] x(2) e(2) by (auto simp: expr_array_def returns_def split: sum.splits)
  have idx: "idx = field_index (fd_Name fld) (sc_Fields s)" using e(1) by (simp add: entry_ok_def)
  show ?thesis
    unfolding entry_value_def fst_conv snd_conv
  proof (rule returns_bind [OF v], elim conjE)
    fix a assume a: "arr_ok (fr_rows f) (Type fld) a" "expr_array L s e f = Inr a"
    then have len: "length (ar_cells a) = fr_rows f" and t: "ar_type a = Type fld" by (simp_all add: arr_ok_def)
    show "returns (case m of None \<Rightarrow> Inr a | Some sel \<Rightarrow>
           (case idx of None \<Rightarrow> IfElse L sel a (lb_MakeArrayOfNull L (ar_type a) (fr_rows f))
            | Some i \<Rightarrow> if i < length (fr_cols f) then IfElse L sel a (fr_cols f ! i) else Inl (ErrPanic ''index out of range'')))
       (entry_rows L s sel f (fd_Name fld, e))"
    proof (cases m)
      case None
      then have "ar_cells a = map (\<lambda>row. if sel ! row = CBool True then ar_cells a ! row else old_cell s f (fd_Name fld) row) [0..<fr_rows f]"
        using m len by (intro nth_equalityI) simp_all
      then show ?thesis using None a(2) by (simp only: entry_rows_def fst_conv snd_conv option.case returns_simps(1)) blast
    next
      case (Some sel')
      then have s': "sel' = sel" "length sel = fr_rows f" and wh using m by simp_all
      let ?old = "case idx of None \<Rightarrow> lb_MakeArrayOfNull L (ar_type a) (fr_rows f) | Some i \<Rightarrow> fr_cols f ! i"
      have i: "i < length (fr_cols f) \<and> arr_ok (fr_rows f) (Type fld) (fr_cols f ! i)" if "idx = Some i" for i
        using field_index_Some [of "fd_Name fld" "sc_Fields s" i] that idx f e(1) \<open>wh\<close>
        by (auto simp: frame_ok_def list_all2_conv_all_nth entry_ok_def)
      have old: "arr_ok (fr_rows f) (Type fld) ?old"
        using i t by (auto simp: lib_okD(6) [OF L] arr_ok_def split: option.splits)
      have "returns (IfElse L sel a ?old) (entry_rows L s sel f (fd_Name fld, e))"
        using IfElse_arr [OF L s'(2) a(1) old] a(2)
        by (elim returns_mono) (auto simp: entry_rows_def old_cell_def idx [symmetric] lib_okD(6) [OF L] split: option.splits)
      then show ?thesis using Some s' i by (auto split: option.splits)
    qed
  qed
qed

lemma entry_values_rows:
  assumes L: "lib_ok L" and f: "frame_ok (sc_Fields s) f"
    and m: "case m of None \<Rightarrow> sel = replicate (fr_rows f) (CBool True) | Some sel' \<Rightarrow> sel' = sel \<and> wh \<and> length sel = fr_rows f"
  shows "list_all2 (\<lambda>(name, e) (idx, n, fld). fd_Name fld = name \<and> expr_node L s e = Some n) entries es \<Longrightarrow>
    list_all (entry_ok L s wh) es \<Longrightarrow>
    returns (entry_values L m f (map (\<lambda>(i, n, f). (i, n)) es)) (list_all2 (entry_rows L s sel f) entries)"
proof (induction entries es rule: list_all2_induct)
  case (Cons ne entries e' es)
  obtain name e idx n fld where ne: "ne = (name, e)" "e' = (idx, n, fld)" "fd_Name fld = name" "expr_node L s e = Some n"
    using Cons.hyps(1) by (cases ne; cases e') auto
  have h: "returns (entry_value L m f (idx, n)) (entry_rows L s sel f ne)"
    using entry_value_rows [OF L _ ne(4) f m] Cons.prems ne by auto
  have hs: "returns (entry_values L m f (map (\<lambda>(i, n, f). (i, n)) es)) (list_all2 (entry_rows L s sel f) entries)"
    using Cons by simp
  show ?case by (simp add: ne(2)) (rule returns_bind [OF h], rule returns_bind [OF hs], simp)
qed simp

lemma assigned_rows:
  assumes es: "list_all (entry_ok L s wh) es" and d: "distinct (map fst entries)"
    and all: "list_all2 (\<lambda>(name, e) (idx, n, fld). fd_Name fld = name \<and> expr_node L s e = Some n) entries es"
    and outs: "list_all2 (entry_rows L s sel f) entries outs" and f: "frame_ok (sc_Fields s) f"
  defines "fs' \<equiv> fold assign (map (\<lambda>(i, n, f). (i, f)) es) (sc_Fields s)"
    and "cols \<equiv> fold assign (zip (map fst (map (\<lambda>(i, n, f). (i, n)) es)) outs) (fr_cols f)"
  shows "ne \<in> set entries \<Longrightarrow> \<exists>j. field_index (fst ne) fs' = Some j \<and> entry_rows L s sel f ne (cols ! j)"
    and "m \<notin> fst ` set entries \<Longrightarrow> field_index m (sc_Fields s) = Some i \<Longrightarrow> \<exists>j. field_index m fs' = Some j \<and> cols ! j = fr_cols f ! i"
proof -
  let ?as = "map (\<lambda>(i, n, f). (i, f)) es" and ?bs = "zip (map fst (map (\<lambda>(i, n, f). (i, n)) es)) outs"
  have len: "length es = length entries" "length outs = length entries" "length (sc_Fields s) = length (fr_cols f)"
    using list_all2_lengthD [OF all] list_all2_lengthD [OF outs] f by (simp_all add: frame_ok_def list_all2_lengthD)
  have nm: "map (\<lambda>x. fd_Name (snd x)) ?as = map fst entries"
    using all by (induction rule: list_all2_induct) auto
  have idx: "\<forall>x \<in> set ?as. fst x = field_index (fd_Name (snd x)) (sc_Fields s)"
    using es by (auto simp: list_all_iff entry_ok_def)
  have fsts: "map fst ?bs = map fst ?as" using len by (simp add: map_fst_zip case_prod_unfold)
  show "\<exists>j. field_index (fst ne) fs' = Some j \<and> entry_rows L s sel f ne (cols ! j)" if ne: "ne \<in> set entries"
  proof -
    obtain k where k: "k < length entries" "entries ! k = ne" using ne by (auto simp: in_set_conv_nth)
    then have n: "fd_Name (snd (?as ! k)) = fst ne" and v: "snd (?bs ! k) = outs ! k"
      using len arg_cong [OF nm, of "\<lambda>xs. xs ! k"] by simp_all
    have ka: "k < length ?as" using k(1) len(1) by simp
    have "entry_rows L s sel f ne (outs ! k)" using list_all2_nthD [OF outs k(1)] k(2) by simp
    then show ?thesis
      using assigned_at [OF idx d [folded nm] fsts [symmetric] len(3) ka] unfolding n v fs'_def cols_def by metis
  qed
  show "\<exists>j. field_index m fs' = Some j \<and> cols ! j = fr_cols f ! i" if m: "m \<notin> fst ` set entries" "field_index m (sc_Fields s) = Some i"
  proof -
    have "m \<notin> (\<lambda>x. fd_Name (snd x)) ` set ?as" using m(1) unfolding set_map [symmetric] nm by simp
    note o = assign_other [OF idx this m(2)]
    have i: "i < length (sc_Fields s)" using field_index_Some [OF m(2)] by simp
    have "Some i \<notin> fst ` set ?as" by (rule o(1))
    moreover from this have "Some i \<notin> fst ` set ?bs" using fsts by (metis list.set_map)
    ultimately show ?thesis
      using o(2) assign_keeps [of i "fr_cols f" ?bs] i len(3) unfolding fs'_def cols_def by auto
  qed
qed

lemma compute_rows:
  assumes L: "lib_ok L" and f: "frame_ok (sc_Fields s) f" and es: "list_all (entry_ok L s (wh \<noteq> None)) es"
    and all: "list_all2 (\<lambda>(name, e) (idx, n, fld). fd_Name fld = name \<and> expr_node L s e = Some n) entries es"
    and d: "distinct (map fst entries)" and w: "w = None \<longleftrightarrow> wh = None"
      "\<And>n. w = Some n \<Longrightarrow> expr_node L s (the wh) = Some n \<and> (\<exists>x. node_ok L (sc_Fields s) (n, x) \<and> storage (at_type x) = ArrowBoolean)"
    and s': "sc_Fields s' = fold assign (map (\<lambda>(i, n, f). (i, f)) es) (sc_Fields s)"
  shows "returns (op_apply L (ComputeOp w (map (\<lambda>(i, n, f). (i, n)) es)) f) (rows_rewritten L s s' entries wh f)"
  unfolding op_apply_def op.case
proof (rule returns_bind [OF eval_mask_rows [OF L f w]])
  fix m :: "cell list option"
  assume "case m of None \<Rightarrow> wh = None | Some sel \<Rightarrow> wh \<noteq> None \<and> length sel = fr_rows f \<and> row_mask L s wh f = Inr sel"
  then obtain sel where sel: "row_mask L s wh f = Inr sel"
    "case m of None \<Rightarrow> sel = replicate (fr_rows f) (CBool True) | Some sel' \<Rightarrow> sel' = sel \<and> wh \<noteq> None \<and> length sel = fr_rows f"
    by (auto simp: row_mask_def split: option.splits)
  show "returns (bind_res (entry_values L m f (map (\<lambda>(i, n, f). (i, n)) es))
      (\<lambda>outs. Inr (f\<lparr>fr_cols := fold assign (zip (map fst (map (\<lambda>(i, n, f). (i, n)) es)) outs) (fr_cols f)\<rparr>))) (rows_rewritten L s s' entries wh f)"
  proof (rule returns_bind [OF entry_values_rows [OF L f sel(2) all es]])
    fix outs assume outs: "list_all2 (entry_rows L s sel f) entries outs"
    note r = assigned_rows [OF es d all outs f, folded s']
    show "returns (Inr (f\<lparr>fr_cols := fold assign (zip (map fst (map (\<lambda>(i, n, f). (i, n)) es)) outs) (fr_cols f)\<rparr>)) (rows_rewritten L s s' entries wh f)"
      unfolding returns_simps(1) rows_rewritten_def
    proof (intro conjI exI [of _ sel] sel(1) ballI allI impI; (elim conjE)?)
      fix ne assume "ne \<in> set entries"
      from r(1) [OF this] show "case ne of (m, e) \<Rightarrow> \<exists>a j. expr_array L s e f = Inr a \<and> field_index m (sc_Fields s') = Some j \<and>
          ar_cells (fr_cols (f\<lparr>fr_cols := fold assign (zip (map fst (map (\<lambda>(i, n, f). (i, n)) es)) outs) (fr_cols f)\<rparr>) ! j) =
            map (\<lambda>row. if sel ! row = CBool True then ar_cells a ! row else old_cell s f m row) [0..<fr_rows f]"
        by (cases ne) (auto simp: entry_rows_def)
    qed (use r(2) in simp_all)
  qed
qed

text \<open>The layout the steps of a definition leave.\<close>

definition layout_after :: "lib \<Rightarrow> schema \<Rightarrow> step list \<Rightarrow> schema" where
  "layout_after L inp sts = cp_layout (compile_steps L (sc_Resource inp) 0 sts (compiler_at inp))"

lemma compute_step_placed:
  assumes L: "lib_ok L" and sts: "map_of (df_Resources def) (sc_Resource inp) = Some (pre @ st # post)"
    and st: "st_Rename st = None" "st_Drop st = None" "st_Compute st = Some entries" "entries \<noteq> []" "distinct (map fst entries)"
    and ok: "cp_errs (run_compiler L def inp) = []"
  obtains ops x ops' where "cp_ops (run_compiler L def inp) = ops @ x # ops'"
    "carries L (set (sc_PrimaryKey inp)) (sc_Fields inp) ops (sc_Fields (layout_after L inp pre))"
    "\<And>f. frame_ok (sc_Fields (layout_after L inp pre)) f \<Longrightarrow> returns (op_apply L x f)
      (\<lambda>f'. rows_rewritten L (layout_after L inp pre) (layout_after L inp (pre @ [st])) entries (st_Where st) f f' \<and>
        frame_ok (sc_Fields (layout_after L inp (pre @ [st]))) f')"
    "carries L (set (sc_PrimaryKey inp)) (sc_Fields (layout_after L inp (pre @ [st]))) ops' (sc_Fields (cp_layout (run_compiler L def inp)))"
proof -
  define c1 where "c1 = compile_steps L (sc_Resource inp) 0 pre (compiler_at inp)"
  define p where "p = [PField ''resources'', PKey (sc_Resource inp), PField ''steps'', PIndex (length pre)]"
  define c2 where "c2 = compile_compute L p entries (st_Where st) c1"
  have c3: "run_compiler L def inp = compile_steps L (sc_Resource inp) (Suc (length pre)) post c2"
    using sts st by (simp add: run_compiler_def Let_def compile_steps_append compile_step_def c2_def c1_def p_def compiler_at_def)
  have lay: "layout_after L inp pre = cp_layout c1" "layout_after L inp (pre @ [st]) = cp_layout c2"
    using st by (simp_all add: layout_after_def compile_steps_append compile_step_def c2_def c1_def p_def)
  have "cp_errs c2 = []" using compile_steps_errs [of c2] ok unfolding c3 by (metis le_zero_eq length_0_conv)
  then obtain w es where ops: "cp_ops c2 = cp_ops c1 @ [ComputeOp w (map (\<lambda>(i, n, f). (i, n)) es)]"
    and s': "sc_Fields (cp_layout c2) = fold assign (map (\<lambda>(i, n, f). (i, f)) es) (sc_Fields (cp_layout c1))"
    and all: "list_all2 (\<lambda>(name, e) (idx, n, fld). fd_Name fld = name \<and> expr_node L (cp_layout c1) e = Some n) (sort_key fst entries) es"
    and es: "list_all (entry_ok L (cp_layout c1) (st_Where st \<noteq> None)) es" and w: "w = None \<longleftrightarrow> st_Where st = None"
      "\<And>n. w = Some n \<Longrightarrow> expr_node L (cp_layout c1) (the (st_Where st)) = Some n \<and>
        (\<exists>x. node_ok L (sc_Fields (cp_layout c1)) (n, x) \<and> storage (at_type x) = ArrowBoolean)"
    using compute_compiled [OF L _ st(4)] unfolding c2_def by blast
  let ?x = "ComputeOp w (map (\<lambda>(i, n, f). (i, n)) es)"
  have k1: "step_ok L (compiler_at inp) c1" and k2: "step_ok L c1 c2" and k3: "step_ok L c2 (run_compiler L def inp)"
    unfolding c3 c1_def c2_def by (rule compile_steps_ok [OF L] compile_compute_ok [OF L])+
  have keys: "sc_PrimaryKey (cp_layout c1) = sc_PrimaryKey inp" "sc_PrimaryKey (cp_layout c2) = sc_PrimaryKey inp"
    using k1 k2 by (simp_all add: step_ok_def compiler_at_def)
  obtain ops' where ops': "cp_ops (run_compiler L def inp) = cp_ops c2 @ ops'"
    "carries L (set (sc_PrimaryKey inp)) (sc_Fields (cp_layout c2)) ops' (sc_Fields (cp_layout (run_compiler L def inp)))"
    using k3 keys by (auto simp: step_ok_def)
  have rows: "returns (op_apply L ?x f) (\<lambda>f'. rows_rewritten L (cp_layout c1) (cp_layout c2) entries (st_Where st) f f' \<and> frame_ok (sc_Fields (cp_layout c2)) f')"
    if f: "frame_ok (sc_Fields (cp_layout c1)) f" for f
  proof -
    have "distinct (map fst (sort_key fst entries))" using st(5) by (simp add: distinct_map)
    from compute_rows [OF L f es all this w s'] have "returns (op_apply L ?x f) (rows_rewritten L (cp_layout c1) (cp_layout c2) entries (st_Where st) f)"
      by (rule returns_mono, unfold rows_rewritten_def set_sort)
    moreover have "carries L (set (sc_PrimaryKey inp)) (sc_Fields (cp_layout c1)) [?x] (sc_Fields (cp_layout c2))"
      using k2 keys ops by (simp add: step_ok_def)
    ultimately show ?thesis
      using f by (cases "op_apply L ?x f") (auto simp: carries_def returns_def)
  qed
  show thesis
    by (rule that [of "cp_ops c1" ?x ops']) (use k1 ops ops' rows in \<open>simp_all add: lay step_ok_def compiler_at_def\<close>)
qed

section \<open>A run\<close>

text \<open>
  A library that knows the comparison of a column with a constant, and a transform of users run with
  it: the name of user 1 in upper case, then renamed.
\<close>

definition demo_call :: "string \<Rightarrow> int option \<Rightarrow> datum list \<Rightarrow> datum res" where
  "demo_call f opt args = (case args of
     [DArray a, DScalar t c] \<Rightarrow>
       if f = ''equal'' then Inr (DArray \<lparr>ar_type = ArrowBoolean, ar_cells = map (\<lambda>x. if x = CNull then CNull else CBool (x = c)) (ar_cells a)\<rparr>)
       else Inl (ErrMsg ''not implemented'')
   | _ \<Rightarrow> Inl (ErrMsg ''not implemented''))"

definition demo_lib :: lib where
  "demo_lib = \<lparr>lb_CallFunction = demo_call,
     lb_Concatenate = (\<lambda>a b. Inr \<lparr>ar_type = ar_type a, ar_cells = ar_cells a @ ar_cells b\<rparr>),
     lb_TakeArray = (\<lambda>a idx. Inr \<lparr>ar_type = ar_type a, ar_cells = map (\<lambda>i. ar_cells a ! nat i) idx\<rparr>),
     lb_MakeArrayFromScalar = (\<lambda>t c n. Inr \<lparr>ar_type = t, ar_cells = replicate n c\<rparr>),
     lb_MakeArrayOfNull = (\<lambda>t n. \<lparr>ar_type = t, ar_cells = replicate n CNull\<rparr>),
     lb_NewRecordBatch = (\<lambda>sch cols n.
       if list_all2 (\<lambda>f a. ar_type a = af_Type f \<and> length (ar_cells a) = n) sch cols
       then Inr \<lparr>rb_Schema = sch, rb_Columns = map ar_cells cols, rb_NumRows = n\<rparr> else Inl (ErrPanic ''arrow/array: mismatch'')),
     lb_ToLower = id, lb_ToUpper = id, lb_Regexp = (\<lambda>_. None), lb_Sum = (\<lambda>_ s. s), lb_Zone = (\<lambda>_. None),
     lb_FormatFloat = (\<lambda>_. ''0''), lb_Float64OfInt = nat, lb_Float32OfInt = nat, lb_Float32OfFloat64 = id\<rparr>"

lemma demo_lib_ok: "lib_ok demo_lib"
proof -
  have "returns (demo_call f opt args) (column n ArrowBoolean)" if "\<forall>d \<in> set args. datum_ok n t d" for f opt args n t
    using that by (auto simp: demo_call_def datum_ok_def arr_ok_def column_def split: list.splits datum.splits)
  moreover have "returns (demo_call f opt args) (column n t)" if "keeps_type f t" for f opt args n t
    using that by (auto simp: demo_call_def keeps_type_def split: list.splits datum.splits)
  ultimately show ?thesis by (auto simp: lib_ok_def demo_lib_def)
qed

definition demo_schema :: schema where
  "demo_schema = \<lparr>sc_envelope = False, sc_projectedEnvelope = False, sc_Resource = ''users'', sc_DestinationResource = ''users'',
     sc_Fields = [simple_field ''id'' ''int64'', simple_field ''name'' ''string''], sc_PrimaryKey = [''id''], sc_Engine = []\<rparr>"

definition demo_compute :: step where
  "demo_compute = \<lparr>st_Rename = None, st_Drop = None, st_Compute = Some [(''name'', EFn ''upper'' [ECol ''name''])],
     st_Where = Some (EFn ''eq'' [ECol ''id'', ELit (LInt 1)])\<rparr>"

definition demo_def :: "step list \<Rightarrow> def_doc" where
  "demo_def steps = \<lparr>df_Version = 1, df_Resources = [(''users'', steps)]\<rparr>"

definition demo_steps :: "step list" where
  "demo_steps = [demo_compute, \<lparr>st_Rename = Some [(''name'', ''full_name'')], st_Drop = None, st_Compute = None, st_Where = None\<rparr>]"

definition demo_rename :: step where
  "demo_rename = \<lparr>st_Rename = Some [(''name'', ''full_name'')], st_Drop = None, st_Compute = None, st_Where = None\<rparr>"

definition demo_tag :: step where
  "demo_tag = \<lparr>st_Rename = None, st_Drop = None,
     st_Compute = Some [(''tag'', EFn ''lower'' [ECol ''full_name'']), (''full_name'', EFn ''upper'' [ECol ''full_name''])],
     st_Where = Some (EFn ''eq'' [ECol ''id'', ELit (LInt 1)])\<rparr>"

definition demo_record :: record_batch where
  "demo_record = \<lparr>rb_Schema = ArrowBatch.Schema demo_schema, rb_Columns = [[CInt64 1, CInt64 2], [CString ''ann'', CString ''bob'']], rb_NumRows = 2\<rparr>"

lemma demo_record_ok: "record_ok demo_record" "leads demo_schema [] demo_record"
  by (simp_all add: record_ok_def leads_def demo_record_def demo_schema_def ArrowBatch.Schema_def ArrowBatch.Field_def Type_def)

lemma demo_compiles: "\<exists>pl. Compile demo_lib (demo_def demo_steps) demo_schema = Inr pl"
proof -
  have "case Compile demo_lib (demo_def demo_steps) demo_schema of Inl _ \<Rightarrow> False | Inr _ \<Rightarrow> True" by code_simp
  then show ?thesis by (cases "Compile demo_lib (demo_def demo_steps) demo_schema") simp_all
qed

lemma demo_runs:
  "(case Compile demo_lib (demo_def demo_steps) demo_schema of Inl _ \<Rightarrow> None | Inr pl \<Rightarrow> Some (map_sum (\<lambda>_. ()) rb_Columns (Apply demo_lib pl demo_record)))
   = Some (Inr [[CInt64 1, CInt64 2], [CString ''ANN'', CString ''bob'']])"
  by code_simp

section \<open>Properties of transforms\<close>

lemma Apply_sound:
  assumes "lib_ok L" "Compile L def inp = Inr pl" "record_ok r" "leads inp extra r"
  shows "returns (Apply L pl r) (\<lambda>q. rb_Schema q = ArrowBatch.Schema (pl_out pl) @ extra \<and> rb_NumRows q = rb_NumRows r \<and>
     record_ok q \<and> drop (length (sc_Fields (pl_out pl))) (rb_Columns q) = drop (length (sc_Fields inp)) (rb_Columns r))"
proof -
  let ?c = "run_compiler L def inp"
  have "returns (run_ops L (cp_ops ?c) (input_frame inp r)) (\<lambda>f. frame_ok (sc_Fields (cp_layout ?c)) f \<and> fr_rows f = rb_NumRows r \<and>
      length (fr_cols f) = length (sc_Fields (cp_layout ?c)))"
    by (rule returns_mono [OF run_compiler_ok [OF assms(1), THEN conjunct2, unfolded carries_def, rule_format, OF input_frame_ok(1) [OF assms(3,4)]]])
      (auto simp: input_frame_def frame_ok_def dest: list_all2_lengthD)
  from Apply_record [OF assms(1,3,4) this] show ?thesis
    unfolding Compile_Inr(1) [OF assms(2)]
    by (rule returns_mono) (auto simp: output_record_def newPlan_def)
qed

text \<open>
  C9: A definition that compiles against a schema applies to every record batch of that schema, with
  any columns after its own, without a panic: the result is an error of a kernel, or a record batch of the
  plan's output schema followed by the extra columns, with the same rows and every value of its
  column's type.
\<close>

theorem transform_sound:
  assumes "lib_ok L" "Compile L def inp = Inr pl" "record_ok r" "leads inp extra r"
  shows "returns (Apply L pl r) (\<lambda>q. rb_Schema q = ArrowBatch.Schema (pl_out pl) @ extra \<and> rb_NumRows q = rb_NumRows r \<and>
     record_ok q \<and> drop (length (sc_Fields (pl_out pl))) (rb_Columns q) = drop (length (sc_Fields inp)) (rb_Columns r))"
  using assms by (rule Apply_sound)

theorem transform_sound_witness:
  "\<exists>pl. Compile demo_lib (demo_def demo_steps) demo_schema = Inr pl \<and>
     returns (Apply demo_lib pl demo_record) (\<lambda>q. rb_Schema q = ArrowBatch.Schema (pl_out pl) \<and> rb_NumRows q = 2 \<and> record_ok q)"
proof -
  obtain pl where pl: "Compile demo_lib (demo_def demo_steps) demo_schema = Inr pl" using demo_compiles by blast
  from transform_sound [OF demo_lib_ok pl demo_record_ok]
  have "returns (Apply demo_lib pl demo_record) (\<lambda>q. rb_Schema q = ArrowBatch.Schema (pl_out pl) \<and> rb_NumRows q = 2 \<and> record_ok q)"
    by (rule returns_mono) (simp add: demo_record_def)
  with pl show ?thesis by blast
qed

text \<open>
  C10: A primary key column goes through a transform untouched: the key of the output schema is the key
  of the input schema, each key column that the input has is in the output under the same name with
  the same type, and its values are the same, row for row.
\<close>

theorem transform_keeps_keys:
  assumes "lib_ok L" "Compile L def inp = Inr pl" "record_ok r" "leads inp extra r"
    and "k \<in> set (sc_PrimaryKey inp)" "field_index k (sc_Fields inp) = Some i"
  shows "sc_PrimaryKey (pl_out pl) = sc_PrimaryKey inp \<and>
    returns (Apply L pl r) (\<lambda>q. \<exists>j. field_index k (sc_Fields (pl_out pl)) = Some j \<and>
      sc_Fields (pl_out pl) ! j = sc_Fields inp ! i \<and> rb_Columns q ! j = rb_Columns r ! i)"
proof
  let ?c = "run_compiler L def inp"
  note ok = run_compiler_ok [OF assms(1), of def inp] and pl = Compile_Inr(1) [OF assms(2)] and f0 = input_frame_ok [OF assms(3,4)]
  show "sc_PrimaryKey (pl_out pl) = sc_PrimaryKey inp" using ok pl by (simp add: newPlan_def)
  have i: "ar_cells (fr_cols (input_frame inp r) ! i) = rb_Columns r ! i"
    using f0(2) field_index_Some [OF assms(6)] by simp
  have run: "returns (run_ops L (cp_ops ?c) (input_frame inp r)) (\<lambda>f. frame_ok (sc_Fields (cp_layout ?c)) f \<and> fr_rows f = rb_NumRows r \<and>
      (frame_ok (sc_Fields (cp_layout ?c)) f \<and> (\<exists>j. field_index k (sc_Fields (cp_layout ?c)) = Some j \<and>
         sc_Fields (cp_layout ?c) ! j = sc_Fields inp ! i \<and> ar_cells (fr_cols f ! j) = rb_Columns r ! i)))"
    by (rule returns_mono [OF ok [THEN conjunct2, unfolded carries_def, rule_format, OF f0(1)]])
      (use assms(5,6) i in \<open>auto simp: input_frame_def dest!: bspec [of _ _ k]\<close>)
  show "returns (Apply L pl r) (\<lambda>q. \<exists>j. field_index k (sc_Fields (pl_out pl)) = Some j \<and>
      sc_Fields (pl_out pl) ! j = sc_Fields inp ! i \<and> rb_Columns q ! j = rb_Columns r ! i)"
    unfolding pl
  proof (rule returns_mono [OF Apply_record [OF assms(1,3,4) run]], elim exE conjE)
    fix q f j assume q: "q = output_record inp (cp_layout ?c) extra r f" and f: "frame_ok (sc_Fields (cp_layout ?c)) f"
      and j: "field_index k (sc_Fields (cp_layout ?c)) = Some j" "sc_Fields (cp_layout ?c) ! j = sc_Fields inp ! i"
        "ar_cells (fr_cols f ! j) = rb_Columns r ! i"
    have "j < length (fr_cols f)" using field_index_Some [OF j(1)] f by (simp add: frame_ok_def list_all2_lengthD)
    then show "\<exists>j. field_index k (sc_Fields (pl_out (newPlan inp (cp_layout ?c) (cp_ops ?c)))) = Some j \<and>
      sc_Fields (pl_out (newPlan inp (cp_layout ?c) (cp_ops ?c))) ! j = sc_Fields inp ! i \<and> rb_Columns q ! j = rb_Columns r ! i"
      using j q by (auto simp: newPlan_def output_record_def nth_append)
  qed
qed

theorem transform_keeps_keys_witness:
  "\<exists>pl. Compile demo_lib (demo_def demo_steps) demo_schema = Inr pl \<and> sc_PrimaryKey (pl_out pl) = [''id''] \<and>
     returns (Apply demo_lib pl demo_record) (\<lambda>q. \<exists>j. field_index ''id'' (sc_Fields (pl_out pl)) = Some j \<and> rb_Columns q ! j = [CInt64 1, CInt64 2])"
proof -
  obtain pl where pl: "Compile demo_lib (demo_def demo_steps) demo_schema = Inr pl" using demo_compiles by blast
  have k: "''id'' \<in> set (sc_PrimaryKey demo_schema)" "field_index ''id'' (sc_Fields demo_schema) = Some 0" by (simp_all add: demo_schema_def)
  note t = transform_keeps_keys [OF demo_lib_ok pl demo_record_ok k]
  have "returns (Apply demo_lib pl demo_record) (\<lambda>q. \<exists>j. field_index ''id'' (sc_Fields (pl_out pl)) = Some j \<and> rb_Columns q ! j = [CInt64 1, CInt64 2])"
    by (rule returns_mono [OF t [THEN conjunct2]]) (auto simp: demo_record_def)
  then show ?thesis using pl t by (auto simp: demo_schema_def)
qed

text \<open>
  C13: A compute step rewrites the rows its condition is true on and no others. Take any step of a
  compiled definition that computes columns, with a condition or without, wherever it stands among the
  steps. A run of the plan gets to a frame of the layout the steps before it leave, and the step takes
  that frame to one where each column it assigns has the value of its expression on the rows where the
  condition is true, and on the rows where it is false or null what the column held before, or null
  when the column is new; every other column is as it was. The operations of the later steps go on
  from there to the output.
\<close>

theorem transform_where_rows:
  assumes L: "lib_ok L" and pl: "Compile L def inp = Inr pl"
    and sts: "map_of (df_Resources def) (sc_Resource inp) = Some (pre @ st # post)"
    and st: "st_Rename st = None" "st_Drop st = None" "st_Compute st = Some entries" "entries \<noteq> []" "distinct (map fst entries)"
    and r: "record_ok r" "leads inp extra r"
  shows "\<exists>ops x ops'. pl_ops pl = ops @ x # ops' \<and>
    returns (Apply L pl r) (\<lambda>q. \<exists>f f' g. run_ops L ops (input_frame inp r) = Inr f \<and> frame_ok (sc_Fields (layout_after L inp pre)) f \<and>
       op_apply L x f = Inr f' \<and> frame_ok (sc_Fields (layout_after L inp (pre @ [st]))) f' \<and>
       rows_rewritten L (layout_after L inp pre) (layout_after L inp (pre @ [st])) entries (st_Where st) f f' \<and>
       run_ops L ops' f' = Inr g \<and> q = output_record inp (pl_out pl) extra r g)"
proof -
  let ?c = "run_compiler L def inp" and ?s = "layout_after L inp pre" and ?s' = "layout_after L inp (pre @ [st])"
  note pl' = Compile_Inr [OF pl] and f0 = input_frame_ok [OF r]
  obtain ops x ops' where x: "cp_ops ?c = ops @ x # ops'"
    and pre: "carries L (set (sc_PrimaryKey inp)) (sc_Fields inp) ops (sc_Fields ?s)"
    and mid: "\<And>f. frame_ok (sc_Fields ?s) f \<Longrightarrow>
      returns (op_apply L x f) (\<lambda>f'. rows_rewritten L ?s ?s' entries (st_Where st) f f' \<and> frame_ok (sc_Fields ?s') f')"
    and post: "carries L (set (sc_PrimaryKey inp)) (sc_Fields ?s') ops' (sc_Fields (cp_layout ?c))"
    by (rule compute_step_placed [OF L sts st pl'(2)]) blast
  let ?P = "\<lambda>g. \<exists>f f'. run_ops L ops (input_frame inp r) = Inr f \<and> frame_ok (sc_Fields ?s) f \<and> op_apply L x f = Inr f' \<and>
     frame_ok (sc_Fields ?s') f' \<and> rows_rewritten L ?s ?s' entries (st_Where st) f f' \<and> run_ops L ops' f' = Inr g"
  have "returns (run_ops L (cp_ops ?c) (input_frame inp r)) ?P"
    unfolding x run_ops_append run_ops.simps
  proof (rule returns_bind [OF returns_self [OF pre [unfolded carries_def, rule_format, OF f0(1)]]], elim conjE)
    fix f assume f: "frame_ok (sc_Fields ?s) f" "run_ops L ops (input_frame inp r) = Inr f"
    show "returns (bind_res (op_apply L x f) (run_ops L ops')) ?P"
    proof (rule returns_bind [OF returns_self [OF mid [OF f(1)]]], elim conjE)
      fix f' assume f': "rows_rewritten L ?s ?s' entries (st_Where st) f f'" "frame_ok (sc_Fields ?s') f'" "op_apply L x f = Inr f'"
      show "returns (run_ops L ops' f') ?P"
        by (rule returns_mono [OF returns_self [OF post [unfolded carries_def, rule_format, OF f'(2)]]]) (use f f' in blast)
    qed
  qed
  moreover have "returns (run_ops L (cp_ops ?c) (input_frame inp r)) (\<lambda>g. frame_ok (sc_Fields (cp_layout ?c)) g \<and> fr_rows g = rb_NumRows r)"
    by (rule returns_mono [OF run_compiler_ok [OF L, THEN conjunct2, unfolded carries_def, rule_format, OF f0(1)]]) simp
  ultimately have "returns (run_ops L (cp_ops ?c) (input_frame inp r)) (\<lambda>g. frame_ok (sc_Fields (cp_layout ?c)) g \<and> fr_rows g = rb_NumRows r \<and> ?P g)"
    by (simp add: returns_def split: sum.splits)
  from Apply_record [OF L r this] show ?thesis
    unfolding pl'(1) by (intro exI [of _ ops] exI [of _ x] exI [of _ ops'] conjI, simp add: newPlan_def x, elim returns_mono)
      (force simp: newPlan_def)
qed

theorem transform_where_rows_witness:
  "\<exists>pl q f f'. Compile demo_lib (demo_def [demo_rename, demo_tag]) demo_schema = Inr pl \<and> Apply demo_lib pl demo_record = Inr q \<and>
     rows_rewritten demo_lib (layout_after demo_lib demo_schema [demo_rename]) (layout_after demo_lib demo_schema [demo_rename, demo_tag])
       [(''tag'', EFn ''lower'' [ECol ''full_name'']), (''full_name'', EFn ''upper'' [ECol ''full_name''])]
       (Some (EFn ''eq'' [ECol ''id'', ELit (LInt 1)])) f f'"
proof -
  have run: "(case Compile demo_lib (demo_def [demo_rename, demo_tag]) demo_schema of Inl _ \<Rightarrow> None
      | Inr pl \<Rightarrow> Some (map_sum (\<lambda>_. ()) rb_Columns (Apply demo_lib pl demo_record))) =
    Some (Inr [[CInt64 1, CInt64 2], [CString ''ANN'', CString ''bob''], [CString ''ann'', CNull]])"
    by code_simp
  then obtain pl where pl: "Compile demo_lib (demo_def [demo_rename, demo_tag]) demo_schema = Inr pl"
    by (cases "Compile demo_lib (demo_def [demo_rename, demo_tag]) demo_schema") simp_all
  then obtain q where q: "Apply demo_lib pl demo_record = Inr q" using run by (cases "Apply demo_lib pl demo_record") simp_all
  have st: "map_of (df_Resources (demo_def [demo_rename, demo_tag])) (sc_Resource demo_schema) = Some ([demo_rename] @ demo_tag # [])"
    "st_Rename demo_tag = None" "st_Drop demo_tag = None"
    "st_Compute demo_tag = Some [(''tag'', EFn ''lower'' [ECol ''full_name'']), (''full_name'', EFn ''upper'' [ECol ''full_name''])]"
    by (simp_all add: demo_def_def demo_schema_def demo_tag_def)
  from transform_where_rows [OF demo_lib_ok pl st _ _ demo_record_ok] q pl show ?thesis
    by (auto simp: demo_tag_def)
qed

text \<open>
  C14: A definition that compiles leaves a well-formed schema: only the fields of the schema change,
  names that were distinct stay distinct, and no column with a reserved name is added.
\<close>

theorem transform_schema:
  assumes "lib_ok L" "Compile L def inp = Inr pl" "\<forall>sts \<in> snd ` set (df_Resources def). list_all step_map_ok sts"
    and "distinct (names (sc_Fields inp))"
  shows "(\<exists>fs. pl_out pl = inp\<lparr>sc_Fields := fs\<rparr> \<and> distinct (names fs) \<and>
     (\<forall>f \<in> set fs. IsReservedColumn (lb_ToLower L) (fd_Name f) \<longrightarrow> fd_Name f \<in> set (names (sc_Fields inp)))) \<and> pl_arrowOut pl = ArrowBatch.Schema (pl_out pl)"
proof -
  have "layout_ok L inp (cp_layout (run_compiler L def inp))"
    using assms(3) compile_steps_layout [OF assms(1), of _ "\<lparr>cp_layout = inp, cp_ops = [], cp_errs = [], cp_types = []\<rparr>"]
    by (force simp: run_compiler_def Let_def layout_ok_refl dest!: map_of_SomeD split: option.splits)
  then show ?thesis using Compile_Inr(1) [OF assms(2)] assms(4) by (auto simp: layout_ok_def newPlan_def)
qed

theorem transform_schema_witness:
  "\<exists>pl fs. Compile demo_lib (demo_def demo_steps) demo_schema = Inr pl \<and> pl_out pl = demo_schema\<lparr>sc_Fields := fs\<rparr> \<and> distinct (names fs)"
proof -
  obtain pl where pl: "Compile demo_lib (demo_def demo_steps) demo_schema = Inr pl" using demo_compiles by blast
  have "\<forall>sts \<in> snd ` set (df_Resources (demo_def demo_steps)). list_all step_map_ok sts" "distinct (names (sc_Fields demo_schema))"
    by (simp_all add: demo_def_def demo_steps_def demo_compute_def step_map_ok_def demo_schema_def)
  from transform_schema [OF demo_lib_ok pl this] pl show ?thesis by blast
qed

end
