(* ===== verification/RunnerSchema.thy ===== *)
theory RunnerSchema
  imports Transform Planning
begin

text \<open>
  What a run writes and where (\<^verbatim>\<open>runner/destinations.go\<close>, \<^verbatim>\<open>runner/schema.go\<close>, \<^verbatim>\<open>pipeline/transform.go\<close>): the output
  names of resources, the schemas a schema-aware sink is asked to hold, and the transform stage of the
  pipeline. Distinct resources are shown to get distinct outputs with their own policies, and the
  schema asked of the sink is compared with the batches it is then given.
\<close>

section \<open>Output names\<close>

definition zero_policy :: write_policy where
  "zero_policy = \<lparr>wp_DestinationResource = [],
     wp_Capability = \<lparr>wc_Mode = WriteUnset, wc_RequiresPK = False, wc_RequiresOrder = False, wc_AcceptsOps = None,
       wc_Atomicity = AtomicityUnset, wc_Durability = DurabilityUnset\<rparr>,
     wp_Resource = [], wp_Keys = [], wp_Version = no_version, wp_Checkpoint = CheckpointUnset\<rparr>"

text \<open>What the runner asks of the source and the sink: whether the sink takes schemas, and the source's optional interfaces.\<close>

record ends =
  en_Schematized :: bool
  en_Schema :: "(string \<Rightarrow> schema res) option"
  en_DestinationResource :: "(string \<Rightarrow> string) option"

type_synonym schemas = "(string \<times> schema) list"

fun load_schemas :: "(string \<Rightarrow> schema res) option \<Rightarrow> string list \<Rightarrow> schemas \<Rightarrow> schemas res" where
  "load_schemas provider [] out = Inr out"
| "load_schemas provider (resource # rest) out =
     (if map_of out resource \<noteq> None then load_schemas provider rest out
      else case provider of
        None \<Rightarrow> Inl (ErrMsg ''source must provide resource schemas'')
      | Some schema_of \<Rightarrow>
          (case schema_of resource of
             Inl e \<Rightarrow> Inl (ErrWrap ''schema'' e)
           | Inr schema \<Rightarrow> load_schemas provider rest (AList.update resource schema out)))"

definition loadSinkSchemas :: "ends \<Rightarrow> string list \<Rightarrow> schemas \<Rightarrow> schemas res" where
  "loadSinkSchemas en resources schemas = (if en_Schematized en then load_schemas (en_Schema en) resources schemas else Inr schemas)"

definition schema_destination :: "schemas \<Rightarrow> string \<Rightarrow> string" where
  "schema_destination m k = (case map_of m k of Some s \<Rightarrow> sc_DestinationResource s | None \<Rightarrow> [])"

text \<open>The policy of a resource, or the default one.\<close>

definition policy_for :: "(string \<times> write_policy) list \<Rightarrow> string \<Rightarrow> write_policy" where
  "policy_for policies resource =
     (case map_of policies resource of Some p \<Rightarrow> p
      | None \<Rightarrow> (case map_of policies [] of Some p \<Rightarrow> p | None \<Rightarrow> zero_policy))"

definition output_name :: "ends \<Rightarrow> schemas \<Rightarrow> write_policy \<Rightarrow> string \<Rightarrow> string" where
  "output_name en schemas policy resource =
     (let d = wp_DestinationResource policy;
          d = (if d = [] then (case en_DestinationResource en of Some namer \<Rightarrow> namer resource | None \<Rightarrow> []) else d);
          d = (if d = [] then schema_destination schemas resource else d)
      in if d = [] then resource else d)"

text \<open>The source-facing policies, the sink-facing spec and the outputs taken so far.\<close>

record naming_state =
  nm_policies :: "(string \<times> write_policy) list"
  nm_out :: run_spec
  nm_seen :: "(string \<times> string) list"

definition name_resource :: "ends \<Rightarrow> schemas \<Rightarrow> run_spec \<Rightarrow> string \<Rightarrow> naming_state \<Rightarrow> naming_state res" where
  "name_resource en schemas spec resource st =
     (let policy = policy_for (nm_policies st) resource;
          destination = output_name en schemas policy resource;
          out = nm_out st
      in if map_of (nm_seen st) destination \<noteq> None \<and> map_of (nm_seen st) destination \<noteq> Some resource
         then Inl (ErrMsg ''resources share destination; provide distinct labels'')
         else Inr \<lparr>nm_policies = AList.update resource (policy\<lparr>wp_DestinationResource := destination\<rparr>) (nm_policies st),
           nm_out = out\<lparr>
             sp_WritePolicies := AList.update destination (policy\<lparr>wp_Resource := destination, wp_DestinationResource := []\<rparr>) (sp_WritePolicies out),
             sp_Resources := sp_Resources out @ [destination],
             sp_IngestionTypes := (case map_of (sp_IngestionTypes spec) resource of
               Some t \<Rightarrow> AList.update destination t (sp_IngestionTypes out) | None \<Rightarrow> sp_IngestionTypes out),
             sp_CursorConfigs := (case map_of (sp_CursorConfigs spec) resource of
               Some cur \<Rightarrow> AList.update destination cur (sp_CursorConfigs out) | None \<Rightarrow> sp_CursorConfigs out)\<rparr>,
           nm_seen = AList.update destination resource (nm_seen st)\<rparr>)"

fun name_resources :: "ends \<Rightarrow> schemas \<Rightarrow> run_spec \<Rightarrow> string list \<Rightarrow> naming_state \<Rightarrow> naming_state res" where
  "name_resources en schemas spec [] st = Inr st"
| "name_resources en schemas spec (r # rs) st = bind_res (name_resource en schemas spec r st) (name_resources en schemas spec rs)"

text \<open>The sink-facing spec, the source-facing spec and the schemas.\<close>

definition prepareSinkResources :: "ends \<Rightarrow> run_spec \<Rightarrow> schemas \<Rightarrow> (run_spec \<times> run_spec \<times> schemas) res" where
  "prepareSinkResources en spec schemas =
     bind_res (loadSinkSchemas en (sp_Resources spec) schemas) (\<lambda>schemas.
       let out = spec\<lparr>sp_Resources := [],
             sp_WritePolicies := (case map_of (sp_WritePolicies spec) [] of Some p \<Rightarrow> [([], p\<lparr>wp_DestinationResource := []\<rparr>)] | None \<Rightarrow> []),
             sp_IngestionTypes := (case map_of (sp_IngestionTypes spec) [] of Some t \<Rightarrow> [([], t)] | None \<Rightarrow> []),
             sp_CursorConfigs := []\<rparr>
       in bind_res (name_resources en schemas spec (sp_Resources spec) \<lparr>nm_policies = sp_WritePolicies spec, nm_out = out, nm_seen = []\<rparr>)
            (\<lambda>st. Inr (nm_out st, spec\<lparr>sp_WritePolicies := nm_policies st\<rparr>, schemas)))"

definition destinationSchema :: "string \<Rightarrow> schema \<Rightarrow> (string \<times> write_policy) list \<Rightarrow> string \<times> schema" where
  "destinationSchema resource schema policies =
     (let d = destination_at policies resource;
          destination = (if d = [] then resource else d)
      in (destination, schema\<lparr>sc_Resource := destination, sc_DestinationResource := []\<rparr>))"

section \<open>Schemas of the sink\<close>

definition auditSchema :: "lib \<Rightarrow> schema \<Rightarrow> bool \<Rightarrow> bool \<Rightarrow> schema res" where
  "auditSchema L schema cdc cdcAppend = WithAuditFields (lb_ToLower L) (if cdcAppend then AsCDCAppendHistory schema else schema) cdc"

text \<open>The schema of a resource after its transform, named when it has no name.\<close>

definition transformed_schema :: "lib \<Rightarrow> def_doc option \<Rightarrow> schema \<Rightarrow> string \<Rightarrow> schema res" where
  "transformed_schema L def schema res =
     (case def of
        None \<Rightarrow> Inr schema
      | Some d \<Rightarrow>
          (case Compile L d (if sc_Resource schema = [] then schema\<lparr>sc_Resource := res\<rparr> else schema) of
             Inl _ \<Rightarrow> Inl (ErrMsg ''transform'')
           | Inr pl \<Rightarrow> Inr (pl_out pl)))"

definition sink_schema :: "lib \<Rightarrow> run_spec \<Rightarrow> def_doc option \<Rightarrow> schema \<Rightarrow> string \<Rightarrow> (string \<times> schema) res" where
  "sink_schema L spec def schema res =
     bind_res (transformed_schema L def schema res) (\<lambda>schema.
       let t = TypeFor (sp_IngestionTypes spec) res in
       case auditSchema L schema (IsCDCIngestion t) (t = IngestionCDCAppend) of
         Inl e \<Rightarrow> Inl (ErrWrap ''schema'' e)
       | Inr schema \<Rightarrow> Inr (destinationSchema res schema (sp_WritePolicies spec)))"

text \<open>The sink is a state and its call; the schemas of resources not loaded are empty.\<close>

type_synonym 's ensure_call = "'s \<Rightarrow> string \<Rightarrow> schema \<Rightarrow> 's \<times> goerr option"

definition zero_schema :: schema where
  "zero_schema = \<lparr>sc_envelope = False, sc_projectedEnvelope = False, sc_Resource = [], sc_DestinationResource = [],
     sc_Fields = [], sc_PrimaryKey = [], sc_Engine = []\<rparr>"

definition ensureSchema :: "lib \<Rightarrow> 's ensure_call \<Rightarrow> run_spec \<Rightarrow> def_doc option \<Rightarrow> schema \<Rightarrow> string \<Rightarrow> 's \<Rightarrow> 's \<times> goerr option" where
  "ensureSchema L ensure spec def schema res s =
     (case sink_schema L spec def schema res of
        Inl e \<Rightarrow> (s, Some e)
      | Inr (destination, schema) \<Rightarrow>
          (case ensure s destination schema of (s', None) \<Rightarrow> (s', None) | (s', Some e) \<Rightarrow> (s', Some (ErrWrap ''ensure schema'' e))))"

fun ensure_all :: "lib \<Rightarrow> 's ensure_call \<Rightarrow> run_spec \<Rightarrow> schemas \<Rightarrow> def_doc option \<Rightarrow> string list \<Rightarrow> 's \<Rightarrow> 's \<times> goerr option" where
  "ensure_all L ensure spec schemas def [] s = (s, None)"
| "ensure_all L ensure spec schemas def (res # rest) s =
     (case ensureSchema L ensure spec def (case map_of schemas res of Some x \<Rightarrow> x | None \<Rightarrow> zero_schema) res s of
        (s', Some e) \<Rightarrow> (s', Some e)
      | (s', None) \<Rightarrow> ensure_all L ensure spec schemas def rest s')"

definition ensureSchemas :: "lib \<Rightarrow> 's ensure_call option \<Rightarrow> run_spec \<Rightarrow> schemas \<Rightarrow> def_doc option \<Rightarrow> 's \<Rightarrow> 's \<times> goerr option" where
  "ensureSchemas L sch spec schemas def s =
     (case sch of None \<Rightarrow> (s, None) | Some ensure \<Rightarrow> ensure_all L ensure spec schemas def (sp_Resources spec) s)"

section \<open>The transform stage\<close>

text \<open>A definition that does not name the resource gives no plan.\<close>

definition planFor :: "lib \<Rightarrow> def_doc option \<Rightarrow> string \<Rightarrow> schema \<Rightarrow> plan option res" where
  "planFor L def resource supplied =
     (case def of
        None \<Rightarrow> Inr None
      | Some d \<Rightarrow>
          (case map_of (df_Resources d) resource of
             None \<Rightarrow> Inr None
           | Some _ \<Rightarrow>
               (case Compile L d (supplied\<lparr>sc_Resource := resource\<rparr>) of
                  Inl _ \<Rightarrow> Inl (ErrWrap ''pipeline'' (ErrMsg ''transform''))
                | Inr pl \<Rightarrow> Inr (Some pl))))"

text \<open>
  What the stage does with a batch: fail the pipeline, or hand the batch on. A panic is recovered and
  fails the pipeline with a message of its own.
\<close>

datatype stage_result = StageFail goerr | StageSend batch

definition transformBatch :: "lib \<Rightarrow> plan option \<Rightarrow> batch \<Rightarrow> stage_result" where
  "transformBatch L pl b =
     (if bt_Drained b \<or> bt_Control b \<noteq> None then StageSend b
      else case pl of
        None \<Rightarrow> StageSend b
      | Some p \<Rightarrow>
          (case bt_rows b of
             None \<Rightarrow> StageFail (ErrMsg ''panicked'')
           | Some rows \<Rightarrow>
               (case Apply L p rows of
                  Inl (ErrPanic m) \<Rightarrow> StageFail (ErrMsg ''panicked'')
                | Inl e \<Rightarrow> StageFail (ErrWrap ''transform'' e)
                | Inr out \<Rightarrow> StageSend (WithRows b out))))"

section \<open>Outputs are distinct\<close>

text \<open>The resources named so far: each has its output, its policy, its type and its cursor there.\<close>

definition named_one :: "run_spec \<Rightarrow> naming_state \<Rightarrow> string \<Rightarrow> bool" where
  "named_one spec st r \<longleftrightarrow> (\<exists>p. map_of (nm_policies st) r = Some p \<and> wp_DestinationResource p \<noteq> [] \<and>
     map_of (nm_seen st) (wp_DestinationResource p) = Some r \<and>
     map_of (sp_WritePolicies (nm_out st)) (wp_DestinationResource p) = Some (p\<lparr>wp_Resource := wp_DestinationResource p, wp_DestinationResource := []\<rparr>) \<and>
     map_of (sp_IngestionTypes (nm_out st)) (wp_DestinationResource p) = map_of (sp_IngestionTypes spec) r \<and>
     map_of (sp_CursorConfigs (nm_out st)) (wp_DestinationResource p) = map_of (sp_CursorConfigs spec) r)"

definition named :: "run_spec \<Rightarrow> naming_state \<Rightarrow> string list \<Rightarrow> bool" where
  "named spec st rs \<longleftrightarrow> (\<forall>r \<in> set rs. named_one spec st r) \<and>
     sp_Resources (nm_out st) = map (destination_at (nm_policies st)) rs \<and>
     (\<forall>d r. map_of (nm_seen st) d = Some r \<longrightarrow> r \<in> set rs) \<and>
     (\<forall>d. d \<noteq> [] \<longrightarrow> map_of (nm_seen st) d = None \<longrightarrow> map_of (sp_IngestionTypes (nm_out st)) d = None \<and> map_of (sp_CursorConfigs (nm_out st)) d = None) \<and>
     map_of (sp_IngestionTypes (nm_out st)) [] = map_of (sp_IngestionTypes spec) []"

lemma output_name_nonempty: "r \<noteq> [] \<Longrightarrow> output_name en schemas p r \<noteq> []"
  by (simp add: output_name_def Let_def)

lemma output_name_given: "wp_DestinationResource p \<noteq> [] \<Longrightarrow> output_name en schemas p r = wp_DestinationResource p"
  by (simp add: output_name_def Let_def)

lemma name_resource_named:
  assumes st: "named spec st rs" and r: "r \<noteq> []" and n: "name_resource en schemas spec r st = Inr st'"
  shows "named spec st' (rs @ [r])"
proof -
  define p where "p = policy_for (nm_policies st) r"
  define d where "d = output_name en schemas p r"
  have d: "d \<noteq> []" using output_name_nonempty [OF r] by (simp add: d_def)
  note n' = n [unfolded name_resource_def Let_def, folded p_def, folded d_def]
  have seen: "map_of (nm_seen st) d = None \<or> map_of (nm_seen st) d = Some r"
    using n' by (auto split: if_splits)
  have st': "nm_policies st' = AList.update r (p\<lparr>wp_DestinationResource := d\<rparr>) (nm_policies st)"
    "nm_seen st' = AList.update d r (nm_seen st)" "sp_Resources (nm_out st') = sp_Resources (nm_out st) @ [d]"
    "sp_WritePolicies (nm_out st') = AList.update d (p\<lparr>wp_Resource := d, wp_DestinationResource := []\<rparr>) (sp_WritePolicies (nm_out st))"
    "sp_IngestionTypes (nm_out st') = (case map_of (sp_IngestionTypes spec) r of Some t \<Rightarrow> AList.update d t (sp_IngestionTypes (nm_out st)) | None \<Rightarrow> sp_IngestionTypes (nm_out st))"
    "sp_CursorConfigs (nm_out st') = (case map_of (sp_CursorConfigs spec) r of Some t \<Rightarrow> AList.update d t (sp_CursorConfigs (nm_out st)) | None \<Rightarrow> sp_CursorConfigs (nm_out st))"
    using n' by (auto split: if_splits)
  have old: "map_of (sp_IngestionTypes (nm_out st)) d = None \<and> map_of (sp_CursorConfigs (nm_out st)) d = None" if "r \<notin> set rs"
    using st seen that d by (auto simp: named_def)
  have same: "p = the (map_of (nm_policies st) r) \<and> d = wp_DestinationResource p \<and> named_one spec st r" if "r \<in> set rs"
    using st that output_name_given [of p en schemas r] by (auto simp: named_def named_one_def p_def d_def policy_for_def)
  have new: "named_one spec st' r"
    using old same d by (cases "r \<in> set rs") (auto simp: named_one_def st' update_conv' split: option.splits)
  have keep: "named_one spec st' r' \<and> destination_at (nm_policies st') r' = destination_at (nm_policies st) r'" if "r' \<in> set rs" "r' \<noteq> r" for r'
  proof -
    have one: "named_one spec st r'" using st that(1) by (simp add: named_def)
    then obtain q where q: "map_of (nm_policies st) r' = Some q" "map_of (nm_seen st) (wp_DestinationResource q) = Some r'"
      by (auto simp: named_one_def)
    then have "wp_DestinationResource q \<noteq> d" using seen that(2) by auto
    then show ?thesis using one that(2) q by (auto simp: named_one_def st' update_conv' destination_at_def split: option.splits)
  qed
  have dest: "destination_at (nm_policies st') r = d" by (simp add: destination_at_def st' update_conv')
  have "destination_at (nm_policies st') r' = destination_at (nm_policies st) r'" if "r' \<in> set rs" for r'
    using keep same that dest by (cases "r' = r") (auto simp: destination_at_def named_one_def)
  then have res: "sp_Resources (nm_out st') = map (destination_at (nm_policies st')) (rs @ [r])"
    using st dest by (simp add: named_def st')
  show ?thesis
    using new keep res st d by (auto simp: named_def st' update_conv' split: if_splits option.splits)
qed

lemma name_resources_named:
  "named spec st rs \<Longrightarrow> [] \<notin> set rs' \<Longrightarrow> name_resources en schemas spec rs' st = Inr st' \<Longrightarrow> named spec st' (rs @ rs')"
proof (induction rs' arbitrary: st rs)
  case (Cons r rs')
  obtain st1 where st1: "name_resource en schemas spec r st = Inr st1" using Cons.prems(3) by (cases "name_resource en schemas spec r st") auto
  have "named spec st1 (rs @ [r])" using name_resource_named [OF Cons.prems(1) _ st1] Cons.prems(2) by auto
  from Cons.IH [OF this] show ?case using Cons.prems st1 by simp
qed simp

text \<open>
  C12: Output names are resolved once and never shared. Where the resources of a run are prepared for a
  sink, the sink-facing spec lists one output per resource; two resources with the same output are the
  same resource; the output of a resource is the one the schema of the resource is sent to; and under
  it the sink finds the policy, the ingestion type and the cursor of that resource.
\<close>

theorem outputs_distinct:
  assumes "prepareSinkResources en spec schemas = Inr (out, spec', schemas')" "[] \<notin> set (sp_Resources spec)"
  shows "sp_Resources out = map (\<lambda>r. fst (destinationSchema r s (sp_WritePolicies spec'))) (sp_Resources spec) \<and>
    inj_on (\<lambda>r. fst (destinationSchema r s (sp_WritePolicies spec'))) (set (sp_Resources spec)) \<and>
    list_all (\<lambda>r. \<exists>p d. map_of (sp_WritePolicies spec') r = Some p \<and> d = fst (destinationSchema r s (sp_WritePolicies spec')) \<and>
      map_of (sp_WritePolicies out) d = Some (p\<lparr>wp_Resource := d, wp_DestinationResource := []\<rparr>) \<and>
      TypeFor (sp_IngestionTypes out) d = TypeFor (sp_IngestionTypes spec) r \<and>
      map_of (sp_CursorConfigs out) d = map_of (sp_CursorConfigs spec) r) (sp_Resources spec)"
proof -
  let ?out = "spec\<lparr>sp_Resources := [],
             sp_WritePolicies := (case map_of (sp_WritePolicies spec) [] of Some p \<Rightarrow> [([], p\<lparr>wp_DestinationResource := []\<rparr>)] | None \<Rightarrow> []),
             sp_IngestionTypes := (case map_of (sp_IngestionTypes spec) [] of Some t \<Rightarrow> [([], t)] | None \<Rightarrow> []),
             sp_CursorConfigs := []\<rparr>"
  let ?st = "\<lparr>nm_policies = sp_WritePolicies spec, nm_out = ?out, nm_seen = []\<rparr>"
  obtain st where st: "name_resources en schemas' spec (sp_Resources spec) ?st = Inr st" "out = nm_out st" "spec' = spec\<lparr>sp_WritePolicies := nm_policies st\<rparr>"
    using assms(1) by (auto simp: prepareSinkResources_def Let_def bind_res_def split: sum.splits)
  have "named spec ?st []" by (auto simp: named_def split: option.splits)
  from name_resources_named [OF this assms(2) st(1)] have n: "named spec st (sp_Resources spec)" by simp
  have d: "fst (destinationSchema r s (sp_WritePolicies spec')) = destination_at (nm_policies st) r \<and> named_one spec st r" if "r \<in> set (sp_Resources spec)" for r
    using n that st(3) by (auto simp: named_def named_one_def destinationSchema_def Let_def destination_at_def)
  have one: "\<exists>p. map_of (sp_WritePolicies spec') r = Some p \<and> destination_at (nm_policies st) r = wp_DestinationResource p \<and>
      map_of (sp_WritePolicies out) (wp_DestinationResource p) = Some (p\<lparr>wp_Resource := wp_DestinationResource p, wp_DestinationResource := []\<rparr>) \<and>
      TypeFor (sp_IngestionTypes out) (wp_DestinationResource p) = TypeFor (sp_IngestionTypes spec) r \<and>
      map_of (sp_CursorConfigs out) (wp_DestinationResource p) = map_of (sp_CursorConfigs spec) r"
    if "r \<in> set (sp_Resources spec)" for r
  proof -
    have "type_at (sp_IngestionTypes out) [] = type_at (sp_IngestionTypes spec) []" using n st(2) by (simp add: named_def type_at_def)
    then show ?thesis using d [OF that] st(2,3) by (auto simp: named_one_def destination_at_def TypeFor_def split: option.split)
  qed
  have "inj_on (destination_at (nm_policies st)) (set (sp_Resources spec))"
  proof (rule inj_onI)
    fix x y assume "x \<in> set (sp_Resources spec)" "y \<in> set (sp_Resources spec)" "destination_at (nm_policies st) x = destination_at (nm_policies st) y"
    then show "x = y" using d [of x] d [of y] by (auto simp: named_one_def destination_at_def)
  qed
  then have "inj_on (\<lambda>r. fst (destinationSchema r s (sp_WritePolicies spec'))) (set (sp_Resources spec))"
    using d inj_on_cong [of "set (sp_Resources spec)"] by (metis (no_types, lifting))
  moreover have "sp_Resources out = map (\<lambda>r. fst (destinationSchema r s (sp_WritePolicies spec'))) (sp_Resources spec)"
    using n d st(2) by (simp add: named_def)
  moreover have "\<forall>r \<in> set (sp_Resources spec). \<exists>p d. map_of (sp_WritePolicies spec') r = Some p \<and> d = fst (destinationSchema r s (sp_WritePolicies spec')) \<and>
      map_of (sp_WritePolicies out) d = Some (p\<lparr>wp_Resource := d, wp_DestinationResource := []\<rparr>) \<and>
      TypeFor (sp_IngestionTypes out) d = TypeFor (sp_IngestionTypes spec) r \<and>
      map_of (sp_CursorConfigs out) d = map_of (sp_CursorConfigs spec) r"
    using one d by metis
  ultimately show ?thesis by (simp add: list_all_iff)
qed

definition demo_ends :: ends where
  "demo_ends = \<lparr>en_Schematized = False, en_Schema = None, en_DestinationResource = Some (\<lambda>r. ''raw_'' @ r)\<rparr>"

theorem outputs_distinct_witness:
  "\<exists>out spec'. prepareSinkResources demo_ends (demo_spec ExecutionBounded [''orders'', ''users''] [(''orders'', IngestionCDCMerge)] []) [] = Inr (out, spec', []) \<and>
     sp_Resources out = [''raw_orders'', ''raw_users''] \<and>
     inj_on (\<lambda>r. fst (destinationSchema r zero_schema (sp_WritePolicies spec'))) {''orders'', ''users''}"
proof -
  let ?spec = "demo_spec ExecutionBounded [''orders'', ''users''] [(''orders'', IngestionCDCMerge)] []"
  let ?r = "prepareSinkResources demo_ends ?spec []"
  have "case ?r of Inl _ \<Rightarrow> False | Inr (out, spec', schemas') \<Rightarrow> sp_Resources out = [''raw_orders'', ''raw_users''] \<and> schemas' = []" by code_simp
  then obtain out spec' where r: "?r = Inr (out, spec', [])" "sp_Resources out = [''raw_orders'', ''raw_users'']"
    by (auto split: sum.splits)
  have rs: "sp_Resources ?spec = [''orders'', ''users'']" by (simp add: demo_spec_def)
  show ?thesis using outputs_distinct [OF r(1), of zero_schema] r rs by auto
qed

section \<open>The sink is given what it was asked to hold\<close>

lemma auditSchema_fields:
  assumes "auditSchema L s cdc app = Inr a"
  shows "sc_Fields a = (if app then map (\<lambda>f. f\<lparr>fd_Nullable := True\<rparr>) (sc_Fields s) else sc_Fields s) @ audit_fields cdc"
  using assms by (auto simp: auditSchema_def WithAuditFields_def AsCDCAppendHistory_def check_err_def split: option.splits if_splits)

lemma audited_leads:
  assumes "auditSchema L s cdc app = Inr model" "rb_Schema r = ArrowBatch.Schema model"
  shows "leads s (map ArrowBatch.Field (audit_fields cdc)) r"
proof -
  let ?front = "map ArrowBatch.Field (if app then map (\<lambda>f. f\<lparr>fd_Nullable := True\<rparr>) (sc_Fields s) else sc_Fields s)"
  have "list_all2 (\<lambda>f a. af_Name a = fd_Name f \<and> af_Type a = Type f) (sc_Fields s) ?front"
    by (auto simp: list_all2_conv_all_nth ArrowBatch.Field_def Type_def)
  then show ?thesis
    using assms(2) auditSchema_fields [OF assms(1)] unfolding leads_def ArrowBatch.Schema_def by (intro exI [of _ ?front]) simp
qed

text \<open>
  C11: The transform stage and the sink agree. Where the source schema carries the name of the resource,
  as the inlet of the pipeline requires of the builders it hands out, and a sink was asked to hold the audited schema of a
  transformed resource, a batch built with the audited source schema either fails the run with the
  error of a kernel, never a panic, or reaches the writer with its identity, its rows and its
  operations, and with the columns of that schema: by name, type and annotations always, and flag for
  flag unless the run appends change history. There the sink's columns are all nullable, and the batch
  keeps the flags of the source.
\<close>

theorem stage_matches_sink:
  assumes "lib_ok L" and res: "sc_Resource s = res" and pl: "planFor L (Some d) res s = Inr (Some pl)"
    and t: "transformed_schema L (Some d) s res = Inr out" "auditSchema L out cdc app = Inr ddl"
    and model: "auditSchema L s cdc app = Inr model" and b: "bt_rows b = Some r" "record_ok r" "rb_Schema r = ArrowBatch.Schema model"
      "\<not> bt_Drained b" "bt_Control b = None"
  shows "case transformBatch L (Some pl) b of
      StageFail e \<Rightarrow> e \<noteq> ErrMsg ''panicked''
    | StageSend b' \<Rightarrow> bt_Resource b' = bt_Resource b \<and> bt_Part b' = bt_Part b \<and> bt_Seq b' = bt_Seq b \<and> bt_Cursor b' = bt_Cursor b \<and>
        bt_Last b' = bt_Last b \<and> bt_ops b' = bt_ops b \<and>
        (\<exists>q. bt_rows b' = Some q \<and> rb_NumRows q = rb_NumRows r \<and> record_ok q \<and>
          map (\<lambda>a. a\<lparr>af_Nullable := True\<rparr>) (rb_Schema q) = map (\<lambda>a. a\<lparr>af_Nullable := True\<rparr>) (ArrowBatch.Schema ddl) \<and>
          map (\<lambda>a. af_Nullable a) (rb_Schema q) = map (\<lambda>f. fd_Nullable f) (sc_Fields out) @ replicate (length (audit_fields cdc)) True \<and>
          map (\<lambda>a. af_Nullable a) (ArrowBatch.Schema ddl) =
            (if app then replicate (length (rb_Schema q)) True else map (\<lambda>a. af_Nullable a) (rb_Schema q)))"
proof -
  have s: "s\<lparr>sc_Resource := res\<rparr> = s" "(if sc_Resource s = [] then s\<lparr>sc_Resource := res\<rparr> else s) = s" using res by auto
  have c: "Compile L d s = Inr pl" "out = pl_out pl"
    using pl t(1) s by (auto simp: planFor_def transformed_schema_def split: option.splits sum.splits)
  let ?extra = "map ArrowBatch.Field (audit_fields cdc)"
  have extra: "map (\<lambda>a. af_Nullable a) ?extra = replicate (length (audit_fields cdc)) True"
    by (auto simp: audit_fields_def ArrowBatch.Field_def)
  note sound = Apply_sound [OF assms(1) c(1) b(2) audited_leads [OF model b(3)]]
  have ddl: "ArrowBatch.Schema ddl = map ArrowBatch.Field (if app then map (\<lambda>f. f\<lparr>fd_Nullable := True\<rparr>) (sc_Fields out) else sc_Fields out) @ ?extra"
    using auditSchema_fields [OF t(2)] by (simp add: ArrowBatch.Schema_def)
  have nullable: "map (\<lambda>a. af_Nullable a) (map ArrowBatch.Field (map (\<lambda>f. f\<lparr>fd_Nullable := True\<rparr>) fs)) = replicate (length fs) True" for fs
    by (induction fs) (simp_all add: ArrowBatch.Field_def)
  have fields: "ArrowBatch.Schema out = map ArrowBatch.Field (sc_Fields out)" by (simp add: ArrowBatch.Schema_def)
  show ?thesis
  proof (cases "Apply L pl r")
    case (Inl e)
    then show ?thesis using sound b by (cases e) (auto simp: transformBatch_def)
  next
    case (Inr q)
    then have q: "rb_Schema q = ArrowBatch.Schema out @ ?extra" "rb_NumRows q = rb_NumRows r" "record_ok q"
      using sound c(2) by auto
    have flags: "map (\<lambda>a. a\<lparr>af_Nullable := True\<rparr>) (rb_Schema q) = map (\<lambda>a. a\<lparr>af_Nullable := True\<rparr>) (ArrowBatch.Schema ddl)"
      "map (\<lambda>a. af_Nullable a) (rb_Schema q) = map (\<lambda>f. fd_Nullable f) (sc_Fields out) @ replicate (length (audit_fields cdc)) True"
      "map (\<lambda>a. af_Nullable a) (ArrowBatch.Schema ddl) = (if app then replicate (length (rb_Schema q)) True else map (\<lambda>a. af_Nullable a) (rb_Schema q))"
      unfolding ddl q(1) fields using extra nullable [of "sc_Fields out"]
      by (auto simp: ArrowBatch.Field_def Type_def replicate_add map_replicate_const comp_assoc)
    then show ?thesis using Inr q b by (simp add: transformBatch_def WithRows_def NewBatch_def)
  qed
qed

text \<open>A run that appends change history, of a source with a column that is not nullable.\<close>

definition demo_history :: schema where
  "demo_history = demo_schema\<lparr>sc_Fields := [(simple_field ''id'' ''int64'')\<lparr>fd_Nullable := False\<rparr>, simple_field ''name'' ''string'']\<rparr>"

definition demo_batch :: batch where
  "demo_batch = (NewBatch \<lparr>rb_Schema = ArrowBatch.Schema (demo_history\<lparr>sc_PrimaryKey := [],
       sc_Fields := map (\<lambda>f. f\<lparr>fd_Nullable := True\<rparr>) (sc_Fields demo_history) @ audit_fields True\<rparr>),
     rb_Columns = [[CInt64 1], [CNull], [CString ''r''], [CTimestamp 0], [CString ''delete''], [CString ''0/1''], [CInt64 7]], rb_NumRows = 1\<rparr>
     [OpDelete])\<lparr>bt_Resource := ''users''\<rparr>"

theorem stage_matches_sink_witness:
  "\<exists>pl out ddl. planFor demo_lib (Some (demo_def demo_steps)) ''users'' demo_history = Inr (Some pl) \<and>
     transformed_schema demo_lib (Some (demo_def demo_steps)) demo_history ''users'' = Inr out \<and> auditSchema demo_lib out True True = Inr ddl \<and>
     (case transformBatch demo_lib (Some pl) demo_batch of
        StageFail e \<Rightarrow> e \<noteq> ErrMsg ''panicked''
      | StageSend b' \<Rightarrow> bt_ops b' = [OpDelete] \<and> (\<exists>q. bt_rows b' = Some q \<and>
          map (\<lambda>a. af_Nullable a) (rb_Schema q) = map (\<lambda>f. fd_Nullable f) (sc_Fields out) @ replicate 5 True \<and>
          map (\<lambda>a. af_Nullable a) (ArrowBatch.Schema ddl) = replicate (length (rb_Schema q)) True))"
proof -
  let ?d = "demo_def demo_steps"
  have "case planFor demo_lib (Some ?d) ''users'' demo_history of Inr (Some _) \<Rightarrow> True | _ \<Rightarrow> False" by code_simp
  then obtain pl where pl: "planFor demo_lib (Some ?d) ''users'' demo_history = Inr (Some pl)" by (auto split: sum.splits option.splits)
  have "case transformed_schema demo_lib (Some ?d) demo_history ''users'' of Inl _ \<Rightarrow> False | Inr out \<Rightarrow>
      (case auditSchema demo_lib out True True of Inl _ \<Rightarrow> False | Inr _ \<Rightarrow> True)" by code_simp
  then obtain out ddl where t: "transformed_schema demo_lib (Some ?d) demo_history ''users'' = Inr out" "auditSchema demo_lib out True True = Inr ddl"
    by (auto split: sum.splits)
  obtain r where r: "bt_rows demo_batch = Some r" by (simp add: demo_batch_def NewBatch_def)
  have model: "auditSchema demo_lib demo_history True True = Inr (demo_history\<lparr>sc_PrimaryKey := [],
      sc_Fields := map (\<lambda>f. f\<lparr>fd_Nullable := True\<rparr>) (sc_Fields demo_history) @ audit_fields True\<rparr>)" by code_simp
  have ok: "record_ok r" "rb_Schema r = ArrowBatch.Schema (demo_history\<lparr>sc_PrimaryKey := [],
      sc_Fields := map (\<lambda>f. f\<lparr>fd_Nullable := True\<rparr>) (sc_Fields demo_history) @ audit_fields True\<rparr>)" "\<not> bt_Drained demo_batch" "bt_Control demo_batch = None"
    using r by (auto simp: demo_batch_def NewBatch_def record_ok_def demo_history_def audit_fields_def ArrowBatch.Schema_def ArrowBatch.Field_def Type_def)
  have s: "sc_Resource demo_history = ''users''" by (simp add: demo_history_def demo_schema_def)
  have a: "length (audit_fields True) = 5" "bt_ops demo_batch = [OpDelete]" by (simp_all add: audit_fields_def demo_batch_def NewBatch_def)
  from stage_matches_sink [OF demo_lib_ok s pl t model r ok]
  show ?thesis using pl t a by (auto split: stage_result.splits)
qed

end
