(* ===== verification/Spec2Isabelle.thy ===== *)
theory Spec2Isabelle
  imports Cron Naming SinkState Planning StreamKit RunnerSchema
begin

text \<open>
  A verification of the core of Filament, a data movement engine written in Go. A control plane plans
  runs and keeps their schedules; a run reads rows, or a stream of changes, from a source, carries them
  through a pipeline that batches, transforms and checks them, and writes them to a sink; progress is
  kept in checkpoints, and for continuous streams in epochs that are sealed, certified and committed.
  Facts about all this travel over an event bus. The development models these parts and how they use
  each other; every definition that models code keeps the name the code has, where Isabelle allows it.

  \<^bold>\<open>How Go is read.\<close> A string is its bytes. Integers are unbounded where the code cannot overflow and
  wrapped (\<open>wrap64\<close>, \<open>wrap32\<close>, words) where it can. A map is an association list, a nil slice or map is told
  apart from an empty one by an option where the code can tell, and a value with an error is \<open>'a res\<close>, a
  sum. A panic is an error of its own (\<open>ErrPanic\<close>), and \<open>returns r P\<close> says that \<open>r\<close> is not one. Errors made from a
  format carry the text without the operands. Values are immutable, so copies for safety are not modelled.

  \<^bold>\<open>Theories, in the order they build on each other.\<close>

  \<^item> \<^verbatim>\<open>Prelude\<close>, \<^verbatim>\<open>GoStrings\<close>, \<^verbatim>\<open>GoJson\<close>, \<^verbatim>\<open>JsonText\<close>: the vocabulary above and the parts of the
    standard library the code rests on: UTF-8, case folding, number texts, JSON texts and base64.
  \<^item> \<^verbatim>\<open>EventBus\<close> (\<^verbatim>\<open>eventbus\<close>, \<^verbatim>\<open>eventbus/inproc\<close>, \<^verbatim>\<open>events/subject.go\<close>): subjects, filters, resolvers, and the
    in-process bus as a step relation whose steps are its locked regions and its channel hand-overs. The
    bus delivers every wanted record once under every interleaving; two publishers can be reordered;
    patterns isolate runs and event types; prefix routes lose nothing.
  \<^item> \<^verbatim>\<open>Cron\<close> (\<^verbatim>\<open>internal/cron\<close>, \<^verbatim>\<open>internal/schedule\<close>): parsing, matching and the search for the next minute, with
    the calendar of package \<^verbatim>\<open>time\<close>. A term compiles to the values its step reaches, and \<open>Next\<close> finds the first
    match in its bound.
  \<^item> \<^verbatim>\<open>Naming\<close> (\<^verbatim>\<open>internal/naming\<close>) and \<^verbatim>\<open>SinkState\<close> (\<^verbatim>\<open>internal/sinkstate\<close>): identifiers, and the write lifecycle of
    sinks, which implements a specification over histories of calls.
  \<^item> \<^verbatim>\<open>Progress\<close>, \<^verbatim>\<open>RowModel\<close> (\<^verbatim>\<open>rowmodel\<close>), \<^verbatim>\<open>SchemaDrift\<close> (\<^verbatim>\<open>schema\<close>), \<^verbatim>\<open>Checkpoint\<close> (\<^verbatim>\<open>checkpoint\<close>): positions and
    their order through codecs, row schemas with reserved columns, comparison, migration and message
    layouts, and resumable cursors. Wire forms round trip, policies decide drift, migration is one safe
    call, and deltas of shards and streams merge independently of arrival.
  \<^item> \<^verbatim>\<open>Epoch\<close> (\<^verbatim>\<open>epoch.go\<close>, \<^verbatim>\<open>epoch_commit.go\<close>, \<^verbatim>\<open>internal/streamproof\<close>): coverage, certificates and the check of
    a commit against completion evidence. Canonical bytes agree exactly for the same content, and a
    commit is accepted exactly when everything it claims was observed.
  \<^item> \<^verbatim>\<open>ArrowBatch\<close> (\<^verbatim>\<open>arrowbatch\<close>), \<^verbatim>\<open>RunModel\<close> (\<^verbatim>\<open>run.go\<close>, \<^verbatim>\<open>stream.go\<close>, \<^verbatim>\<open>source.go\<close>, \<^verbatim>\<open>sink.go\<close>, \<^verbatim>\<open>infra.go\<close>),
    \<^verbatim>\<open>Planning\<close> (\<^verbatim>\<open>plan.go\<close>, \<^verbatim>\<open>stream_plan.go\<close>): builders of batches, runs with their policies, and the
    negotiation of source and sink into one policy per resource, bounded and continuous.
  \<^item> \<^verbatim>\<open>Pipeline\<close>, \<^verbatim>\<open>PipelineWriter\<close>, \<^verbatim>\<open>StreamEpoch\<close> (\<^verbatim>\<open>pipeline\<close>): inlet, slots, writer, barriers and epochs. A builder
    on a slot loses, repeats and reorders no row, and a sealed epoch has applied exactly its rows.
  \<^item> \<^verbatim>\<open>StreamCodec\<close>, \<^verbatim>\<open>StreamKit\<close> (\<^verbatim>\<open>streamkit\<close>): codecs, headers, retries, event identities and the boundary
    tracker, which is run beside the pipeline: a boundary it reports is one that can be sealed.
  \<^item> \<^verbatim>\<open>TransformKernel\<close>, \<^verbatim>\<open>TransformCatalog\<close>, \<^verbatim>\<open>Transform\<close> (\<^verbatim>\<open>transform\<close>, \<^verbatim>\<open>transform/kernel\<close>): the column functions, the
    catalog that types them, the compiler of definitions and the interpreter of plans. What compiles
    applies without a panic and yields its announced schema, keys pass untouched, and a condition
    selects the rows a step rewrites.
  \<^item> \<^verbatim>\<open>RunnerSchema\<close> (\<^verbatim>\<open>runner/destinations.go\<close>, \<^verbatim>\<open>runner/schema.go\<close>, \<^verbatim>\<open>pipeline/transform.go\<close>): output names, the
    schemas sinks are asked to hold, and the transform stage, which agrees with them.

  \<^bold>\<open>Interfaces.\<close> \<open>batch_receiver\<close> is what a builder expects of the slot it hands batches to; the slots of the
  pipeline interpret it. \<open>codec_laws\<close> is what positions expect of a codec; the opaque and the counter codec
  interpret it.

  \<^bold>\<open>Parameters.\<close> Code outside the repository is an argument of the definitions that use it: the sink and the
  schema preparation behind the pipeline (\<open>calls\<close>), the destination behind a migration, SHA-256, the
  Unicode case tables, the time zone database, the optional interfaces of a source, and for transforms
  the library \<open>lib\<close>. Its hypothesis \<open>lib_ok\<close> states what Arrow documents: comparisons of values of one type
  give booleans, logic keeps booleans, arithmetic keeps integers and floats but not decimals or times,
  rounding keeps floats, and concatenation, take, broadcast and the record constructor do what they say.

  \<^bold>\<open>Concurrency.\<close> The bus is a relation over all interleavings. In the pipeline the producer's calls run one
  after the other, and each send carries a schedule entry: how many batches the writer finishes before
  it, whether a context is cancelled, and which ready arm of the select runs; the writer may lag by the
  two batches of the channel and the one it has taken. The statements hold for every schedule.

  \<^bold>\<open>Bounds and fuel.\<close> The loop over the steps of a cron term gets 256 rounds, which \<open>step_bits_total\<close> shows to
  be enough for every field even when the step wraps around; the search for the next minute has the bound
  the code has, and retries the number of attempts the policy gives. Decoding a JSON list gets the length
  of its text, of which every element uses at least one byte. Everything else is structural recursion.

  \<^bold>\<open>Limits of the model.\<close> One pipeline writer. A stream writer is found by its resource: a handle kept after
  its builder was closed and another one opened for the same resource is taken for the new one. An Arrow
  array is the list of its values, so reference counts, memory layout and the checksum over it are
  parameters. A bus message's number of tries is read off the deliveries in its subscription. Steps of a
  cron term above \<open>2 ^ 63 - 65\<close> are modelled but excluded from \<open>parsePart_bits\<close>; \<open>parsePart_step_overflow\<close>
  shows what they do.

  \<^bold>\<open>Not modelled.\<close> Generated code (protobuf, Connect, SQL queries), the stores and the API server, whose
  behaviour is that of databases and transports; connectors, which are the parameters above; the modules,
  workers and commands that run processes; identity, secrets, notifications and profiling; the inference
  of columns from message JSON, and the decoding of transform documents, which rest on third-party
  decoders. The goroutines of the runner and of the transform stage are left out; the handling of one
  batch by the stage is modelled.
\<close>

end
